(* ===== verification/Prelude.thy ===== *)
theory Prelude
  imports Main "HOL-Library.Word"
begin

text \<open>
  Shared ground of the development: bytes and their signed reading, the result type of a
  computation that may throw, crash or fail to return, and the functions of the C run-time
  library the program calls (\<open>strlen\<close>, \<open>strchr\<close>, \<open>memcpy_s\<close>, \<open>strcpy_s\<close>, \<open>strcat_s\<close>,
  \<open>_itoa_s\<close>, \<open>atoi\<close>, \<open>htons\<close>, \<open>htonl\<close>), read over finite byte memories.

  A memory region is a \<open>byte list\<close>; a pointer into it is an offset. Reading or writing past
  the end of the region is undefined behaviour in C and is the value \<open>Crash\<close> here, so that a
  theorem which says that a function returns also says that it stays inside its buffers.
\<close>

unbundle bit_operations_syntax

named_theorems run_simps \<open>equations of the result type\<close>
named_theorems mem_simps \<open>equations of the memory operations\<close>

section \<open>Results\<close>

type_synonym byte = "8 word"

text \<open>
  Ways in which a process goes down: undefined behaviour on memory, and the secure C run-time
  library's invalid-parameter handler, which ends the process.
\<close>

datatype crash =
    Read_Out_Of_Bounds
  | Write_Out_Of_Bounds
  | Invalid_Parameter
  | Null_Dereference
  | Use_After_Free
  | Uninitialised_Read
  | Empty_Queue_Pop

text \<open>
  What a call can raise: a \<open>std::exception\<close> with its message, a thrown \<open>int\<close>, a crash, which no
  handler of the program can catch, or a call of \<open>exit\<close>.
\<close>

datatype error = Exception string | Int_Thrown int | Crash crash | Exit int

text \<open>\<open>None\<close> is a computation that never returns; \<open>Inl\<close> an error; \<open>Inr\<close> a result.\<close>

type_synonym 'a run = "(error + 'a) option"

definition ret :: "'a \<Rightarrow> 'a run" where
  "ret x = Some (Inr x)"

definition raise :: "error \<Rightarrow> 'a run" where
  "raise e = Some (Inl e)"

definition bind_run :: "'a run \<Rightarrow> ('a \<Rightarrow> 'b run) \<Rightarrow> 'b run" where
  "bind_run m f = (case m of None \<Rightarrow> None | Some (Inl e) \<Rightarrow> Some (Inl e) | Some (Inr x) \<Rightarrow> f x)"

abbreviation crash :: "crash \<Rightarrow> 'a run" where
  "crash c \<equiv> raise (Crash c)"

lemma bind_run_simps [simp, run_simps]:
  "bind_run None f = None"
  "bind_run (Some (Inl e)) f = Some (Inl e)"
  "bind_run (Some (Inr x)) f = f x"
  "bind_run (ret x) f = f x"
  "bind_run (raise e) f = raise e"
  by (simp_all add: bind_run_def ret_def raise_def)

lemma ret_neq_raise [simp, run_simps]:
  "ret x \<noteq> raise e" "raise e \<noteq> ret x" "ret x \<noteq> None" "None \<noteq> ret x" "raise e \<noteq> None" "None \<noteq> raise e"
  by (simp_all add: ret_def raise_def)

lemma ret_inject [simp, run_simps]: "ret x = ret y \<longleftrightarrow> x = y" "raise e = (raise e' :: 'a run) \<longleftrightarrow> e = e'"
  by (simp_all add: ret_def raise_def)

lemma bind_run_ret_iff: "bind_run m f = ret y \<longleftrightarrow> (\<exists>x. m = ret x \<and> f x = ret y)"
  by (auto simp: bind_run_def ret_def split: option.splits sum.splits)

lemma bind_run_retE:
  assumes "bind_run m f = ret y"
  obtains x where "m = ret x" and "f x = ret y"
  using assms by (auto simp: bind_run_ret_iff)

lemma bind_run_raise_iff:
  "bind_run m f = raise e \<longleftrightarrow> m = raise e \<or> (\<exists>x. m = ret x \<and> f x = raise e)"
  by (auto simp: bind_run_def ret_def raise_def split: option.splits sum.splits)

lemma bind_run_None_iff:
  "bind_run m f = None \<longleftrightarrow> m = None \<or> (\<exists>x. m = ret x \<and> f x = None)"
  by (auto simp: bind_run_def ret_def split: option.splits sum.splits)

lemma run_cases [case_names None raise ret]:
  obtains "m = None" | e where "m = raise e" | x where "m = ret x"
proof (cases m)
  case (Some r)
  then show ?thesis using that by (cases r) (auto simp: ret_def raise_def)
qed

lemma bind_run_assoc: "bind_run (bind_run m f) g = bind_run m (\<lambda>x. bind_run (f x) g)"
  by (cases m rule: run_cases) simp_all

lemma bind_run_ret_right [simp]: "bind_run m ret = m"
  by (cases m rule: run_cases) simp_all

lemma bind_run_cong [fundef_cong]:
  "m = m' \<Longrightarrow> (\<And>x. m' = ret x \<Longrightarrow> f x = f' x) \<Longrightarrow> bind_run m f = bind_run m' f'"
  by (cases m rule: run_cases) auto

text \<open>That a computation returns at all, with a result or with an error.\<close>

definition returns :: "'a run \<Rightarrow> bool" where
  "returns m \<longleftrightarrow> m \<noteq> None"

lemma returns_simps [simp]: "returns (ret x)" "returns (raise e)" "\<not> returns None" "returns (Some r)"
  by (simp_all add: returns_def ret_def raise_def)

lemma returns_bind: "returns (bind_run m f) \<longleftrightarrow> returns m \<and> (\<forall>x. m = ret x \<longrightarrow> returns (f x))"
  by (cases m rule: run_cases) simp_all

lemma returns_bindI [intro]: "returns m \<Longrightarrow> (\<And>x. m = ret x \<Longrightarrow> returns (f x)) \<Longrightarrow> returns (bind_run m f)"
  by (simp add: returns_bind)

section \<open>Bytes\<close>

text \<open>String literals of the source as byte strings.\<close>

definition bytes_of :: "string \<Rightarrow> byte list" where
  "bytes_of s = map of_char s"

lemma bytes_of_simps [simp]:
  "bytes_of [] = []" "bytes_of (c # cs) = of_char c # bytes_of cs"
  by (simp_all add: bytes_of_def)

abbreviation dot :: byte where
  "dot \<equiv> 0x2E"

text \<open>
  \<open>char\<close> is signed in this build: reading one into a wider type repeats its top bit.
\<close>

definition sext16 :: "byte \<Rightarrow> 16 word" where
  "sext16 b = scast b"

definition sext32 :: "byte \<Rightarrow> 32 word" where
  "sext32 b = scast b"

lemma bit_beyond: "LENGTH('a) \<le> n \<Longrightarrow> \<not> bit (w :: 'a::len word) n"
  using bit_imp_le_length [of w n] by auto

lemma unat_byte_less: "unat (b :: byte) < 256"
  using unsigned_less [of b] by simp

lemma bit_word_odd: "bit w n \<longleftrightarrow> odd (unat w div 2 ^ n)" for w :: "'a::len word"
proof -
  have "bit (unat w) n \<longleftrightarrow> bit w n" by (simp add: bit_unsigned_iff)
  then show ?thesis using bit_iff_odd [of "unat w" n] by blast
qed

lemma unat_ucast_byte [simp]: "unat (ucast (b :: byte) :: 32 word) = unat b" "unat (ucast (b :: byte) :: 16 word) = unat b"
  using unat_byte_less [of b] by (simp_all add: unsigned_ucast_eq take_bit_nat_eq_self)

lemma odd_div_128: "(n :: nat) < 256 \<Longrightarrow> odd (n div 128) \<longleftrightarrow> 128 \<le> n"
  by (cases "n < 128") (auto simp: div_if)

lemma odd_div_64: "(n :: nat) < 256 \<Longrightarrow> odd (n div 64) \<and> odd (n div 128) \<longleftrightarrow> 192 \<le> n"
proof -
  assume "n < 256"
  then have "n div 64 = (if n < 64 then 0 else if n < 128 then 1 else if n < 192 then 2 else 3)"
    by (auto simp: div_if)
  with \<open>n < 256\<close> show ?thesis by (auto simp: odd_div_128)
qed

lemma byte_bit7: "bit b 7 \<longleftrightarrow> 0x80 \<le> b" for b :: byte
proof -
  have "bit b 7 \<longleftrightarrow> odd (unat b div 2 ^ 7)"
    by (simp only: bit_word_odd)
  also have "\<dots> \<longleftrightarrow> 128 \<le> unat b"
    using odd_div_128 [OF unat_byte_less [of b]] by simp
  finally show ?thesis by (simp add: word_le_nat_alt)
qed

lemma byte_bits_6_7: "bit b 6 \<and> bit b 7 \<longleftrightarrow> 0xC0 \<le> b" for b :: byte
proof -
  have "bit b 6 \<and> bit b 7 \<longleftrightarrow> odd (unat b div 2 ^ 6) \<and> odd (unat b div 2 ^ 7)"
    by (simp only: bit_word_odd)
  also have "\<dots> \<longleftrightarrow> 192 \<le> unat b"
    using odd_div_64 [OF unat_byte_less [of b]] by simp
  finally show ?thesis by (simp add: word_le_nat_alt)
qed

lemma bit_sext32: "bit (sext32 b) n \<longleftrightarrow> n < 32 \<and> (bit b n \<or> 8 \<le> n \<and> 0x80 \<le> b)"
  by (simp add: sext32_def bit_word_scast_iff byte_bit7 flip: byte_bit7)

lemma sext32_low: "b < 0x80 \<Longrightarrow> sext32 b = ucast b"
  by (rule bit_word_eqI) (auto simp: bit_sext32 bit_simps)

lemma sext32_high: "0x80 \<le> b \<Longrightarrow> 63 < sext32 b"
proof -
  assume "0x80 \<le> b"
  then have "bit (sext32 b) 31" by (simp add: bit_sext32)
  then have "odd (unat (sext32 b) div 2 ^ 31)"
    by (rule bit_word_odd [THEN iffD1])
  then have "0 < unat (sext32 b) div 2 ^ 31" by (rule odd_pos)
  then have "2 ^ 31 \<le> unat (sext32 b)" by (simp only: div_greater_zero_iff)
  then show ?thesis by (simp add: word_less_nat_alt)
qed

text \<open>An \<open>int\<close> that is passed for a \<open>size_t\<close>.\<close>

lemma int_as_size:
  assumes "n < 2 ^ 31"
  shows "unat (scast (of_nat n :: 32 word) :: 64 word) = n"
proof -
  have u: "unat (of_nat n :: 32 word) = n" using assms by (simp add: unat_of_nat take_bit_nat_eq_self)
  have "\<not> bit (of_nat n :: 32 word) 31"
    unfolding bit_word_odd u using assms by simp
  then have "(scast (of_nat n :: 32 word) :: 64 word) = ucast (of_nat n :: 32 word)"
    by (intro bit_word_eqI) (auto simp: bit_word_scast_iff bit_simps bit_beyond)
  then show ?thesis using u assms by (simp add: unsigned_ucast_eq take_bit_nat_eq_self)
qed

subsection \<open>Host and network byte order\<close>

text \<open>The hosts are little-endian: the byte at the lower address is the lower half.\<close>

definition le16 :: "16 word \<Rightarrow> byte list" where
  "le16 w = [ucast w, ucast (drop_bit 8 w)]"

definition le32 :: "32 word \<Rightarrow> byte list" where
  "le32 w = [ucast w, ucast (drop_bit 8 w), ucast (drop_bit 16 w), ucast (drop_bit 24 w)]"

definition of_le16 :: "byte \<Rightarrow> byte \<Rightarrow> 16 word" where
  "of_le16 b0 b1 = ucast b0 OR push_bit 8 (ucast b1)"

definition of_le32 :: "byte \<Rightarrow> byte \<Rightarrow> byte \<Rightarrow> byte \<Rightarrow> 32 word" where
  "of_le32 b0 b1 b2 b3 =
     ucast b0 OR push_bit 8 (ucast b1) OR push_bit 16 (ucast b2) OR push_bit 24 (ucast b3)"

text \<open>\<open>htons\<close> and \<open>ntohs\<close>, \<open>htonl\<close> and \<open>ntohl\<close> are the same byte swap.\<close>

definition htons :: "16 word \<Rightarrow> 16 word" where
  "htons w = push_bit 8 w OR drop_bit 8 w"

definition htonl :: "32 word \<Rightarrow> 32 word" where
  "htonl w = push_bit 24 w OR (push_bit 8 w AND 0xFF0000) OR (drop_bit 8 w AND 0xFF00) OR drop_bit 24 w"

abbreviation ntohs :: "16 word \<Rightarrow> 16 word" where
  "ntohs \<equiv> htons"

abbreviation ntohl :: "32 word \<Rightarrow> 32 word" where
  "ntohl \<equiv> htonl"

text \<open>Big-endian reading and writing, as the wire format has it.\<close>

definition be16 :: "16 word \<Rightarrow> byte list" where
  "be16 w = [ucast (drop_bit 8 w), ucast w]"

definition be32 :: "32 word \<Rightarrow> byte list" where
  "be32 w = [ucast (drop_bit 24 w), ucast (drop_bit 16 w), ucast (drop_bit 8 w), ucast w]"

lemma length_be [simp]: "length (be16 w) = 2" "length (be32 v) = 4"
  by (simp_all add: be16_def be32_def)

lemma htons_htons [simp]: "htons (htons w) = w"
  by (rule bit_word_eqI) (auto simp: htons_def bit_simps)

lemma le16_htons: "le16 (htons w) = be16 w"
  by (auto simp: le16_def be16_def htons_def intro!: bit_word_eqI simp: bit_simps)

lemma of_le16_le16: "of_le16 (ucast w) (ucast (drop_bit 8 w)) = w"
  by (rule bit_word_eqI) (auto simp: of_le16_def bit_simps)

section \<open>Memory regions and the C run-time library\<close>

definition rd :: "byte list \<Rightarrow> nat \<Rightarrow> byte run" where
  "rd m i = (if i < length m then ret (m ! i) else crash Read_Out_Of_Bounds)"

definition rdn :: "byte list \<Rightarrow> nat \<Rightarrow> nat \<Rightarrow> byte list run" where
  "rdn m i n = (if i + n \<le> length m then ret (take n (drop i m)) else crash Read_Out_Of_Bounds)"

definition wr :: "byte list \<Rightarrow> nat \<Rightarrow> byte list \<Rightarrow> byte list run" where
  "wr m i bs = (if i + length bs \<le> length m
     then ret (take i m @ bs @ drop (i + length bs) m) else crash Write_Out_Of_Bounds)"

text \<open>
  \<open>memcpy_s(dest, destsz, src, count)\<close>: nothing is copied for a zero count; a destination size
  below the count is an invalid parameter. The size is a \<open>size_t\<close>, so a negative \<open>int\<close> that is
  passed for it is a very large size.
\<close>

definition memcpy_s :: "byte list \<Rightarrow> nat \<Rightarrow> 64 word \<Rightarrow> byte list \<Rightarrow> byte list run" where
  "memcpy_s m i destsz bs = (if bs = [] then ret m
     else if unat destsz < length bs then crash Invalid_Parameter else wr m i bs)"

primrec strlen_list :: "byte list \<Rightarrow> nat option" where
  "strlen_list [] = None"
| "strlen_list (b # bs) = (if b = 0 then Some 0 else map_option Suc (strlen_list bs))"

definition strlen :: "byte list \<Rightarrow> nat \<Rightarrow> nat run" where
  "strlen m i = (case strlen_list (drop i m) of None \<Rightarrow> crash Read_Out_Of_Bounds | Some n \<Rightarrow> ret n)"

primrec strchr_list :: "byte \<Rightarrow> byte list \<Rightarrow> nat option run" where
  "strchr_list c [] = crash Read_Out_Of_Bounds"
| "strchr_list c (b # bs) =
     (if b = c then ret (Some 0) else if b = 0 then ret None
      else bind_run (strchr_list c bs) (\<lambda>r. ret (map_option Suc r)))"

text \<open>\<open>strchr\<close> returns the offset of the first match, or none when the string ends before it.\<close>

definition strchr :: "byte list \<Rightarrow> nat \<Rightarrow> byte \<Rightarrow> nat option run" where
  "strchr m i c = bind_run (strchr_list c (drop i m)) (\<lambda>r. ret (map_option (\<lambda>k. i + k) r))"

text \<open>The C string that starts a region.\<close>

definition cstr :: "byte list \<Rightarrow> byte list" where
  "cstr m = takeWhile (\<lambda>b. b \<noteq> 0) m"

text \<open>
  Memory that the code has not initialised: any bytes, given by a parameter \<open>junk\<close>.
\<close>

definition fresh :: "(nat \<Rightarrow> byte) \<Rightarrow> nat \<Rightarrow> byte list" where
  "fresh junk n = map junk [0..<n]"

text \<open>\<open>strcpy_s\<close> on an array destination: its length is the destination size.\<close>

definition strcpy_s :: "byte list \<Rightarrow> byte list \<Rightarrow> nat \<Rightarrow> byte list run" where
  "strcpy_s d m i = bind_run (strlen m i) (\<lambda>n.
     if length d < n + 1 then crash Invalid_Parameter
     else ret (take n (drop i m) @ 0 # drop (n + 1) d))"

definition strcat_s :: "byte list \<Rightarrow> nat \<Rightarrow> nat \<Rightarrow> byte list \<Rightarrow> byte list run" where
  "strcat_s d i n0 s = bind_run (strlen d i) (\<lambda>n.
     if n0 < n + length s + 1 then crash Invalid_Parameter else wr d (i + n) (s @ [0]))"

fun dec_digits :: "nat \<Rightarrow> byte list" where
  "dec_digits n = (if n < 10 then [0x30 + of_nat n] else dec_digits (n div 10) @ [0x30 + of_nat (n mod 10)])"

declare dec_digits.simps [simp del]

definition itoa_s :: "nat \<Rightarrow> byte list \<Rightarrow> nat \<Rightarrow> nat \<Rightarrow> byte list run" where
  "itoa_s v d i n0 = (if n0 < length (dec_digits v) + 1 then crash Invalid_Parameter
     else wr d i (dec_digits v @ [0]))"

definition is_space :: "byte \<Rightarrow> bool" where
  "is_space b \<longleftrightarrow> b \<in> {9, 10, 11, 12, 13, 32}"

definition is_digit :: "byte \<Rightarrow> bool" where
  "is_digit b \<longleftrightarrow> 0x30 \<le> b \<and> b \<le> 0x39"

fun atoi_digits :: "int \<Rightarrow> byte list \<Rightarrow> int" where
  "atoi_digits acc [] = acc"
| "atoi_digits acc (b # bs) =
     (if is_digit b then atoi_digits (10 * acc + (uint b - 48)) bs else acc)"

definition clamp_int :: "int \<Rightarrow> int" where
  "clamp_int v = max (- (2 ^ 31)) (min (2 ^ 31 - 1) v)"

text \<open>\<open>atoi\<close>: white space, an optional sign, digits; out of range, the nearest \<open>int\<close>.\<close>

definition atoi :: "byte list \<Rightarrow> int" where
  "atoi s = (case dropWhile is_space s of [] \<Rightarrow> 0
     | b # bs \<Rightarrow> if b = 0x2D then clamp_int (- atoi_digits 0 bs)
                else if b = 0x2B then clamp_int (atoi_digits 0 bs)
                else clamp_int (atoi_digits 0 (b # bs)))"

subsection \<open>Facts about regions\<close>

lemma rd_in [mem_simps]: "i < length m \<Longrightarrow> rd m i = ret (m ! i)"
  by (simp add: rd_def)

lemma returns_rd [simp]: "returns (rd m i)"
  by (simp add: rd_def)

lemma rdn_in [mem_simps]: "i + n \<le> length m \<Longrightarrow> rdn m i n = ret (take n (drop i m))"
  by (simp add: rdn_def)

lemma wr_in [mem_simps]:
  "i + length bs \<le> length m \<Longrightarrow> wr m i bs = ret (take i m @ bs @ drop (i + length bs) m)"
  by (simp add: wr_def)

lemma wr_at [mem_simps]: "length pre = i \<Longrightarrow> length old = length bs \<Longrightarrow> wr (pre @ old @ post) i bs = ret (pre @ bs @ post)"
  by (auto simp: wr_def)

lemma wr_retD: "wr m i bs = ret m' \<Longrightarrow> length m' = length m \<and> i + length bs \<le> length m \<and>
    m' = take i m @ bs @ drop (i + length bs) m"
  by (auto simp: wr_def split: if_splits)

lemma memcpy_s_fits [mem_simps]:
  "length bs \<le> unat sz \<Longrightarrow> i + length bs \<le> length m \<Longrightarrow>
     memcpy_s m i sz bs = ret (take i m @ bs @ drop (i + length bs) m)"
  by (auto simp: memcpy_s_def wr_def)

lemma memcpy_s_retD: "memcpy_s m i sz bs = ret m' \<Longrightarrow> length m' = length m"
  by (auto simp: memcpy_s_def dest: wr_retD split: if_splits)

lemma strlen_list_eq:
  "strlen_list m = (if 0 \<in> set m then Some (length (cstr m)) else None)"
  by (induction m) (auto simp: cstr_def)

lemma strlen_at [mem_simps]: "0 \<notin> set s \<Longrightarrow> length pre = i \<Longrightarrow> strlen (pre @ s @ 0 # post) i = ret (length s)"
  by (auto simp: strlen_def strlen_list_eq cstr_def takeWhile_append)

lemma cstr_end: "0 \<in> set m \<Longrightarrow> length (cstr m) < length m \<and> m ! length (cstr m) = 0"
  by (induction m) (auto simp: cstr_def)

lemma cstr_split: "0 \<in> set m \<Longrightarrow> \<exists>post. m = cstr m @ 0 # post"
  by (induction m) (auto simp: cstr_def)

lemma cstr_no_zero [simp]: "0 \<notin> set (cstr m)"
  by (auto simp: cstr_def dest: set_takeWhileD)

lemma cstr_append_0: "0 \<notin> set s \<Longrightarrow> cstr (s @ 0 # t) = s"
  by (simp add: cstr_def takeWhile_append)

lemma length_fresh [simp]: "length (fresh junk n) = n"
  by (simp add: fresh_def)

lemma strlen_retD: "strlen m i = ret n \<Longrightarrow> i + n < length m \<and> m ! (i + n) = 0"
proof -
  assume a: "strlen m i = ret n"
  then have z: "0 \<in> set (drop i m)" and n: "n = length (cstr (drop i m))"
    by (auto simp: strlen_def strlen_list_eq split: if_splits)
  from cstr_end [OF z] show ?thesis by (auto simp: n)
qed

lemma strchr_list_found [mem_simps]:
  "0 \<notin> set s \<Longrightarrow> c \<notin> set s \<Longrightarrow> strchr_list c (s @ c # t) = ret (Some (length s))"
  by (induction s) auto

lemma strchr_list_end [mem_simps]:
  "0 \<notin> set s \<Longrightarrow> c \<notin> set s \<Longrightarrow> c \<noteq> 0 \<Longrightarrow> strchr_list c (s @ 0 # t) = ret None"
  by (induction s) auto

lemma strchr_list_retD: "strchr_list c m = ret (Some k) \<Longrightarrow> k < length m \<and> m ! k = c"
  by (induction m arbitrary: k) (auto split: if_splits elim!: bind_run_retE)

lemma strchr_list_NoneD: "strchr_list c m = ret None \<Longrightarrow> 0 \<in> set m"
  by (induction m) (auto split: if_splits elim!: bind_run_retE)

lemma strchr_list_0: "strchr_list 0 m = (if 0 \<in> set m then ret (Some (length (cstr m))) else crash Read_Out_Of_Bounds)"
  by (induction m) (auto simp: cstr_def)

subsection \<open>Decimal numbers\<close>

lemma dec_digits_nonempty [simp]: "dec_digits n \<noteq> []"
  by (subst dec_digits.simps) simp

lemma atoi_digits_append:
  "(\<forall>b\<in>set bs. is_digit b) \<Longrightarrow> atoi_digits acc (bs @ cs) = atoi_digits (atoi_digits acc bs) cs"
  by (induction acc bs rule: atoi_digits.induct) auto

lemma unat_digit: "d < 10 \<Longrightarrow> unat (0x30 + of_nat d :: byte) = 48 + d"
  by (simp add: unat_word_ariths unat_of_nat)

lemma is_digit_of_nat: "d < 10 \<Longrightarrow> is_digit (0x30 + of_nat d)"
  by (simp add: is_digit_def word_le_nat_alt unat_digit)

lemma uint_digit: "d < 10 \<Longrightarrow> uint (0x30 + of_nat d :: byte) = 48 + int d"
  by (simp add: uint_nat unat_digit)

lemma dec_digits_are_digits: "\<forall>b\<in>set (dec_digits n). is_digit b"
proof (induction n rule: dec_digits.induct)
  case (1 n)
  then show ?case
    by (cases "n < 10") (simp_all add: dec_digits.simps [of n] is_digit_of_nat)
qed

lemma atoi_digits_dec: "atoi_digits 0 (dec_digits n) = int n"
proof (induction n rule: dec_digits.induct)
  case (1 n)
  show ?case
  proof (cases "n < 10")
    case True
    then show ?thesis by (simp add: dec_digits.simps [of n] is_digit_of_nat uint_digit)
  next
    case False
    have "10 * int (n div 10) + int (n mod 10) = int n"
      by (metis mult_div_mod_eq of_nat_add of_nat_mult of_nat_numeral)
    with 1 False show ?thesis
      by (simp add: dec_digits.simps [of n] atoi_digits_append dec_digits_are_digits
          is_digit_of_nat uint_digit)
  qed
qed

lemma is_digit_facts: "is_digit b \<Longrightarrow> \<not> is_space b \<and> b \<noteq> 0x2D \<and> b \<noteq> 0x2B \<and> b \<noteq> 0 \<and> b \<noteq> dot"
  by (auto simp: is_digit_def is_space_def)

lemma atoi_dec_digits: "n < 2 ^ 31 \<Longrightarrow> atoi (dec_digits n) = int n"
proof -
  assume n: "n < 2 ^ 31"
  obtain b bs where d: "dec_digits n = b # bs"
    by (cases "dec_digits n") auto
  then have "is_digit b" using dec_digits_are_digits [of n] by simp
  then show ?thesis
    using n is_digit_facts [of b] atoi_digits_dec [of n] by (simp add: atoi_def d clamp_int_def)
qed

lemma length_dec_digits_byte:
  "n < 256 \<Longrightarrow> length (dec_digits n) = (if n > 99 then 3 else if n > 9 then 2 else 1)"
proof -
  assume n: "n < 256"
  consider "n < 10" | "10 \<le> n" "n < 100" | "100 \<le> n" by linarith
  then show ?thesis
  proof cases
    case 1
    then show ?thesis by (simp add: dec_digits.simps [of n])
  next
    case 2
    then have "n div 10 < 10" by linarith
    with 2 show ?thesis by (simp add: dec_digits.simps [of n] dec_digits.simps [of "n div 10"])
  next
    case 3
    with n have "\<not> n div 10 < 10" "n div 10 div 10 < 10" by linarith+
    with 3 show ?thesis
      by (simp add: dec_digits.simps [of n] dec_digits.simps [of "n div 10"]
          dec_digits.simps [of "n div 10 div 10"])
  qed
qed

section \<open>Fixed-width layouts\<close>

text \<open>
  A structure that the code copies to and from a buffer as raw bytes: \<open>enc\<close> is its representation,
  \<open>dec\<close> reads it back. \<open>patch\<close> overwrites a stretch of a region.
\<close>

definition patch :: "byte list \<Rightarrow> nat \<Rightarrow> byte list \<Rightarrow> byte list" where
  "patch m i bs = take i m @ bs @ drop (i + length bs) m"

lemma length_patch [simp]: "i + length bs \<le> length m \<Longrightarrow> length (patch m i bs) = length m"
  by (simp add: patch_def)

lemma take_drop_patch_same [simp]:
  "i + length bs \<le> length m \<Longrightarrow> n = length bs \<Longrightarrow> take n (drop i (patch m i bs)) = bs"
  by (simp add: patch_def)

lemma drop_patch_after [simp]:
  "i + length bs \<le> j \<Longrightarrow> i + length bs \<le> length m \<Longrightarrow> drop j (patch m i bs) = drop j m"
  by (simp add: patch_def)

lemma take_patch_before [simp]: "j \<le> i \<Longrightarrow> i \<le> length m \<Longrightarrow> take j (patch m i bs) = take j m"
  by (simp add: patch_def)

lemma patch_patch_same [simp]:
  "i + length bs \<le> length m \<Longrightarrow> length cs = length bs \<Longrightarrow> patch (patch m i bs) i cs = patch m i cs"
  by (simp add: patch_def)

lemma wr_patch [mem_simps]: "i + length bs \<le> length m \<Longrightarrow> wr m i bs = ret (patch m i bs)"
  by (simp add: wr_def patch_def)

lemma memcpy_s_patch [mem_simps]:
  "length bs \<le> unat sz \<Longrightarrow> i + length bs \<le> length m \<Longrightarrow> memcpy_s m i sz bs = ret (patch m i bs)"
  by (auto simp: memcpy_s_def wr_def patch_def)

locale fixed_layout =
  fixes width :: nat
    and enc :: "'a \<Rightarrow> byte list"
    and dec :: "byte list \<Rightarrow> 'a"
  assumes length_enc: "length (enc x) = width"
    and dec_enc: "dec (enc x) = x"
    and enc_dec: "length bs = width \<Longrightarrow> enc (dec bs) = bs"
begin

lemma enc_inject: "enc x = enc y \<longleftrightarrow> x = y"
  by (metis dec_enc)

lemma dec_patch: "i + width \<le> length m \<Longrightarrow> dec (take width (drop i (patch m i (enc x)))) = x"
  by (simp add: length_enc dec_enc)

lemma patch_dec: "i + width \<le> length m \<Longrightarrow> patch m i (enc (dec (take width (drop i m)))) = m"
  by (simp add: enc_dec patch_def) (metis append_take_drop_id drop_drop add.commute)

lemma patch_same_iff:
  assumes "i + width \<le> length m"
  shows "patch m i (enc x) = m \<longleftrightarrow> dec (take width (drop i m)) = x"
  using dec_patch [OF assms, of x] patch_dec [OF assms] by auto

end

end
