(* ===== verification/Message.thy ===== *)
theory Message
  imports Prelude
begin

text \<open>
  \<open>src/DNS/DNSMessage.h\<close>: the enumerations with their wire values and description tables, the
  bit-field layout of \<open>DNSHeader\<close>, and the packet as a header followed by its data.

  An enumeration of the source is a datatype of its enumerators with a value function; a field of
  enumeration type is a word of the underlying width, because the code casts any integer to it.

  The header is laid out as the compiler of this build does: bit-fields fill a 32-bit unit from its
  lowest bit, units are stored little-endian. Neither \<open>BYTE_ORDER\<close> nor \<open>BIG_ENDIAN\<close> is defined in
  the build, so the preprocessor compares 0 with 0 and takes the first of the two field orders.
\<close>

section \<open>Enumerations\<close>

definition MAX_DNS_PACKET_LENGTH :: nat where
  "MAX_DNS_PACKET_LENGTH = 512"

definition MAX_DNS_NAME_LENGTH :: nat where
  "MAX_DNS_NAME_LENGTH = 255"

datatype OPCODE = OPCODE_QUERY | OPCODE_IQUERY | OPCODE_STATUS

fun opcode_value :: "OPCODE \<Rightarrow> 32 word" where
  "opcode_value OPCODE_QUERY = 0"
| "opcode_value OPCODE_IQUERY = 1"
| "opcode_value OPCODE_STATUS = 2"

definition OPCODE_DESCR :: "string list" where
  "OPCODE_DESCR = [''QUERY'', ''IQUERY'', ''STATUS'']"

datatype RCODE = RCODE_NO_ERROR | RCODE_FORMAT_ERROR | RCODE_SERVER_FAILURE | RCODE_NAME_ERROR
  | RCODE_NOT_IMPLIMENTED | RCODE_REFUSED

fun rcode_value :: "RCODE \<Rightarrow> 32 word" where
  "rcode_value RCODE_NO_ERROR = 0"
| "rcode_value RCODE_FORMAT_ERROR = 1"
| "rcode_value RCODE_SERVER_FAILURE = 2"
| "rcode_value RCODE_NAME_ERROR = 3"
| "rcode_value RCODE_NOT_IMPLIMENTED = 4"
| "rcode_value RCODE_REFUSED = 5"

definition RCODE_DESCR :: "string list" where
  "RCODE_DESCR = [''NO_ERROR'', ''FORMAT_ERROR'', ''SERVER_FAILURE'', ''NAME_ERROR'',
    ''NOT_IMPLIMENTED'', ''REFUSED'']"

datatype RRTYPE = TYPE_A | TYPE_NS | TYPE_MD | TYPE_MF | TYPE_CNAME | TYPE_SOA | TYPE_MB
  | TYPE_MG | TYPE_MR | TYPE_NULL | TYPE_WKS | TYPE_PTR | TYPE_HINFO | TYPE_MINFO | TYPE_MX
  | TYPE_TXT | TYPE_AAAA | TYPE_SRV | QTYPE_AXFR | QTYPE_MAILB | QTYPE_MAILA | QTYPE_ALL

fun type_value :: "RRTYPE \<Rightarrow> 16 word" where
  "type_value TYPE_A = 1"
| "type_value TYPE_NS = 2"
| "type_value TYPE_MD = 3"
| "type_value TYPE_MF = 4"
| "type_value TYPE_CNAME = 5"
| "type_value TYPE_SOA = 6"
| "type_value TYPE_MB = 7"
| "type_value TYPE_MG = 8"
| "type_value TYPE_MR = 9"
| "type_value TYPE_NULL = 10"
| "type_value TYPE_WKS = 11"
| "type_value TYPE_PTR = 12"
| "type_value TYPE_HINFO = 13"
| "type_value TYPE_MINFO = 14"
| "type_value TYPE_MX = 15"
| "type_value TYPE_TXT = 16"
| "type_value TYPE_AAAA = 28"
| "type_value TYPE_SRV = 33"
| "type_value QTYPE_AXFR = 252"
| "type_value QTYPE_MAILB = 253"
| "type_value QTYPE_MAILA = 254"
| "type_value QTYPE_ALL = 255"

definition TYPE_DESCR :: "string list" where
  "TYPE_DESCR = [
    '''', ''A'', ''NS'', ''MD'', ''MF'', ''CNAME'', ''SOA'', ''MB'', ''MG'', ''MR'', ''NULL'',
    ''WKS'', ''PTR'', ''HINFO'', ''MINFO'', ''MX'', ''TXT'', '''', '''', '''', '''', '''', '''',
    '''', '''', '''', '''', '''', ''AAAA'', '''', '''', '''', '''', ''SRV'', '''', '''', '''',
    '''', '''', '''', '''', '''', '''', '''', '''', '''', '''', '''', '''', '''', '''', '''',
    '''', '''', '''', '''', '''', '''', '''', '''', '''', '''', '''', '''', '''', '''', '''',
    '''', '''', '''', '''', '''', '''', '''', '''', '''', '''', '''', '''', '''', '''', '''',
    '''', '''', '''', '''', '''', '''', '''', '''', '''', '''', '''', '''', '''', '''', '''',
    '''', '''', '''', '''', '''', '''', '''', '''', '''', '''', '''', '''', '''', '''', '''',
    '''', '''', '''', '''', '''', '''', '''', '''', '''', '''', '''', '''', '''', '''', '''',
    '''', '''', '''', '''', '''', '''', '''', '''', '''', '''', '''', '''', '''', '''', '''',
    '''', '''', '''', '''', '''', '''', '''', '''', '''', '''', '''', '''', '''', '''', '''',
    '''', '''', '''', '''', '''', '''', '''', '''', '''', '''', '''', '''', '''', '''', '''',
    '''', '''', '''', '''', '''', '''', '''', '''', '''', '''', '''', '''', '''', '''', '''',
    '''', '''', '''', '''', '''', '''', '''', '''', '''', '''', '''', '''', '''', '''', '''',
    '''', '''', '''', '''', '''', '''', '''', '''', '''', '''', '''', '''', '''', '''', '''',
    '''', '''', '''', '''', '''', '''', '''', '''', '''', '''', '''', '''', '''', '''', '''',
    '''', '''', '''', '''', '''', '''', '''', '''', '''', '''', '''', '''', '''', '''', '''',
    '''', '''', '''', '''', '''', ''AXFR'', ''MAILB'', ''MAILA'', ''ALL'']"

datatype RRCLASS = CLASS_IN | CLASS_CS | CLASS_CH | CLASS_HS | QCLASS_ALL

fun class_value :: "RRCLASS \<Rightarrow> 16 word" where
  "class_value CLASS_IN = 1"
| "class_value CLASS_CS = 2"
| "class_value CLASS_CH = 3"
| "class_value CLASS_HS = 4"
| "class_value QCLASS_ALL = 255"

definition CLASS_DESCR :: "string list" where
  "CLASS_DESCR = [
    '''', ''IN'', ''CS'', ''CH'', ''HS'', '''', '''', '''', '''', '''', '''', '''', '''', '''',
    '''', '''', '''', '''', '''', '''', '''', '''', '''', '''', '''', '''', '''', '''', '''',
    '''', '''', '''', '''', '''', '''', '''', '''', '''', '''', '''', '''', '''', '''', '''',
    '''', '''', '''', '''', '''', '''', '''', '''', '''', '''', '''', '''', '''', '''', '''',
    '''', '''', '''', '''', '''', '''', '''', '''', '''', '''', '''', '''', '''', '''', '''',
    '''', '''', '''', '''', '''', '''', '''', '''', '''', '''', '''', '''', '''', '''', '''',
    '''', '''', '''', '''', '''', '''', '''', '''', '''', '''', '''', '''', '''', '''', '''',
    '''', '''', '''', '''', '''', '''', '''', '''', '''', '''', '''', '''', '''', '''', '''',
    '''', '''', '''', '''', '''', '''', '''', '''', '''', '''', '''', '''', '''', '''', '''',
    '''', '''', '''', '''', '''', '''', '''', '''', '''', '''', '''', '''', '''', '''', '''',
    '''', '''', '''', '''', '''', '''', '''', '''', '''', '''', '''', '''', '''', '''', '''',
    '''', '''', '''', '''', '''', '''', '''', '''', '''', '''', '''', '''', '''', '''', '''',
    '''', '''', '''', '''', '''', '''', '''', '''', '''', '''', '''', '''', '''', '''', '''',
    '''', '''', '''', '''', '''', '''', '''', '''', '''', '''', '''', '''', '''', '''', '''',
    '''', '''', '''', '''', '''', '''', '''', '''', '''', '''', '''', '''', '''', '''', '''',
    '''', '''', '''', '''', '''', '''', '''', '''', '''', '''', '''', '''', '''', '''', '''',
    '''', '''', '''', '''', '''', '''', '''', '''', '''', '''', '''', '''', '''', '''', '''',
    '''', ''ALL'']"

section \<open>The header\<close>

record DNSHeader =
  h_id :: "16 word"
  h_rd :: "1 word"
  h_tc :: "1 word"
  h_aa :: "1 word"
  h_opcode :: "4 word"
  h_qr :: "1 word"
  h_rcode :: "4 word"
  h_z :: "3 word"
  h_ra :: "1 word"
  h_qdcount :: "16 word"
  h_ancount :: "16 word"
  h_nscount :: "16 word"
  h_arcount :: "16 word"

text \<open>The three storage units of the structure and the bytes of their little-endian storage.\<close>

definition header_unit0 :: "DNSHeader \<Rightarrow> 32 word" where
  "header_unit0 h = ucast (h_id h) OR push_bit 16 (ucast (h_rd h)) OR push_bit 17 (ucast (h_tc h)) OR
     push_bit 18 (ucast (h_aa h)) OR push_bit 19 (ucast (h_opcode h)) OR push_bit 23 (ucast (h_qr h)) OR
     push_bit 24 (ucast (h_rcode h)) OR push_bit 28 (ucast (h_z h)) OR push_bit 31 (ucast (h_ra h))"

definition unit_pair :: "16 word \<Rightarrow> 16 word \<Rightarrow> 32 word" where
  "unit_pair lo hi = ucast lo OR push_bit 16 (ucast hi)"

definition header_bytes :: "DNSHeader \<Rightarrow> byte list" where
  "header_bytes h = le32 (header_unit0 h) @ le32 (unit_pair (h_qdcount h) (h_ancount h)) @
     le32 (unit_pair (h_nscount h) (h_arcount h))"

definition header_of_units :: "32 word \<Rightarrow> 32 word \<Rightarrow> 32 word \<Rightarrow> DNSHeader" where
  "header_of_units u v w = \<lparr>
     h_id = ucast u, h_rd = ucast (drop_bit 16 u), h_tc = ucast (drop_bit 17 u),
     h_aa = ucast (drop_bit 18 u), h_opcode = ucast (drop_bit 19 u), h_qr = ucast (drop_bit 23 u),
     h_rcode = ucast (drop_bit 24 u), h_z = ucast (drop_bit 28 u), h_ra = ucast (drop_bit 31 u),
     h_qdcount = ucast v, h_ancount = ucast (drop_bit 16 v),
     h_nscount = ucast w, h_arcount = ucast (drop_bit 16 w)\<rparr>"

definition header_of_bytes :: "byte list \<Rightarrow> DNSHeader" where
  "header_of_bytes b = header_of_units (of_le32 (b ! 0) (b ! 1) (b ! 2) (b ! 3))
     (of_le32 (b ! 4) (b ! 5) (b ! 6) (b ! 7)) (of_le32 (b ! 8) (b ! 9) (b ! 10) (b ! 11))"

text \<open>\<open>sizeof(DNSHeader)\<close>, which is also the offset of \<open>data\<close> in \<open>DNSPacket\<close>.\<close>

definition sizeof_DNSHeader :: nat where
  "sizeof_DNSHeader = 12"

text \<open>
  A packet is a region of bytes; \<open>packet->header\<close> reads its first twelve bytes, an assignment to a
  field of \<open>packet->header\<close> rewrites them.
\<close>

definition packet_header :: "byte list \<Rightarrow> DNSHeader" where
  "packet_header p = header_of_bytes (take 12 (drop 0 p))"

definition set_header :: "byte list \<Rightarrow> DNSHeader \<Rightarrow> byte list" where
  "set_header p h = patch p 0 (header_bytes h)"

section \<open>Layout facts\<close>

lemma of_le32_le32 [simp]:
  "of_le32 (ucast w) (ucast (drop_bit 8 w)) (ucast (drop_bit 16 w)) (ucast (drop_bit 24 w)) = w"
proof (rule bit_word_eqI)
  fix n
  assume "n < LENGTH(32)"
  then show "bit (of_le32 (ucast w) (ucast (drop_bit 8 w)) (ucast (drop_bit 16 w)) (ucast (drop_bit 24 w))) n \<longleftrightarrow> bit w n"
    by (cases "24 \<le> n"; cases "16 \<le> n") (auto simp: of_le32_def bit_simps)
qed

lemma le32_of_le32 [simp]: "le32 (of_le32 a b c d) = [a, b, c, d]"
  by (auto simp: le32_def of_le32_def bit_simps bit_beyond intro!: bit_word_eqI)

lemma length_header_bytes [simp]: "length (header_bytes h) = 12"
  by (simp add: header_bytes_def le32_def)

lemma unit_pair_fields [simp]: "ucast (unit_pair a b) = a" "ucast (drop_bit 16 (unit_pair a b)) = b"
  by (auto simp: unit_pair_def bit_simps bit_beyond intro!: bit_word_eqI)

lemma unit_pair_of [simp]: "unit_pair (ucast u) (ucast (drop_bit 16 u)) = u"
  by (auto simp: unit_pair_def intro!: bit_word_eqI simp: bit_simps)

lemma header_unit0_fields [simp]:
  "ucast (header_unit0 h) = h_id h"
  "ucast (drop_bit 16 (header_unit0 h)) = h_rd h"
  "ucast (drop_bit 17 (header_unit0 h)) = h_tc h"
  "ucast (drop_bit 18 (header_unit0 h)) = h_aa h"
  "ucast (drop_bit 19 (header_unit0 h)) = h_opcode h"
  "ucast (drop_bit 23 (header_unit0 h)) = h_qr h"
  "ucast (drop_bit 24 (header_unit0 h)) = h_rcode h"
  "ucast (drop_bit 28 (header_unit0 h)) = h_z h"
  "ucast (drop_bit 31 (header_unit0 h)) = h_ra h"
  by (auto simp: header_unit0_def bit_simps bit_beyond intro!: bit_word_eqI)

lemma header_unit0_of_units [simp]: "header_unit0 (header_of_units u v w) = u"
proof (rule bit_word_eqI)
  fix n
  assume "n < LENGTH(32)"
  then consider "n < 16" | "n = 16" | "n = 17" | "n = 18" | "19 \<le> n" "n < 23" | "n = 23"
    | "24 \<le> n" "n < 28" | "28 \<le> n" "n < 31" | "n = 31"
    by fastforce
  then show "bit (header_unit0 (header_of_units u v w)) n \<longleftrightarrow> bit u n"
    by cases (auto simp: header_unit0_def header_of_units_def bit_simps bit_beyond)
qed

lemma header_of_bytes_header_bytes: "header_of_bytes (header_bytes h) = h"
  by (simp add: header_of_bytes_def header_bytes_def le32_def header_of_units_def)

lemma length_12_cases:
  assumes "length b = 12"
  shows "b = [b ! 0, b ! 1, b ! 2, b ! 3, b ! 4, b ! 5, b ! 6, b ! 7, b ! 8, b ! 9, b ! 10, b ! 11]"
  using assms by (auto simp: list_eq_iff_nth_eq less_Suc_eq numeral_eq_Suc)

lemma header_bytes_header_of_bytes:
  assumes "length b = 12"
  shows "header_bytes (header_of_bytes b) = b"
proof -
  have "header_bytes (header_of_units u v w) = le32 u @ le32 v @ le32 w" for u v w
    unfolding header_bytes_def by (simp add: header_of_units_def [THEN arg_cong [where f = h_qdcount]]
      header_of_units_def [THEN arg_cong [where f = h_ancount]]
      header_of_units_def [THEN arg_cong [where f = h_nscount]]
      header_of_units_def [THEN arg_cong [where f = h_arcount]])
  then show ?thesis
    using length_12_cases [OF assms] by (simp add: header_of_bytes_def)
qed

interpretation hdr: fixed_layout 12 header_bytes header_of_bytes
  by unfold_locales (simp_all add: header_of_bytes_header_bytes header_bytes_header_of_bytes)

text \<open>An assignment to a header field is read back, and leaves the data of the packet alone.\<close>

lemma packet_header_set [simp]: "12 \<le> length p \<Longrightarrow> packet_header (set_header p h) = h"
  unfolding packet_header_def set_header_def using hdr.dec_patch [of 0 p h] by simp

lemma set_header_same: "12 \<le> length p \<Longrightarrow> set_header p (packet_header p) = p"
  unfolding packet_header_def set_header_def using hdr.patch_dec [of 0 p] by simp

lemma length_set_header [simp]: "12 \<le> length p \<Longrightarrow> length (set_header p h) = length p"
  by (simp add: set_header_def)

lemma drop_set_header [simp]: "12 \<le> length p \<Longrightarrow> 12 \<le> n \<Longrightarrow> drop n (set_header p h) = drop n p"
  by (simp add: set_header_def)

text \<open>The two flag bytes.\<close>

lemma flags_hi:
  "(ucast (drop_bit 16 (header_unit0 h)) :: byte) = push_bit 7 (ucast (h_qr h)) OR
     push_bit 3 (ucast (h_opcode h)) OR push_bit 2 (ucast (h_aa h)) OR push_bit 1 (ucast (h_tc h)) OR
     ucast (h_rd h)"
  by (rule bit_word_eqI) (auto simp: header_unit0_def bit_simps bit_beyond simp del: push_bit_Suc)

lemma flags_lo:
  "(ucast (drop_bit 24 (header_unit0 h)) :: byte) =
     push_bit 7 (ucast (h_ra h)) OR push_bit 4 (ucast (h_z h)) OR ucast (h_rcode h)"
  by (auto simp: header_unit0_def bit_simps bit_beyond intro!: bit_word_eqI)

lemma unit0_id_bytes:
  "(ucast (header_unit0 h) :: byte) = ucast (h_id h)"
  "(ucast (drop_bit 8 (header_unit0 h)) :: byte) = ucast (drop_bit 8 (h_id h))"
  by (auto simp: header_unit0_def bit_simps bit_beyond intro!: bit_word_eqI)

lemma unit_pair_bytes: "le32 (unit_pair lo hi) = le16 lo @ le16 hi"
  by (auto simp: le32_def le16_def unit_pair_def bit_simps bit_beyond intro!: bit_word_eqI)

text \<open>The name of an enumerator, without the prefix of its enumeration.\<close>

fun type_name :: "RRTYPE \<Rightarrow> string" where
  "type_name TYPE_A = ''A''"
| "type_name TYPE_NS = ''NS''"
| "type_name TYPE_MD = ''MD''"
| "type_name TYPE_MF = ''MF''"
| "type_name TYPE_CNAME = ''CNAME''"
| "type_name TYPE_SOA = ''SOA''"
| "type_name TYPE_MB = ''MB''"
| "type_name TYPE_MG = ''MG''"
| "type_name TYPE_MR = ''MR''"
| "type_name TYPE_NULL = ''NULL''"
| "type_name TYPE_WKS = ''WKS''"
| "type_name TYPE_PTR = ''PTR''"
| "type_name TYPE_HINFO = ''HINFO''"
| "type_name TYPE_MINFO = ''MINFO''"
| "type_name TYPE_MX = ''MX''"
| "type_name TYPE_TXT = ''TXT''"
| "type_name TYPE_AAAA = ''AAAA''"
| "type_name TYPE_SRV = ''SRV''"
| "type_name QTYPE_AXFR = ''AXFR''"
| "type_name QTYPE_MAILB = ''MAILB''"
| "type_name QTYPE_MAILA = ''MAILA''"
| "type_name QTYPE_ALL = ''ALL''"

fun class_name :: "RRCLASS \<Rightarrow> string" where
  "class_name CLASS_IN = ''IN''"
| "class_name CLASS_CS = ''CS''"
| "class_name CLASS_CH = ''CH''"
| "class_name CLASS_HS = ''HS''"
| "class_name QCLASS_ALL = ''ALL''"

lemma TYPE_DESCR_entry: "TYPE_DESCR ! unat (type_value t) = type_name t"
  by (cases t) (simp_all add: TYPE_DESCR_def)

lemma CLASS_DESCR_entry: "CLASS_DESCR ! unat (class_value c) = class_name c"
  by (cases c) (simp_all add: CLASS_DESCR_def)

lemma length_DESCR: "length TYPE_DESCR = 256" "length CLASS_DESCR = 256"
  by (simp_all add: TYPE_DESCR_def CLASS_DESCR_def)

section \<open>Properties\<close>

text \<open>
  C19. The bit-field structure the server casts the receive buffer to has the wire layout of a DNS
  header (RFC 1035, section 4.1.1): the third byte holds QR, OPCODE, AA, TC and RD from its highest
  bit down, the fourth RA, Z and RCODE, and an assignment of \<open>htons(v)\<close> to one of the counts puts
  the two bytes of \<open>v\<close> most significant first.
\<close>

theorem header_wire_layout:
  "header_bytes (h\<lparr>h_id := htons i, h_qdcount := htons qd, h_ancount := htons an,
       h_nscount := htons ns, h_arcount := htons ar\<rparr>) =
     be16 i @
     [push_bit 7 (ucast (h_qr h)) OR push_bit 3 (ucast (h_opcode h)) OR push_bit 2 (ucast (h_aa h)) OR
        push_bit 1 (ucast (h_tc h)) OR ucast (h_rd h),
      push_bit 7 (ucast (h_ra h)) OR push_bit 4 (ucast (h_z h)) OR ucast (h_rcode h)] @
     be16 qd @ be16 an @ be16 ns @ be16 ar"
proof -
  have "header_bytes g = le16 (h_id g) @
      [ucast (drop_bit 16 (header_unit0 g)), ucast (drop_bit 24 (header_unit0 g))] @
      le16 (h_qdcount g) @ le16 (h_ancount g) @ le16 (h_nscount g) @ le16 (h_arcount g)" for g
    by (simp add: header_bytes_def unit_pair_bytes le32_def [of "header_unit0 g"] unit0_id_bytes
        le16_def [of "h_id g"])
  then show ?thesis
    by (simp add: flags_hi flags_lo le16_htons del: push_bit_Suc)
qed

text \<open>
  The description tables that the log statements index are 256 entries long and hold, at the
  value of every enumerator of \<open>TYPE\<close> and \<open>CLASS\<close>, the name of that enumerator.
\<close>

theorem descr_tables:
  "length TYPE_DESCR = 256 \<and> length CLASS_DESCR = 256 \<and>
   TYPE_DESCR ! unat (type_value t) = type_name t \<and> CLASS_DESCR ! unat (class_value c) = class_name c"
  by (simp add: TYPE_DESCR_entry CLASS_DESCR_entry length_DESCR)

end
