(* ===== verification/DNSUtil.thy ===== *)
theory DNSUtil
  imports Message
begin

text \<open>
  \<open>src/DNS/DNSUtil.cpp\<close>: the name codec. \<open>decodeName\<close> expands a possibly compressed wire name to
  dotted form, \<open>encodeName\<close> writes a dotted name as labels. Offsets stand for pointers:
  \<open>name\<close> is an offset into a region \<open>mem\<close>, \<open>packet\<close> the start of a region \<open>pm\<close>; following a
  compression pointer continues in \<open>pm\<close>. The decoder is a partial function: nothing in the source
  bounds the number of pointers it follows, and a loop that does not return is the value \<open>None\<close>.
\<close>

section \<open>Decoding\<close>

text \<open>
  \<open>uint16_t ptr = srcLoc[1] | srcLoc[0] << 8; ptr &= 0x3FFF\<close>. Both operands are (signed) \<open>char\<close>
  values promoted to \<open>int\<close>.
\<close>

definition pointer_value :: "byte \<Rightarrow> byte \<Rightarrow> 16 word" where
  "pointer_value b0 b1 = ucast (sext32 b1 OR push_bit 8 (sext32 b0)) AND 0x3FFF"

definition is_pointer :: "byte \<Rightarrow> bool" where
  "is_pointer b \<longleftrightarrow> sext32 b AND 0xC0 = 0xC0"

text \<open>\<open>outputBuffer[dstLoc] = c\<close>\<close>

definition put :: "byte list \<Rightarrow> nat \<Rightarrow> byte \<Rightarrow> byte list run" where
  "put ob i c = (if i < length ob then ret (ob[i := c]) else crash Write_Out_Of_Bounds)"

text \<open>
  The loop that writes the characters of a label: \<open>n\<close> characters are left, the next one is at
  \<open>src\<close>.
\<close>

fun write_characters :: "byte list \<Rightarrow> nat \<Rightarrow> nat \<Rightarrow> nat \<Rightarrow> byte list \<Rightarrow> nat \<Rightarrow> nat \<Rightarrow>
    (byte list \<times> nat \<times> nat) run" where
  "write_characters mem src 0 bufLen ob dstLoc bytesRead = ret (ob, dstLoc, bytesRead)"
| "write_characters mem src (Suc n) bufLen ob dstLoc bytesRead =
     (if dstLoc + 1 > bufLen then raise (Exception ''Buffer too small'')
      else bind_run (rd mem src) (\<lambda>c. bind_run (put ob dstLoc c) (\<lambda>ob'.
        write_characters mem (src + 1) n bufLen ob' (dstLoc + 1) (bytesRead + 1))))"

text \<open>
  One pass of the \<open>do ... while (count > 0)\<close> loop on a byte that is not a pointer: the label and
  its dot. The result is the new output state and \<open>count\<close>.
\<close>

definition decode_label :: "byte list \<Rightarrow> nat \<Rightarrow> byte \<Rightarrow> nat \<Rightarrow> byte list \<Rightarrow> nat \<Rightarrow> nat \<Rightarrow>
    (byte list \<times> nat \<times> nat \<times> nat) run" where
  "decode_label mem src b bufLen ob dstLoc bytesRead =
     (let count = sext32 b in
      if count > 63 then raise (Exception ''Label length longer than maximum of 63'')
      else bind_run (write_characters mem (src + 1) (unat count) bufLen ob dstLoc bytesRead)
        (\<lambda>(ob, dstLoc, bytesRead).
          if dstLoc + 1 > bufLen then raise (Exception ''Buffer too small'')
          else bind_run (put ob dstLoc dot) (\<lambda>ob.
            ret (ob, dstLoc + 1, bytesRead + 1, unat count))))"

text \<open>The closing assignment \<open>outputBuffer[dstLoc - 2] = '\0'\<close>.\<close>

definition close_string :: "byte list \<Rightarrow> nat \<Rightarrow> byte list run" where
  "close_string ob dstLoc = (if dstLoc < 2 then crash Write_Out_Of_Bounds else put ob (dstLoc - 2) 0)"

partial_function (option) decode_loop :: "byte list \<Rightarrow> nat \<Rightarrow> byte list \<Rightarrow> nat \<Rightarrow> byte list \<Rightarrow> nat \<Rightarrow> nat \<Rightarrow>
    (error + nat \<times> byte list) option" where
  "decode_loop pm bufLen mem src ob dstLoc bytesRead =
     (if length mem \<le> src then crash Read_Out_Of_Bounds
      else if is_pointer (mem ! src) then
        (if length mem \<le> src + 1 then crash Read_Out_Of_Bounds
         else decode_loop pm bufLen pm (unat (pointer_value (mem ! src) (mem ! (src + 1)))) ob dstLoc bytesRead)
      else (case decode_label mem src (mem ! src) bufLen ob dstLoc bytesRead of
          None \<Rightarrow> None
        | Some (Inl e) \<Rightarrow> Some (Inl e)
        | Some (Inr (ob, dstLoc, bytesRead, count)) \<Rightarrow>
            if count > 0
            then decode_loop pm bufLen mem (src + (count + 1)) ob dstLoc bytesRead
            else bind_run (close_string ob dstLoc) (\<lambda>ob. ret (bytesRead, ob))))"

declare decode_loop.simps [code]

text \<open>\<open>size_t DNSUtil::decodeName(char *name, DNSPacket *packet, char *outputBuffer, size_t bufLen)\<close>\<close>

definition decodeName :: "byte list \<Rightarrow> nat \<Rightarrow> byte list \<Rightarrow> byte list \<Rightarrow> nat \<Rightarrow> (nat \<times> byte list) run" where
  "decodeName mem name pm outputBuffer bufLen =
     bind_run (strlen mem name) (\<lambda>qnameLength.
       if qnameLength > 255 then raise (Exception ''QNAME length longer than maximum of 255'')
       else decode_loop pm bufLen mem name outputBuffer 0 0)"

section \<open>Encoding\<close>

text \<open>
  The \<open>while (read)\<close> loop: \<open>lastPtr\<close> is an offset into the name's region, \<open>out\<close> the next output
  offset, \<open>totalLen\<close> as in the source. \<open>len\<close> is a \<open>uint8_t\<close>, so the length of a label is reduced
  modulo 256 before it is used.
\<close>

function encode_loop :: "byte list \<Rightarrow> nat \<Rightarrow> 64 word \<Rightarrow> byte list \<Rightarrow> nat \<Rightarrow> nat \<Rightarrow> (byte list \<times> nat) run" where
  "encode_loop nm lastPtr bufLen ob out totalLen =
     bind_run (strchr nm lastPtr dot) (\<lambda>found.
     bind_run (case found of Some p \<Rightarrow> ret p
        | None \<Rightarrow> bind_run (strlen nm lastPtr) (\<lambda>n. ret (lastPtr + n))) (\<lambda>ptr.
     let len = (ptr - lastPtr) mod 256 in
     bind_run (wr ob out [of_nat len]) (\<lambda>ob.
     bind_run (rdn nm lastPtr len) (\<lambda>label.
     bind_run (memcpy_s ob (out + 1) bufLen label) (\<lambda>ob.
       if found = None then ret (ob, totalLen + (len + 1))
       else encode_loop nm (lastPtr + (len + 1)) bufLen ob (out + 1 + len) (totalLen + (len + 1)))))))"
  by pat_completeness auto
termination
proof (relation "measure (\<lambda>(nm, lastPtr, bufLen, ob, out, totalLen). length nm - lastPtr)", goal_cases)
  case 1
  show ?case by simp
next
  case (2 nm lastPtr bufLen ob out totalLen found ptr len ob1 label ob2)
  then have "strchr_list dot (drop lastPtr nm) \<noteq> crash Read_Out_Of_Bounds"
    by (auto simp: strchr_def)
  then have "lastPtr < length nm"
    by (metis drop_all not_le strchr_list.simps(1))
  then show ?case by simp
qed

declare encode_loop.simps [simp del]

text \<open>\<open>size_t DNSUtil::encodeName(char *name, char *outputBuffer, size_t bufLen)\<close>, writing at \<open>out\<close>\<close>

definition encodeName :: "byte list \<Rightarrow> byte list \<Rightarrow> nat \<Rightarrow> 64 word \<Rightarrow> (nat \<times> byte list) run" where
  "encodeName nm ob out bufLen =
     bind_run (encode_loop nm 0 bufLen ob out 0) (\<lambda>(ob, totalLen).
       bind_run (wr ob (out + totalLen) [0]) (\<lambda>ob. ret (totalLen + 1, ob)))"

section \<open>What the decoder accepts\<close>

text \<open>
  \<open>expands pm mem src ls\<close>: the bytes at \<open>src\<close> are a name with the labels \<open>ls\<close>, where a pointer
  continues the name at the offset the code computes for it.
\<close>

inductive expands :: "byte list \<Rightarrow> byte list \<Rightarrow> nat \<Rightarrow> byte list list \<Rightarrow> bool" for pm where
  name_end: "src < length mem \<Longrightarrow> mem ! src = 0 \<Longrightarrow> expands pm mem src []"
| name_label: "src < length mem \<Longrightarrow> mem ! src \<noteq> 0 \<Longrightarrow> mem ! src \<le> 63 \<Longrightarrow>
    src + 1 + unat (mem ! src) \<le> length mem \<Longrightarrow>
    expands pm mem (src + (unat (mem ! src) + 1)) ls \<Longrightarrow>
    expands pm mem src (take (unat (mem ! src)) (drop (src + 1) mem) # ls)"
| name_pointer: "src + 1 < length mem \<Longrightarrow> 0xC0 \<le> mem ! src \<Longrightarrow>
    expands pm pm (unat (pointer_value (mem ! src) (mem ! (src + 1)))) ls \<Longrightarrow>
    expands pm mem src ls"

text \<open>Every pointer of the packet leads to an earlier offset, as RFC 1035 has it.\<close>

definition backward_pointers :: "byte list \<Rightarrow> bool" where
  "backward_pointers pm \<longleftrightarrow> (\<forall>i<length pm - 1. 0xC0 \<le> pm ! i \<longrightarrow>
     unat (pointer_value (pm ! i) (pm ! (i + 1))) < i)"

definition text_of :: "byte list list \<Rightarrow> byte list" where
  "text_of ls = concat (map (\<lambda>l. l @ [dot]) ls)"

text \<open>The state after the labels \<open>ls\<close> and the closing dot have been written behind \<open>w\<close>.\<close>

definition finished :: "byte list \<Rightarrow> byte list list \<Rightarrow> byte list \<Rightarrow> byte list" where
  "finished w ls r = (w @ text_of ls @ dot # drop (length (text_of ls) + 1) r)[length w + length (text_of ls) - 1 := 0]"

text \<open>Labels as the wire carries them, and the labels both directions handle.\<close>

definition wire :: "byte list list \<Rightarrow> byte list" where
  "wire ls = concat (map (\<lambda>l. of_nat (length l) # l) ls)"

text \<open>The dotted form of a list of labels.\<close>

fun dotted :: "byte list list \<Rightarrow> byte list" where
  "dotted [] = []"
| "dotted [l] = l"
| "dotted (l # ls) = l @ dot # dotted ls"

text \<open>The labels of a dotted name.\<close>

fun split_dots :: "byte list \<Rightarrow> byte list list" where
  "split_dots [] = [[]]"
| "split_dots (b # bs) = (if b = dot then [] # split_dots bs
     else (case split_dots bs of [] \<Rightarrow> [[b]] | l # ls \<Rightarrow> (b # l) # ls))"

definition plain_label :: "byte list \<Rightarrow> bool" where
  "plain_label l \<longleftrightarrow> dot \<notin> set l \<and> 0 \<notin> set l \<and> length l < 256"

definition wire_label :: "byte list \<Rightarrow> bool" where
  "wire_label l \<longleftrightarrow> l \<noteq> [] \<and> length l \<le> 63"

text \<open>Names that both directions of the codec handle.\<close>

definition good_name :: "byte list \<Rightarrow> bool" where
  "good_name s \<longleftrightarrow> 0 \<notin> set s \<and> length s \<le> 253 \<and> (\<forall>l\<in>set (split_dots s). wire_label l)"

lemma text_of_simps [simp]: "text_of [] = []" "text_of (l # ls) = l @ dot # text_of ls"
  by (simp_all add: text_of_def)

lemma text_of_append: "text_of (as @ bs) = text_of as @ text_of bs"
  by (simp add: text_of_def)

subsection \<open>Bytes that start a label\<close>

lemma is_pointer_iff: "is_pointer b \<longleftrightarrow> 0xC0 \<le> b"
proof -
  have m: "(0xC0 :: 32 word) = push_bit 6 (mask 2)" by (simp add: mask_eq_exp_minus_1 push_bit_eq_mult)
  have r: "6 \<le> n \<and> n - 6 < 2 \<longleftrightarrow> n = 6 \<or> n = 7" for n :: nat by linarith
  have "sext32 b AND 0xC0 = 0xC0 \<longleftrightarrow> bit b 6 \<and> bit b 7"
  proof
    assume e: "sext32 b AND 0xC0 = 0xC0"
    have "bit (sext32 b AND 0xC0) 6" "bit (sext32 b AND 0xC0) 7" unfolding e by simp_all
    then show "bit b 6 \<and> bit b 7" by (simp add: bit_and_iff bit_sext32)
  next
    assume b: "bit b 6 \<and> bit b 7"
    show "sext32 b AND 0xC0 = 0xC0"
    proof (rule bit_word_eqI)
      fix n
      assume "n < LENGTH(32)"
      have "bit (0xC0 :: 32 word) n \<longleftrightarrow> n < 32 \<and> (n = 6 \<or> n = 7)"
        unfolding m bit_push_bit_iff bit_mask_iff using r [of n] by auto
      with b show "bit (sext32 b AND 0xC0) n \<longleftrightarrow> bit (0xC0 :: 32 word) n"
        by (auto simp: bit_and_iff bit_sext32)
    qed
  qed
  then show ?thesis by (simp add: is_pointer_def byte_bits_6_7)
qed

lemma count_too_long_iff: "63 < sext32 b \<longleftrightarrow> 63 < b"
proof (cases "b < 0x80")
  case True
  then show ?thesis by (simp add: sext32_low word_less_nat_alt)
next
  case False
  then have "0x80 \<le> b" by simp
  moreover from this have "63 < b" by (simp add: word_less_nat_alt word_le_nat_alt)
  ultimately show ?thesis by (simp add: sext32_high)
qed

lemma count_value: "b \<le> 63 \<Longrightarrow> unat (sext32 b) = unat b"
  by (subst sext32_low) (simp_all add: word_le_nat_alt word_less_nat_alt)

text \<open>
  The pointer the code computes: the fourteen bits of RFC 1035 where the second byte is below 128,
  and an offset of at least \<open>0x3F80\<close> where the sign extension of the second byte covers the first.
\<close>

lemma pointer_value_low:
  "b1 < 0x80 \<Longrightarrow> pointer_value b0 b1 = push_bit 8 (ucast (b0 AND 0x3F)) OR ucast b1"
proof -
  assume b: "b1 < 0x80"
  have m: "(0x3FFF :: 16 word) = mask 14" "(0x3F :: byte) = mask 6" by (simp_all add: mask_eq_exp_minus_1)
  have "bit b1 n \<Longrightarrow> n < 14" for n using bit_imp_le_length [of b1 n] by simp
  with b show ?thesis
    unfolding pointer_value_def m
    by (intro bit_word_eqI) (auto simp: bit_simps bit_sext32 dest: bit_imp_le_length)
qed

lemma pointer_value_high:
  "0x80 \<le> b1 \<Longrightarrow> pointer_value b0 b1 = 0x3F00 OR ucast b1"
proof -
  assume b: "0x80 \<le> b1"
  have m: "(0x3FFF :: 16 word) = mask 14" "(0x3F00 :: 16 word) = push_bit 8 (mask 6)"
    by (simp_all add: mask_eq_exp_minus_1 push_bit_eq_mult)
  from b show ?thesis
    unfolding pointer_value_def m
    by (intro bit_word_eqI) (auto simp: bit_simps bit_sext32 dest: bit_imp_le_length)
qed

subsection \<open>The decoder on a well-formed name\<close>

lemma put_at [mem_simps]: "put (w @ c # r) (length w) b = ret (w @ b # r)"
  by (simp add: put_def)

lemma write_characters_fits:
  assumes "src + n \<le> length mem" and "length w + n \<le> bufLen" and "n \<le> length r"
  shows "write_characters mem src n bufLen (w @ r) (length w) k =
    ret (w @ take n (drop src mem) @ drop n r, length w + n, k + n)"
  using assms
proof (induction n arbitrary: src w r k)
  case 0
  then show ?case by simp
next
  case (Suc n)
  then obtain c r' where r: "r = c # r'" by (cases r) auto
  have "write_characters mem (src + 1) n bufLen ((w @ [mem ! src]) @ r') (length (w @ [mem ! src])) (k + 1) =
      ret ((w @ [mem ! src]) @ take n (drop (src + 1) mem) @ drop n r', length (w @ [mem ! src]) + n, k + 1 + n)"
    using Suc.prems r by (intro Suc.IH) simp_all
  moreover have "take (Suc n) (drop src mem) = mem ! src # take n (drop (src + 1) mem)"
    using Suc.prems by (metis Cons_nth_drop_Suc Suc_eq_plus1 Suc_le_lessD add_Suc_right le_add1 order_le_less_trans take_Suc_Cons)
  ultimately show ?case using Suc.prems r by (simp add: mem_simps)
qed

lemma write_characters_full:
  assumes "bufLen < length w + n" and "length w \<le> bufLen" and "src + n \<le> length mem" and "bufLen \<le> length w + length r"
  shows "write_characters mem src n bufLen (w @ r) (length w) k = raise (Exception ''Buffer too small'')"
  using assms
proof (induction n arbitrary: src w r k)
  case 0
  then show ?case by simp
next
  case (Suc n)
  show ?case
  proof (cases "length w = bufLen")
    case False
    with Suc.prems obtain c r' where r: "r = c # r'" by (cases r) auto
    have "write_characters mem (src + 1) n bufLen ((w @ [mem ! src]) @ r') (length (w @ [mem ! src])) (k + 1) =
        raise (Exception ''Buffer too small'')"
      using Suc.prems r False by (intro Suc.IH) simp_all
    with r False Suc.prems show ?thesis by (simp add: mem_simps)
  qed simp
qed

lemma decode_label_fits:
  assumes "b \<le> 63" and "src + 1 + unat b \<le> length mem"
    and "length w + unat b + 1 \<le> bufLen" and "unat b < length r"
  shows "decode_label mem src b bufLen (w @ r) (length w) k =
    ret (w @ take (unat b) (drop (src + 1) mem) @ dot # drop (unat b + 1) r,
         length w + unat b + 1, k + unat b + 1, unat b)"
proof -
  let ?l = "take (unat b) (drop (src + 1) mem)"
  have len: "length ?l = unat b" using assms by simp
  obtain c r' where d: "drop (unat b) r = c # r'"
    using assms(4) by (cases "drop (unat b) r") auto
  then have r': "r' = drop (unat b + 1) r"
    by (metis Suc_eq_plus1 drop_Suc list.sel(3) tl_drop)
  have "put ((w @ ?l) @ drop (unat b) r) (length (w @ ?l)) dot = ret ((w @ ?l) @ dot # r')"
    unfolding d by (rule put_at)
  then have p: "put (w @ ?l @ drop (unat b) r) (length w + unat b) dot = ret (w @ ?l @ dot # r')"
    using len by simp
  from assms(1) have "\<not> 63 < sext32 b" by (simp add: count_too_long_iff)
  moreover have "write_characters mem (src + 1) (unat (sext32 b)) bufLen (w @ r) (length w) k =
      ret (w @ ?l @ drop (unat b) r, length w + unat b, k + unat b)"
    unfolding count_value [OF assms(1)]
    using assms by (intro write_characters_fits) simp_all
  ultimately show ?thesis
    using assms(3) p r' by (simp add: decode_label_def count_value [OF assms(1)])
qed

lemma decode_label_full:
  assumes "b \<le> 63" and "src + 1 + unat b \<le> length mem" and "length w \<le> bufLen"
    and "bufLen < length w + unat b + 1" and "bufLen \<le> length w + length r"
  shows "decode_label mem src b bufLen (w @ r) (length w) k = raise (Exception ''Buffer too small'')"
proof -
  from assms(1) have c: "\<not> 63 < sext32 b" by (simp add: count_too_long_iff)
  show ?thesis
  proof (cases "bufLen < length w + unat b")
    case True
    then show ?thesis
      using assms c by (simp add: decode_label_def count_value write_characters_full)
  next
    case False
    then show ?thesis
      using assms c by (simp add: decode_label_def count_value write_characters_fits)
  qed
qed

lemma decode_label_long:
  "63 < b \<Longrightarrow> decode_label mem src b bufLen ob d k = raise (Exception ''Label length longer than maximum of 63'')"
  by (simp add: decode_label_def count_too_long_iff)

lemma decode_loop_unfold:
  "decode_loop pm bufLen mem src ob dstLoc bytesRead =
     (if length mem \<le> src then crash Read_Out_Of_Bounds
      else if is_pointer (mem ! src) then
        (if length mem \<le> src + 1 then crash Read_Out_Of_Bounds
         else decode_loop pm bufLen pm (unat (pointer_value (mem ! src) (mem ! (src + 1)))) ob dstLoc bytesRead)
      else bind_run (decode_label mem src (mem ! src) bufLen ob dstLoc bytesRead) (\<lambda>(ob, dstLoc, bytesRead, count).
            if count > 0
            then decode_loop pm bufLen mem (src + (count + 1)) ob dstLoc bytesRead
            else bind_run (close_string ob dstLoc) (\<lambda>ob. ret (bytesRead, ob))))"
  by (subst decode_loop.simps) (simp add: bind_run_def split: option.splits sum.splits)

lemma decode_loop_expands:
  assumes "expands pm mem src ls" and "length w \<le> bufLen" and "bufLen \<le> length w + length r"
    and "0 < length w + length (text_of ls)"
  shows "decode_loop pm bufLen mem src (w @ r) (length w) k =
    (if length w + length (text_of ls) + 1 \<le> bufLen
     then ret (k + length (text_of ls) + 1, finished w ls r)
     else raise (Exception ''Buffer too small''))"
  using assms
proof (induction arbitrary: w r k rule: expands.induct)
  case (name_end src mem)
  show ?case
  proof (cases "length w < bufLen")
    case True
    with name_end have "0 < length r" by linarith
    with name_end True decode_label_fits [of 0 src mem w bufLen r k] show ?thesis
      by (subst decode_loop_unfold) (simp add: is_pointer_iff close_string_def put_def finished_def)
  next
    case False
    with name_end decode_label_full [of 0 src mem w bufLen r k] show ?thesis
      by (subst decode_loop_unfold) (simp add: is_pointer_iff)
  qed
next
  case (name_label src mem ls)
  let ?b = "mem ! src" and ?l = "take (unat (mem ! src)) (drop (src + 1) mem)"
  have np: "\<not> is_pointer ?b" using name_label.hyps by (auto simp: is_pointer_iff word_le_nat_alt)
  have c: "0 < unat ?b" using name_label.hyps by (simp add: word_neq_0_conv unat_gt_0)
  have len: "length ?l = unat ?b" using name_label.hyps by simp
  show ?case
  proof (cases "length w + unat ?b + 1 \<le> bufLen")
    case True
    let ?w = "w @ ?l @ [dot]" and ?r = "drop (unat ?b + 1) r"
    from True name_label.prems have "unat ?b < length r" by simp
    with True name_label.hyps have d: "decode_label mem src ?b bufLen (w @ r) (length w) k =
        ret (?w @ ?r, length ?w, k + unat ?b + 1, unat ?b)"
      using decode_label_fits [of ?b src mem w bufLen r k] len by simp
    have "decode_loop pm bufLen mem (src + (unat ?b + 1)) (?w @ ?r) (length ?w) (k + unat ?b + 1) =
        (if length ?w + length (text_of ls) + 1 \<le> bufLen
         then ret (k + unat ?b + 1 + length (text_of ls) + 1, finished ?w ls ?r)
         else raise (Exception ''Buffer too small''))"
      using name_label.prems True len by (intro name_label.IH) simp_all
    moreover have "finished ?w ls ?r = finished w (?l # ls) r"
      using len by (simp add: finished_def add.commute add.left_commute)
    ultimately show ?thesis
      using name_label.hyps np c d len
      by (subst decode_loop_unfold) (simp add: add.commute add.left_commute)
  next
    case False
    with name_label np c decode_label_full [of ?b src mem w bufLen r k] len show ?thesis
      by (subst decode_loop_unfold) simp
  qed
next
  case (name_pointer src mem ls)
  then show ?case
    by (subst decode_loop_unfold) (simp add: is_pointer_iff)
qed

subsection \<open>Runs of the decoder\<close>

lemma write_characters_retD:
  "write_characters mem src n bufLen ob d k = ret (ob', d', k') \<Longrightarrow>
   (src + n \<le> length mem \<or> n = 0) \<and> length ob' = length ob \<and> d' = d + n"
proof (induction n arbitrary: src ob d k)
  case (Suc n)
  then have "src < length mem"
    and w: "write_characters mem (src + 1) n bufLen (ob[d := mem ! src]) (d + 1) (k + 1) = ret (ob', d', k')"
    by (auto simp: rd_def put_def split: if_splits)
  with Suc.IH [OF w] show ?case by auto
qed simp

lemma decode_label_retD:
  assumes "decode_label mem src b bufLen ob d k = ret (ob', d', k', c)"
  shows "b \<le> 63 \<and> c = unat b \<and> (src + 1 + unat b \<le> length mem \<or> b = 0) \<and> length ob' = length ob \<and>
    d' = d + unat b + 1 \<and> d' \<le> bufLen"
proof -
  from assms have b: "b \<le> 63"
    by (auto simp: decode_label_def Let_def count_too_long_iff split: if_splits)
  from b assms obtain ob1 d1 k1
    where w: "write_characters mem (src + 1) (unat b) bufLen ob d k = ret (ob1, d1, k1)"
      and f: "\<not> bufLen < d1 + 1" and p: "put ob1 d1 dot = ret ob'" and c: "d' = d1 + 1" "c = unat b"
    by (auto simp: decode_label_def Let_def count_too_long_iff count_value elim!: bind_run_retE split: if_splits)
  from p have "length ob' = length ob1" by (auto simp: put_def split: if_splits)
  with write_characters_retD [OF w] b f c show ?thesis by (simp add: unat_eq_0)
qed

text \<open>Induction over a run of the loop that returns.\<close>

lemma decode_loop_induct [consumes 1, case_names read_error pointer label_error last label]:
  assumes run: "decode_loop pm bufLen mem src ob d k = Some y"
    and oob: "\<And>mem src ob d k. length mem \<le> src + 1 \<Longrightarrow> P mem src ob d k (Inl (Crash Read_Out_Of_Bounds))"
    and ptr: "\<And>mem src ob d k y. src + 1 < length mem \<Longrightarrow> 0xC0 \<le> mem ! src \<Longrightarrow>
      P pm (unat (pointer_value (mem ! src) (mem ! (src + 1)))) ob d k y \<Longrightarrow> P mem src ob d k y"
    and err: "\<And>mem src ob d k e. src < length mem \<Longrightarrow> \<not> 0xC0 \<le> mem ! src \<Longrightarrow>
      decode_label mem src (mem ! src) bufLen ob d k = raise e \<Longrightarrow> P mem src ob d k (Inl e)"
    and last: "\<And>mem src ob d k ob' d' k' y. src < length mem \<Longrightarrow> mem ! src = 0 \<Longrightarrow>
      decode_label mem src (mem ! src) bufLen ob d k = ret (ob', d', k', 0) \<Longrightarrow>
      bind_run (close_string ob' d') (\<lambda>ob. ret (k', ob)) = Some y \<Longrightarrow> P mem src ob d k y"
    and label: "\<And>mem src ob d k ob' d' k' y. src < length mem \<Longrightarrow> mem ! src \<noteq> 0 \<Longrightarrow> mem ! src \<le> 63 \<Longrightarrow>
      decode_label mem src (mem ! src) bufLen ob d k = ret (ob', d', k', unat (mem ! src)) \<Longrightarrow>
      P mem (src + (unat (mem ! src) + 1)) ob' d' k' y \<Longrightarrow> P mem src ob d k y"
  shows "P mem src ob d k y"
proof -
  let ?Q = "\<lambda>qm b mem src ob d k y. qm = pm \<longrightarrow> b = bufLen \<longrightarrow> P mem src ob d k y"
  have "?Q pm bufLen mem src ob d k y"
  proof (rule decode_loop.raw_induct [where P = ?Q, OF _ run], intro impI)
    fix f qm b mem src ob d k y
    assume IH: "\<And>qm b mem src ob d k y. f qm b mem src ob d k = Some y \<Longrightarrow> ?Q qm b mem src ob d k y"
      and eq: "(if length mem \<le> src then crash Read_Out_Of_Bounds
        else if is_pointer (mem ! src) then
          (if length mem \<le> src + 1 then crash Read_Out_Of_Bounds
           else f qm b qm (unat (pointer_value (mem ! src) (mem ! (src + 1)))) ob d k)
        else (case decode_label mem src (mem ! src) b ob d k of
            None \<Rightarrow> None
          | Some (Inl e) \<Rightarrow> Some (Inl e)
          | Some (Inr (ob, d, k, count)) \<Rightarrow>
              if count > 0 then f qm b mem (src + (count + 1)) ob d k
              else bind_run (close_string ob d) (\<lambda>ob. ret (k, ob)))) = Some y"
      and eqs: "qm = pm" "b = bufLen"
    show "P mem src ob d k y"
    proof (cases "length mem \<le> src")
      case True
      with eq oob show ?thesis by (simp add: raise_def)
    next
      case in1: False
      show ?thesis
      proof (cases "is_pointer (mem ! src)")
        case True
        show ?thesis
        proof (cases "length mem \<le> src + 1")
          case True
          with \<open>is_pointer (mem ! src)\<close> in1 eq oob show ?thesis by (simp add: raise_def)
        next
          case False
          with True in1 eq eqs have "f pm bufLen pm (unat (pointer_value (mem ! src) (mem ! (src + 1)))) ob d k = Some y"
            by simp
          from IH [OF this] show ?thesis
            using False True eqs ptr [of src mem ob d k y] by (simp add: is_pointer_iff)
        qed
      next
        case np: False
        show ?thesis
        proof (cases "decode_label mem src (mem ! src) bufLen ob d k" rule: run_cases)
          case None
          with eq eqs in1 np show ?thesis by simp
        next
          case (raise e)
          with eq eqs in1 np have "y = Inl e" by (simp add: raise_def)
          with raise in1 np err show ?thesis by (simp add: is_pointer_iff)
        next
          case (ret x)
          obtain ob' d' k' c where x: "x = (ob', d', k', c)" by (cases x)
          from decode_label_retD [OF ret [unfolded x]] have c: "c = unat (mem ! src)" "mem ! src \<le> 63" by auto
          show ?thesis
          proof (cases "mem ! src = 0")
            case True
            with eq eqs in1 np ret x c show ?thesis
              by (intro last [of src mem ob d k ob' d' k']) (simp_all add: ret_def)
          next
            case False
            with c have "0 < c" by (simp add: unat_gt_0)
            with eq eqs in1 np ret x c have "f pm bufLen mem (src + (unat (mem ! src) + 1)) ob' d' k' = Some y"
              by (simp add: ret_def)
            from IH [OF this] show ?thesis
              using False in1 ret x c eqs label [of src mem ob d k ob' d' k' y] by simp
          qed
        qed
      qed
    qed
  qed
  then show ?thesis by simp
qed

lemma decode_loop_sound:
  assumes "decode_loop pm bufLen mem src ob d k = ret (n, out)"
  shows "\<exists>ls. expands pm mem src ls"
proof -
  have "(\<exists>n out. y = Inr (n, out)) \<longrightarrow> (\<exists>ls. expands pm mem src ls)"
    if "decode_loop pm bufLen mem src ob d k = Some y" for y
    using that
  proof (induction rule: decode_loop_induct)
    case (last mem src ob d k ob' d' k' y)
    then show ?case by (blast intro: expands.name_end)
  next
    case (label mem src ob d k ob' d' k' y)
    from decode_label_retD [OF label(4)] label(2) have "src + 1 + unat (mem ! src) \<le> length mem" by simp
    with label show ?case by (blast intro: expands.name_label)
  next
    case (pointer mem src ob d k y)
    then show ?case by (blast intro: expands.name_pointer)
  qed simp_all
  then show ?thesis using assms by (auto simp: ret_def)
qed

lemma decode_loop_diverges:
  assumes "src \<in> S" and "\<And>i. i \<in> S \<Longrightarrow> i + 1 < length pm \<and> 0xC0 \<le> pm ! i \<and> unat (pointer_value (pm ! i) (pm ! (i + 1))) \<in> S"
  shows "decode_loop pm bufLen pm src ob d k = None"
proof (rule ccontr)
  assume "decode_loop pm bufLen pm src ob d k \<noteq> None"
  then obtain y where "decode_loop pm bufLen pm src ob d k = Some y" by blast
  then have "pm = pm \<longrightarrow> src \<notin> S"
  proof (induction rule: decode_loop_induct [where P = "\<lambda>mem src ob d k y. mem = pm \<longrightarrow> src \<notin> S"])
    case (read_error mem src ob d k)
    then show ?case using assms(2) [of src] by auto
  next
    case (label_error mem src ob d k e)
    then show ?case using assms(2) [of src] by auto
  next
    case (last mem src ob d k ob' d' k' y)
    then show ?case using assms(2) [of src] by auto
  next
    case (label mem src ob d k ob' d' k' y)
    then show ?case using assms(2) [of src] by (auto simp: word_le_nat_alt)
  next
    case (pointer mem src ob d k y)
    then show ?case using assms(2) [of src] by auto
  qed
  with assms(1) show False by simp
qed

lemma returns_put [simp]: "returns (put ob i c)"
  by (simp add: put_def)

lemma returns_close_string [simp]: "returns (close_string ob d)"
  by (simp add: close_string_def)

lemma returns_write_characters [simp]: "returns (write_characters mem src n bufLen ob d k)"
  by (induction n arbitrary: src ob d k) (auto simp: returns_bind)

lemma returns_decode_label [simp]: "returns (decode_label mem src b bufLen ob d k)"
  by (auto simp: decode_label_def Let_def returns_bind)

lemma decode_loop_returns:
  assumes earlier: "\<And>i. i + 1 < length pm \<Longrightarrow> 0xC0 \<le> pm ! i \<Longrightarrow> unat (pointer_value (pm ! i) (pm ! (i + 1))) < i"
    and "d \<le> bufLen"
  shows "returns (decode_loop pm bufLen pm src ob d k)"
  using assms(2)
proof (induction "(bufLen - d, src)" arbitrary: d src ob k rule: wf_induct_rule [OF wf_lex_prod [OF wf_less_than wf_less_than]])
  case (1 d src ob k)
  have ptr: "returns (decode_loop pm bufLen pm (unat (pointer_value (pm ! src) (pm ! (src + 1)))) ob d k)"
    if "src + 1 < length pm" "is_pointer (pm ! src)"
    using earlier [of src] that 1(2) by (intro 1(1)) (simp_all add: is_pointer_iff)
  have lbl: "returns ((\<lambda>(ob, dstLoc, bytesRead, count).
      if count > 0 then decode_loop pm bufLen pm (src + (count + 1)) ob dstLoc bytesRead
      else bind_run (close_string ob dstLoc) (\<lambda>ob. ret (bytesRead, ob))) x)"
    if "decode_label pm src (pm ! src) bufLen ob d k = ret x" for x
  proof (cases x)
    case (fields ob' d' k' c)
    have "returns (decode_loop pm bufLen pm (src + (c + 1)) ob' d' k')"
      using decode_label_retD [OF that [unfolded fields]] by (intro 1(1)) auto
    then show ?thesis by (simp add: fields returns_bind)
  qed
  show ?case
  proof (cases "length pm \<le> src")
    case False
    show ?thesis
    proof (cases "is_pointer (pm ! src)")
      case True
      show ?thesis
        by (subst decode_loop_unfold) (use True False ptr in \<open>simp add: not_le\<close>)
    next
      case np: False
      have "returns (bind_run (decode_label pm src (pm ! src) bufLen ob d k) (\<lambda>(ob, dstLoc, bytesRead, count).
          if count > 0 then decode_loop pm bufLen pm (src + (count + 1)) ob dstLoc bytesRead
          else bind_run (close_string ob dstLoc) (\<lambda>ob. ret (bytesRead, ob))))"
        by (rule returns_bindI [OF returns_decode_label]) (rule lbl)
      then show ?thesis
        by (subst decode_loop_unfold) (use np False in simp)
    qed
  qed (subst decode_loop_unfold, simp)
qed

section \<open>What the encoder writes\<close>

lemma wire_simps [simp]: "wire [] = []" "wire (l # ls) = of_nat (length l) # l @ wire ls"
  by (simp_all add: wire_def)

lemma wire_append: "wire (as @ bs) = wire as @ wire bs"
  by (simp add: wire_def)

lemma text_of_dotted: "ls \<noteq> [] \<Longrightarrow> text_of ls = dotted ls @ [dot]"
  by (induction ls rule: dotted.induct) simp_all

lemma length_wire: "length (wire ls) = length (text_of ls)"
  by (induction ls) simp_all

lemma zero_notin_dotted: "\<forall>l\<in>set ls. 0 \<notin> set l \<Longrightarrow> 0 \<notin> set (dotted ls)"
  by (induction ls rule: dotted.induct) auto

lemma wr_append: "length w = i \<Longrightarrow> length bs \<le> length r \<Longrightarrow> wr (w @ r) i bs = ret (w @ bs @ drop (length bs) r)"
  by (auto simp: wr_def)

lemma memcpy_s_append:
  "length w = i \<Longrightarrow> length bs \<le> length r \<Longrightarrow> length bs \<le> unat sz \<Longrightarrow>
     memcpy_s (w @ r) i sz bs = ret (w @ bs @ drop (length bs) r)"
  by (auto simp: memcpy_s_def wr_append)

lemma encode_step:
  assumes "length l \<le> unat bufLen" and "length l < length r" and "length w = out"
  shows "wr (w @ r) out [b] = ret (w @ b # drop 1 r)"
    and "memcpy_s (w @ b # drop 1 r) (Suc out) bufLen l = ret (w @ b # l @ drop (Suc (length l)) r)"
proof -
  show "wr (w @ r) out [b] = ret (w @ b # drop 1 r)"
    using assms wr_append [of w out "[b]" r] by simp
  show "memcpy_s (w @ b # drop 1 r) (Suc out) bufLen l = ret (w @ b # l @ drop (Suc (length l)) r)"
    using assms memcpy_s_append [of "w @ [b]" "Suc out" l "drop 1 r" bufLen] by simp
qed

lemma encode_loop_labels:
  assumes "ls \<noteq> []" and "\<forall>l\<in>set ls. plain_label l \<and> length l \<le> unat bufLen"
    and "nm = pre @ dotted ls @ 0 # post" and "length pre = lastPtr"
    and "length w = out" and "length (wire ls) \<le> length r"
  shows "encode_loop nm lastPtr bufLen (w @ r) out totalLen =
    ret (w @ wire ls @ drop (length (wire ls)) r, totalLen + length (wire ls))"
  using assms
proof (induction ls arbitrary: pre lastPtr w r out totalLen rule: dotted.induct)
  case 1
  then show ?case by simp
next
  case (2 l)
  then have s: "strchr nm lastPtr dot = ret None" "strlen nm lastPtr = ret (length l)"
    by (auto simp: strchr_def strchr_list_end plain_label_def strlen_at)
  have "rdn nm lastPtr (length l) = ret l" using 2 by (simp add: rdn_def)
  then have "encode_loop nm lastPtr bufLen (w @ r) out totalLen =
      ret (w @ (of_nat (length l) # l) @ drop (length l + 1) r, totalLen + (length l + 1))"
    using 2 s encode_step [of l bufLen r w out]
    by (subst encode_loop.simps) (simp add: plain_label_def Let_def)
  then show ?case by simp
next
  case (3 l k ls)
  let ?rest = "dotted (k # ls)"
  have nm: "nm = (pre @ l @ [dot]) @ ?rest @ 0 # post" using 3 by simp
  have s: "strchr nm lastPtr dot = ret (Some (lastPtr + length l))"
    using 3 by (auto simp: strchr_def strchr_list_found plain_label_def)
  have rd: "rdn nm lastPtr (length l) = ret l" using 3 by (simp add: rdn_def)
  have pl: "plain_label l" "length l \<le> unat bufLen" "length l < length r" using 3 by simp_all
  have "encode_loop nm (lastPtr + (length l + 1)) bufLen
      ((w @ of_nat (length l) # l) @ drop (length l + 1) r) (out + 1 + length l) (totalLen + (length l + 1)) =
    ret ((w @ of_nat (length l) # l) @ wire (k # ls) @ drop (length (wire (k # ls))) (drop (length l + 1) r),
      totalLen + (length l + 1) + length (wire (k # ls)))"
    using 3 by (intro "3.IH" [OF _ _ nm]) simp_all
  then show ?case
    using 3 pl rd s encode_step [of l bufLen r w out]
    by (subst encode_loop.simps) (simp add: plain_label_def Let_def add.commute add.left_commute)
qed

lemma patch_append: "length w = i \<Longrightarrow> patch (w @ r) i bs = w @ bs @ drop (length bs) r"
  by (simp add: patch_def)

lemma encodeName_labels:
  assumes "ls \<noteq> []" and "\<forall>l\<in>set ls. plain_label l \<and> length l \<le> unat bufLen"
    and "out + length (dotted ls) + 2 \<le> length ob"
  shows "encodeName (dotted ls @ 0 # post) ob out bufLen =
    ret (length (dotted ls) + 2, patch ob out (wire ls @ [0]))"
proof -
  let ?w = "take out ob" and ?r = "drop out ob"
  have n: "length (wire ls) = length (dotted ls) + 1"
    using assms(1) by (simp add: length_wire text_of_dotted)
  have e: "encode_loop (dotted ls @ 0 # post) 0 bufLen (?w @ ?r) out 0 =
      ret (?w @ wire ls @ drop (length (wire ls)) ?r, 0 + length (wire ls))"
    using assms n by (intro encode_loop_labels [where pre = "[]"]) auto
  have "wr ((?w @ wire ls) @ drop (length (wire ls)) ?r) (out + length (wire ls)) [0] =
      ret ((?w @ wire ls) @ [0] @ drop (length [0 :: byte]) (drop (length (wire ls)) ?r))"
    using assms n by (intro wr_append) auto
  with e show ?thesis
    using n assms(3) by (simp add: encodeName_def patch_def add.commute)
qed

lemma split_dots_nonempty [simp]: "split_dots s \<noteq> []"
  by (cases s) (auto split: list.splits)

lemma dotted_Cons: "ls \<noteq> [] \<Longrightarrow> dotted (l # ls) = l @ dot # dotted ls"
  by (cases ls) simp_all

lemma dotted_split_dots [simp]: "dotted (split_dots s) = s"
proof (induction s)
  case (Cons b s)
  obtain l ls where s: "split_dots s = l # ls" by (cases "split_dots s") auto
  with Cons show ?case by (cases ls) (auto simp: dotted_Cons)
qed simp

lemma split_dots_labels: "l \<in> set (split_dots s) \<Longrightarrow> dot \<notin> set l \<and> set l \<subseteq> set s"
  by (induction s arbitrary: l) (fastforce split: if_splits list.splits)+

lemma split_dots_append: "dot \<notin> set l \<Longrightarrow> split_dots (l @ dot # s) = l # split_dots s"
  by (induction l) auto

lemma split_dots_plain: "dot \<notin> set l \<Longrightarrow> split_dots l = [l]"
  by (induction l) auto

lemma split_dots_dotted: "ls \<noteq> [] \<Longrightarrow> \<forall>l\<in>set ls. dot \<notin> set l \<Longrightarrow> split_dots (dotted ls) = ls"
  by (induction ls rule: dotted.induct) (auto simp: split_dots_append split_dots_plain)

lemma encodeName_string:
  assumes "0 \<notin> set s" and "\<forall>l\<in>set (split_dots s). length l < 256 \<and> length l \<le> unat bufLen"
    and "out + length s + 2 \<le> length ob"
  shows "encodeName (s @ 0 # post) ob out bufLen =
    ret (length s + 2, patch ob out (wire (split_dots s) @ [0]))"
proof -
  have "\<forall>l\<in>set (split_dots s). plain_label l \<and> length l \<le> unat bufLen"
    using assms(1,2) split_dots_labels [of _ s] by (auto simp: plain_label_def)
  from encodeName_labels [OF split_dots_nonempty this, of out ob post] assms(3) show ?thesis by simp
qed

lemma length_wire_split [simp]: "length (wire (split_dots s)) = length s + 1"
  using text_of_dotted [OF split_dots_nonempty [of s]] by (simp add: length_wire)

subsection \<open>Names in memory\<close>

lemma expands_labels_then:
  assumes "\<forall>l\<in>set as. wire_label l" and "mem = pre @ wire as @ rest"
    and "expands pm mem (length pre + length (wire as)) bs"
  shows "expands pm mem (length pre) (as @ bs)"
  using assms
proof (induction as arbitrary: pre)
  case Nil
  then show ?case by simp
next
  case (Cons l as)
  then have l: "l \<noteq> []" "length l \<le> 63" by (auto simp: wire_label_def)
  let ?b = "of_nat (length l) :: byte"
  have u: "unat ?b = length l" using l by (simp add: unat_of_nat)
  have m: "mem ! length pre = ?b" using Cons.prems by simp
  have "expands pm mem (length (pre @ ?b # l)) (as @ bs)"
    using Cons.prems by (intro Cons.IH) (simp_all add: add.assoc)
  then have "expands pm mem (length pre) (take (unat (mem ! length pre)) (drop (length pre + 1) mem) # (as @ bs))"
    using l u m Cons.prems
    by (intro expands.name_label) (simp_all add: word_le_nat_alt unat_eq_0 flip: unat_eq_0)
  moreover have "take (unat (mem ! length pre)) (drop (length pre + 1) mem) = l"
    using m u Cons.prems by simp
  ultimately show ?case by simp
qed

lemma expands_wire:
  assumes "\<forall>l\<in>set ls. wire_label l" and "mem = pre @ wire ls @ 0 # rest"
  shows "expands pm mem (length pre) ls"
proof -
  have "expands pm mem (length pre + length (wire ls)) []"
    using assms(2) by (intro expands.name_end) (simp_all add: nth_append)
  from expands_labels_then [OF assms this] show ?thesis by simp
qed

lemma expands_wire_pointer:
  assumes "\<forall>l\<in>set as. wire_label l" and "mem = pre @ wire as @ b0 # b1 # rest" and "0xC0 \<le> b0"
    and "expands pm pm (unat (pointer_value b0 b1)) bs"
  shows "expands pm mem (length pre) (as @ bs)"
proof -
  have "expands pm mem (length pre + length (wire as)) bs"
    using assms(2,3,4) by (auto simp: nth_append intro!: expands.name_pointer [of "length pre + length (wire as)"])
  from expands_labels_then [OF assms(1,2) this] show ?thesis .
qed

lemma finished_dotted:
  assumes "ls \<noteq> []" and "length (dotted ls) + 2 \<le> length r"
  shows "finished [] ls r = dotted ls @ 0 # dot # drop (length (dotted ls) + 2) r"
  using assms by (simp add: finished_def text_of_dotted list_update_append)

lemma cstr_finished:
  "0 \<notin> set (dotted ls) \<Longrightarrow> cstr (dotted ls @ 0 # t) = dotted ls"
  by (simp add: cstr_def takeWhile_append)

lemma zero_notin_wire: "\<forall>l\<in>set ls. wire_label l \<and> 0 \<notin> set l \<Longrightarrow> 0 \<notin> set (wire ls)"
proof (induction ls)
  case (Cons l ls)
  then have "of_nat (length l) \<noteq> (0 :: byte)"
    by (auto simp: wire_label_def unat_of_nat unat_eq_0 [symmetric])
  with Cons show ?case by auto
qed simp

lemma decodeName_expands:
  assumes "strlen mem name = ret n" and "n \<le> 255" and "expands pm mem name ls" and "ls \<noteq> []"
    and "bufLen \<le> length ob"
  shows "decodeName mem name pm ob bufLen =
    (if length (dotted ls) + 2 \<le> bufLen
     then ret (length (dotted ls) + 2, dotted ls @ 0 # dot # drop (length (dotted ls) + 2) ob)
     else raise (Exception ''Buffer too small''))"
proof -
  have "0 < length (text_of ls)" using assms(4) by (simp add: text_of_dotted)
  then have "decode_loop pm bufLen mem name ([] @ ob) (length ([] :: byte list)) 0 =
    (if length ([] :: byte list) + length (text_of ls) + 1 \<le> bufLen
     then ret (0 + length (text_of ls) + 1, finished [] ls ob)
     else raise (Exception ''Buffer too small''))"
    using assms by (intro decode_loop_expands) simp_all
  with assms show ?thesis
    by (auto simp: decodeName_def text_of_dotted finished_dotted)
qed

lemma decodeName_root:
  assumes "strlen mem name = ret n" and "n \<le> 255" and "expands pm mem name []" and "0 < bufLen" and "bufLen \<le> length ob"
  shows "decodeName mem name pm ob bufLen = crash Write_Out_Of_Bounds"
proof -
  have "decode_loop pm bufLen mem name ob 0 0 = crash Write_Out_Of_Bounds"
    using assms(3)
  proof (induction mem name "[] :: byte list list" rule: expands.induct)
    case (name_end src mem)
    have "0 < length ob" using assms(4,5) by linarith
    with name_end show ?case
      using assms(4,5) decode_label_fits [of 0 src mem "[]" bufLen ob 0]
      by (subst decode_loop_unfold) (simp add: is_pointer_iff close_string_def)
  next
    case (name_pointer src mem)
    then show ?case by (subst decode_loop_unfold) (simp add: is_pointer_iff)
  qed
  with assms show ?thesis by (simp add: decodeName_def)
qed

lemma good_name_decodes:
  assumes "good_name s" and "mem = pre @ wire (split_dots s) @ 0 # post" and "length ob = 256"
  shows "decodeName mem (length pre) pm ob 256 = ret (length s + 2, s @ 0 # dot # drop (length s + 2) ob)"
proof -
  have l: "\<forall>l\<in>set (split_dots s). wire_label l \<and> 0 \<notin> set l"
    using assms(1) split_dots_labels by (fastforce simp: good_name_def)
  have "expands pm mem (length pre) (split_dots s)"
    using l assms(2) by (intro expands_wire) auto
  moreover have "strlen mem (length pre) = ret (length (wire (split_dots s)))"
    unfolding assms(2) using zero_notin_wire [OF l] by (intro strlen_at) auto
  ultimately show ?thesis
    using decodeName_expands [of mem "length pre" "length s + 1" pm "split_dots s" 256 ob] assms(1,3)
    by (simp add: good_name_def)
qed

lemma wire_first: "good_name s \<Longrightarrow> \<exists>b t. wire (split_dots s) = b # t \<and> \<not> is_pointer b"
proof -
  assume g: "good_name s"
  obtain l ls where s: "split_dots s = l # ls" by (cases "split_dots s") auto
  with g have "length l \<le> 63" by (simp add: good_name_def wire_label_def)
  then have "unat (of_nat (length l) :: byte) = length l" by (simp add: unat_of_nat)
  with \<open>length l \<le> 63\<close> have "\<not> is_pointer (of_nat (length l))"
    by (simp add: is_pointer_iff word_le_nat_alt)
  with s show ?thesis by simp
qed

lemma returns_strlen [simp]: "returns (strlen m i)"
  by (simp add: strlen_def split: option.splits)

lemma returns_decodeName:
  assumes "backward_pointers pm"
  shows "returns (decodeName pm src pm ob bufLen)"
proof -
  have "returns (decode_loop pm bufLen pm src ob 0 0)"
    using assms by (intro decode_loop_returns) (auto simp: backward_pointers_def)
  then show ?thesis by (auto simp: decodeName_def)
qed

lemma push_or_add:
  assumes "(y :: nat) < 256"
  shows "push_bit 8 x OR y = 256 * x + y"
proof -
  have y: "y = take_bit 8 y" using assms by (simp add: take_bit_nat_eq_self)
  have "push_bit 8 x AND y = 0"
    by (subst y, rule bit_eqI) (auto simp: bit_simps)
  then have "push_bit 8 x + y = push_bit 8 x OR y" by (rule disjunctive_add_eq_or)
  then show ?thesis by (simp add: push_bit_eq_mult mult.commute)
qed

lemma decodeName_retD:
  assumes "0 < bufLen" and "bufLen \<le> length ob" and L: "decodeName mem name pm ob bufLen = ret (n, out)"
  shows "\<exists>ls len. strlen mem name = ret len \<and> len \<le> 255 \<and> expands pm mem name ls \<and> ls \<noteq> [] \<and>
    length (dotted ls) + 2 \<le> bufLen \<and> n = length (dotted ls) + 2 \<and>
    out = dotted ls @ 0 # dot # drop (length (dotted ls) + 2) ob"
proof -
  from L obtain len where len: "strlen mem name = ret len" "len \<le> 255"
      and loop: "decode_loop pm bufLen mem name ob 0 0 = ret (n, out)"
    by (auto simp: decodeName_def elim!: bind_run_retE split: if_splits)
  from decode_loop_sound [OF loop] obtain ls where ls: "expands pm mem name ls" by blast
  with len L assms have "ls \<noteq> []" using decodeName_root [of mem name len pm bufLen ob] by auto
  with decodeName_expands [OF len ls _ assms(2)] len ls L show ?thesis
    by (auto split: if_splits)
qed

text \<open>The offset in numbers.\<close>

lemma pointer_value_unat:
  "unat (pointer_value b0 b1) =
     (if b1 < 0x80 then 256 * (unat b0 mod 64) + unat b1 else 0x3F00 + unat b1)"
proof (cases "b1 < 0x80")
  case True
  have "b0 AND 0x3F = take_bit 6 b0" by (simp add: take_bit_eq_mask mask_eq_exp_minus_1)
  then have "unat (push_bit 8 (ucast (b0 AND 0x3F)) :: 16 word) = push_bit 8 (take_bit 6 (unat b0))"
    by (simp add: unsigned_push_bit_eq unsigned_ucast_eq unsigned_take_bit_eq take_bit_push_bit)
  then show ?thesis
    using True unat_byte_less [of b1]
    by (simp add: pointer_value_low unsigned_or_eq push_or_add take_bit_eq_mod)
next
  case False
  have "unat (0x3F00 OR ucast b1 :: 16 word) = push_bit 8 63 OR unat b1"
    by (simp add: unsigned_or_eq push_bit_eq_mult)
  with False show ?thesis
    using push_or_add [OF unat_byte_less [of b1], of 63] by (simp add: pointer_value_high)
qed

section \<open>Properties\<close>

text \<open>
  C28. The compression offset the code computes from the two bytes of a pointer is the 14-bit offset of
  RFC 1035 exactly when the second byte is below 128 or the six low bits of the first are all set. In
  the other cases sign extension of the second byte sets the six high bits: the offset is
  \<open>0x3F00\<close> plus the second byte, at least \<open>0x3F80\<close> and beyond any packet buffer of the program.
\<close>

theorem pointer_value_wire:
  "(unat (pointer_value b0 b1) = 256 * (unat b0 mod 64) + unat b1 \<longleftrightarrow> b1 < 0x80 \<or> unat b0 mod 64 = 63) \<and>
   (0x80 \<le> b1 \<longrightarrow> unat (pointer_value b0 b1) = 0x3F00 + unat b1 \<and> 0x3F80 \<le> unat (pointer_value b0 b1))"
  unfolding pointer_value_unat by (auto simp: word_less_nat_alt word_le_nat_alt)

theorem pointer_value_wire_witness:
  "unat (pointer_value 0xC0 0x80) = 0x3F80 \<and> unat (pointer_value 0xFF 0x80) = 256 * 63 + 0x80"
  using pointer_value_wire [of "0xC0" "0x80"] pointer_value_wire [of "0xFF" "0x80"] by simp

text \<open>
  C9. The decoder returns a result exactly on the names its grammar accepts that have at least one label,
  that fit the output buffer with their closing bytes and whose first run of non-zero bytes is at most
  255 long; for the root name, which has no label, the terminator falls before the buffer. On a result the
  buffer then holds the dotted name, terminated, and the count returned is two more than its length.
\<close>

theorem decodeName_iff:
  assumes "0 < bufLen" and "bufLen \<le> length ob"
  shows "decodeName mem name pm ob bufLen = ret (n, out) \<longleftrightarrow>
    (\<exists>ls len. strlen mem name = ret len \<and> len \<le> 255 \<and> expands pm mem name ls \<and> ls \<noteq> [] \<and>
       length (dotted ls) + 2 \<le> bufLen \<and> n = length (dotted ls) + 2 \<and>
       out = dotted ls @ 0 # dot # drop (length (dotted ls) + 2) ob)" (is "?L \<longleftrightarrow> ?R")
proof
  assume ?L
  then show ?R using decodeName_retD [OF assms] by blast
next
  assume ?R
  then obtain ls len where "strlen mem name = ret len" "len \<le> 255" "expands pm mem name ls" "ls \<noteq> []"
    "length (dotted ls) + 2 \<le> bufLen" "n = length (dotted ls) + 2"
    "out = dotted ls @ 0 # dot # drop (length (dotted ls) + 2) ob" by blast
  with decodeName_expands [of mem name len pm ls bufLen ob] assms(2) show ?L by simp
qed

theorem decodeName_iff_witness:
  "\<exists>ls len. strlen [1, 97, 0] 0 = ret len \<and> len \<le> 255 \<and> expands [] [1, 97, 0] 0 ls \<and> ls \<noteq> [] \<and>
     length (dotted ls) + 2 \<le> 4 \<and> 3 = length (dotted ls) + 2 \<and>
     [97, 0, dot, 7] = dotted ls @ 0 # dot # drop (length (dotted ls) + 2) [7, 7, 7, 7]"
proof -
  have "decodeName [1, 97, 0] 0 [] [7, 7, 7, 7] 4 = ret (3, [97, 0, dot, 7])"
    unfolding ret_def by code_simp
  then show ?thesis
    using decodeName_iff [of 4 "[7, 7, 7, 7]" "[1, 97, 0]" 0 "[]" 3 "[97, 0, dot, 7]"] by simp
qed

text \<open>
  A compressed name, labels \<open>as\<close> followed by a pointer to labels \<open>bs\<close>, decodes to the joined
  dotted name, but the count returned is the size of the uncompressed name, not the number of
  bytes the name occupies, which is the size of \<open>as\<close> and of the two pointer bytes: it exceeds them
  by one less than the size of \<open>bs\<close>.
\<close>

theorem compressed_name_count:
  assumes "\<forall>l\<in>set as. wire_label l" and "mem = pre @ wire as @ b0 # b1 # rest" and "0xC0 \<le> b0"
    and "expands pm pm (unat (pointer_value b0 b1)) bs" and "bs \<noteq> []"
    and "strlen mem (length pre) = ret n" and "n \<le> 255"
    and "length (wire (as @ bs)) + 1 \<le> bufLen" and "bufLen \<le> length ob"
  shows "\<exists>out. decodeName mem (length pre) pm ob bufLen = ret (length (wire as) + 2 + (length (wire bs) - 1), out) \<and>
    take (length (dotted (as @ bs)) + 1) out = dotted (as @ bs) @ [0]"
proof -
  have e: "expands pm mem (length pre) (as @ bs)"
    by (rule expands_wire_pointer [OF assms(1-4)])
  have ne: "as @ bs \<noteq> []" using assms(5) by simp
  have len: "length (wire (as @ bs)) = length (dotted (as @ bs)) + 1"
    unfolding length_wire text_of_dotted [OF ne] by simp
  have "0 < length (wire bs)" using assms(5) by (cases bs) simp_all
  then have "length (dotted (as @ bs)) + 2 = length (wire as) + 2 + (length (wire bs) - 1)"
    using len unfolding wire_append length_append by linarith
  then show ?thesis
    using decodeName_expands [OF assms(6,7) e ne assms(9)] assms(8) len by simp
qed

theorem compressed_name_count_witness:
  "\<exists>out. decodeName [1, 98, 0, 0, 1, 97, 0xC0, 0, 0] 4 [1, 98, 0, 0, 1, 97, 0xC0, 0, 0] (replicate 8 7) 8 =
      ret (length (wire [[97]]) + 2 + (length (wire [[98]]) - 1), out) \<and>
    take (length (dotted ([[97]] @ [[98]])) + 1) out = dotted ([[97]] @ [[98]]) @ [0]"
proof -
  have e: "expands [1, 98, 0, 0, 1, 97, 0xC0, 0, 0] [1, 98, 0, 0, 1, 97, 0xC0, 0, 0] (unat (pointer_value 0xC0 0)) [[98]]"
    using expands_wire [of "[[98]]" "[1, 98, 0, 0, 1, 97, 0xC0, 0, 0]" "[]" "[0, 1, 97, 0xC0, 0, 0]"]
    by (simp add: wire_label_def pointer_value_unat)
  have s: "strlen [1, 98, 0, 0, 1, 97, 0xC0, 0, 0] (length [1, 98, 0, 0 :: byte]) = ret 3"
    by (simp add: strlen_def)
  show ?thesis
    using compressed_name_count [where as = "[[97]]" and pre = "[1, 98, 0, 0]" and rest = "[0]"
        and bufLen = 8 and ob = "replicate 8 7", OF _ _ _ e _ s]
    by (simp add: wire_label_def eval_nat_numeral)
qed

text \<open>
  Nothing bounds the number of pointers the decoder follows: on a set of packet offsets that
  hold pointers into that same set, \<open>decodeName\<close> never returns.
\<close>

theorem pointer_cycle_diverges:
  assumes "src \<in> S"
    and "\<forall>i\<in>S. i + 1 < length pm \<and> 0xC0 \<le> pm ! i \<and> unat (pointer_value (pm ! i) (pm ! (i + 1))) \<in> S"
    and "strlen pm src = ret n" and "n \<le> 255"
  shows "\<not> returns (decodeName pm src pm ob bufLen)"
  using assms decode_loop_diverges [of src S pm bufLen ob 0 0] by (simp add: decodeName_def)

theorem pointer_cycle_diverges_witness:
  "\<not> returns (decodeName [0xC0, 2, 0xC0, 0, 0] 0 [0xC0, 2, 0xC0, 0, 0] (replicate 256 0) 256)"
  by (rule pointer_cycle_diverges [where S = "{0, 2}" and n = 3])
    (simp_all add: pointer_value_unat strlen_def)

text \<open>
  C14. When every pointer of the packet leads to an earlier offset, as RFC 1035 has it, the decoder
  returns, with a name or with an error, wherever in the packet it starts.
\<close>

theorem decodeName_returns:
  assumes "backward_pointers pm"
  shows "returns (decodeName pm src pm ob bufLen)"
  using assms by (rule returns_decodeName)

theorem decodeName_returns_witness:
  "returns (decodeName [1, 98, 0, 0xC0, 0, 0] 3 [1, 98, 0, 0xC0, 0, 0] (replicate 256 0) 256)"
  by (rule decodeName_returns) code_simp

text \<open>
  The root name, a single zero byte, makes the decoder write one byte before its output buffer.
\<close>

theorem root_name_underflow:
  assumes "src < length mem" and "mem ! src = 0" and "0 < bufLen" and "bufLen \<le> length ob"
  shows "decodeName mem src pm ob bufLen = crash Write_Out_Of_Bounds"
proof -
  have "drop src mem = 0 # drop (src + 1) mem"
    using assms(1,2) by (simp add: Cons_nth_drop_Suc [symmetric])
  then have "strlen mem src = ret 0" by (simp add: strlen_def)
  moreover have "expands pm mem src []" using assms by (intro expands.name_end)
  ultimately show ?thesis using assms decodeName_root [of mem src 0] by simp
qed

theorem root_name_underflow_witness:
  "decodeName [0, 0, 1] 0 [0, 0, 1] (replicate 256 0) 256 = crash Write_Out_Of_Bounds"
  by (rule root_name_underflow) simp_all

text \<open>
  The encoder writes a dotted name as length-prefixed labels and a zero byte and returns the
  number of bytes written, whatever the size of the whole name is: only each single label is
  compared with \<open>bufLen\<close>.
\<close>

theorem encodeName_writes:
  assumes "0 \<notin> set s" and "\<forall>l\<in>set (split_dots s). length l < 256 \<and> length l \<le> unat bufLen"
    and "out + length s + 2 \<le> length ob"
  shows "encodeName (s @ 0 # post) ob out bufLen =
    ret (length s + 2, patch ob out (wire (split_dots s) @ [0]))"
  using assms by (rule encodeName_string)

theorem encodeName_writes_witness:
  "encodeName ([97, 97, 97, dot, 98, 98, 98] @ 0 # []) (replicate 12 7) 1 4 =
    ret (length [97, 97, 97, dot, 98, 98, 98 :: byte] + 2,
      patch (replicate 12 7) 1 (wire (split_dots [97, 97, 97, dot, 98, 98, 98]) @ [0])) \<and>
   4 < length [97, 97, 97, dot, 98, 98, 98 :: byte]"
  using encodeName_writes [of "[97, 97, 97, dot, 98, 98, 98]" 4 1 "replicate 12 7" "[]"] by simp

text \<open>
  C3. Round trip: a dotted name of at most 253 characters whose labels have 1 to 63 characters is
  encoded at any place of a packet and decoded there to the same name, and both directions report
  the same number of bytes.
\<close>

theorem name_round_trip:
  assumes "ls \<noteq> []" and "\<forall>l\<in>set ls. wire_label l \<and> dot \<notin> set l \<and> 0 \<notin> set l"
    and "length (dotted ls) \<le> 253" and "out + length (dotted ls) + 2 \<le> length pkt"
    and "63 \<le> unat bufLen" and "length ob = 256"
  shows "\<exists>pkt' buf. encodeName (dotted ls @ [0]) pkt out bufLen = ret (length (dotted ls) + 2, pkt') \<and>
    decodeName pkt' out pkt' ob 256 = ret (length (dotted ls) + 2, buf) \<and> cstr buf = dotted ls"
proof -
  let ?pkt = "patch pkt out (wire ls @ [0])"
  have pl: "\<forall>l\<in>set ls. plain_label l \<and> length l \<le> unat bufLen"
    using assms(2,5) by (auto simp: plain_label_def wire_label_def)
  have e: "encodeName (dotted ls @ [0]) pkt out bufLen = ret (length (dotted ls) + 2, ?pkt)"
    using encodeName_labels [OF assms(1) pl assms(4)] by simp
  have p: "?pkt = take out pkt @ wire ls @ 0 # drop (out + length (wire ls) + 1) pkt"
    by (simp add: patch_def)
  have out: "length (take out pkt) = out" using assms(4) by simp
  have x: "expands ?pkt ?pkt out ls"
    using expands_wire [of ls ?pkt "take out pkt" _ ?pkt] assms(2) p out by auto
  have "strlen ?pkt out = ret (length (wire ls))"
    unfolding p using zero_notin_wire [of ls] assms(2) out by (intro strlen_at) auto
  moreover have "length (wire ls) \<le> 255"
    using assms(1,3) by (simp add: length_wire text_of_dotted)
  ultimately have "decodeName ?pkt out ?pkt ob 256 =
      ret (length (dotted ls) + 2, dotted ls @ 0 # dot # drop (length (dotted ls) + 2) ob)"
    using decodeName_expands [OF _ _ x assms(1), of "length (wire ls)" 256 ob] assms(3,6) by simp
  moreover have "0 \<notin> set (dotted ls)" using assms(2) by (intro zero_notin_dotted) auto
  ultimately show ?thesis using e by (auto simp: cstr_finished)
qed

theorem name_round_trip_witness:
  "\<exists>pkt' buf. encodeName (dotted [[119, 119], [97]] @ [0]) (replicate 20 0) 12 63 = ret (length (dotted [[119, 119], [97]]) + 2, pkt') \<and>
    decodeName pkt' 12 pkt' (replicate 256 1) 256 = ret (length (dotted [[119, 119], [97]]) + 2, buf) \<and>
    cstr buf = dotted [[119, 119], [97]]"
  by (rule name_round_trip) (simp_all add: wire_label_def)

end
