(* ===== verification/RData.thy ===== *)
theory RData
  imports DNSUtil
begin

text \<open>
  \<open>src/DNS/DNSRData.h\<close>, \<open>DNSRDataA.cpp\<close> and \<open>DNSRDataCNAME.cpp\<close>: the two kinds of RDATA. An object
  is a record of its arrays; the contents of memory that the code does not initialise are the
  parameter \<open>junk\<close>, any function from offsets to bytes.
\<close>

section \<open>Address records\<close>

record DNSRDataA =
  a_addr :: "byte list"
  a_value :: "byte list"

text \<open>
  The loop of the constructor, with \<open>n\<close> parts left: \<open>ptr\<close> is an offset into the region of the
  address string and \<open>temp\<close> the four-byte array that holds one part at a time.
\<close>

fun parse_addr :: "nat \<Rightarrow> byte list \<Rightarrow> nat \<Rightarrow> byte list \<Rightarrow> byte list \<Rightarrow> byte list run" where
  "parse_addr 0 mem ptr temp addr = ret addr"
| "parse_addr (Suc n) mem ptr temp addr =
     bind_run (strchr mem ptr dot) (\<lambda>found.
     bind_run (case found of Some p \<Rightarrow> ret (Some p) | None \<Rightarrow> strchr mem ptr 0) (\<lambda>found.
     let numChars = (case found of Some p \<Rightarrow> p - ptr | None \<Rightarrow> 0) in
     bind_run (rdn mem ptr numChars) (\<lambda>part.
     bind_run (memcpy_s temp 0 4 part) (\<lambda>temp.
     bind_run (wr temp numChars [0]) (\<lambda>temp.
       parse_addr n mem (ptr + (numChars + 1)) temp
         (addr[4 - Suc n := 0 OR word_of_int (atoi (cstr temp))]))))))"

text \<open>\<open>DNSRDataA::DNSRDataA(char *addrStr)\<close>\<close>

definition DNSRDataA_ctor :: "(nat \<Rightarrow> byte) \<Rightarrow> byte list \<Rightarrow> nat \<Rightarrow> DNSRDataA run" where
  "DNSRDataA_ctor junk mem addrStr =
     bind_run (strcpy_s (fresh junk 16) mem addrStr) (\<lambda>value.
     bind_run (parse_addr 4 mem addrStr (fresh junk 4) (fresh junk 4)) (\<lambda>addr.
       ret \<lparr>a_addr = addr, a_value = value\<rparr>))"

text \<open>\<open>size_t DNSRDataA::encode(char *outputBuf, int bufLen)\<close>, writing at \<open>out\<close>\<close>

definition DNSRDataA_encode :: "DNSRDataA \<Rightarrow> byte list \<Rightarrow> nat \<Rightarrow> 32 word \<Rightarrow> (nat \<times> byte list) run" where
  "DNSRDataA_encode r ob out bufLen =
     bind_run (memcpy_s ob out (scast bufLen) (a_addr r)) (\<lambda>ob. ret (4, ob))"

text \<open>
  The loop of \<open>decode\<close> that writes the dotted form. \<open>remLen\<close> never falls below zero: \<open>_itoa_s\<close> and
  \<open>strcat_s\<close> have been given it as the size of what they wrote.
\<close>

fun format_addr :: "nat \<Rightarrow> byte list \<Rightarrow> byte list \<Rightarrow> nat \<Rightarrow> nat \<Rightarrow> (byte list \<times> nat) run" where
  "format_addr 0 addr value ptr remLen = ret (value, ptr)"
| "format_addr (Suc n) addr value ptr remLen =
     (let v = unat (addr ! (4 - Suc n)) in
      bind_run (itoa_s v value ptr remLen) (\<lambda>value.
      let remLen = (if v > 99 then remLen - 3 else if v > 9 then remLen - 2 else remLen - 1) in
      bind_run (if 4 - Suc n < 3
          then bind_run (strcat_s value ptr remLen [dot]) (\<lambda>value. ret (value, remLen - 1))
          else ret (value, remLen)) (\<lambda>(value, remLen).
        format_addr n addr value (16 - remLen) remLen)))"

text \<open>\<open>DNSRDataA DNSRDataA::decode(char *buffer, int bufLen)\<close>; the copy into \<open>addr\<close> is \<open>memcpy_s(addr, 4, buffer, bufLen)\<close>\<close>

definition DNSRDataA_decode :: "(nat \<Rightarrow> byte) \<Rightarrow> byte list \<Rightarrow> nat \<Rightarrow> 32 word \<Rightarrow> DNSRDataA run" where
  "DNSRDataA_decode junk mem buffer bufLen =
     (let count = unat (scast bufLen :: 64 word) in
      bind_run (if 4 < count then crash Invalid_Parameter
        else bind_run (rdn mem buffer count) (memcpy_s (fresh junk 4) 0 4)) (\<lambda>addr.
      bind_run (wr (fresh junk 16) 0 [0]) (\<lambda>value.
      bind_run (format_addr 4 addr value 0 16) (\<lambda>(value, ptr).
      bind_run (wr value ptr [0]) (\<lambda>value.
        ret \<lparr>a_addr = addr, a_value = value\<rparr>)))))"

section \<open>Alias records\<close>

record DNSRDataCNAME =
  c_name :: "byte list"

text \<open>\<open>DNSRDataCNAME::DNSRDataCNAME(char *name)\<close>\<close>

definition DNSRDataCNAME_ctor :: "(nat \<Rightarrow> byte) \<Rightarrow> byte list \<Rightarrow> nat \<Rightarrow> DNSRDataCNAME run" where
  "DNSRDataCNAME_ctor junk mem name =
     bind_run (strcpy_s (fresh junk (MAX_DNS_NAME_LENGTH + 1)) mem name) (\<lambda>nm. ret \<lparr>c_name = nm\<rparr>)"

text \<open>\<open>size_t DNSRDataCNAME::encode(char *outputBuf, int bufLen)\<close>\<close>

definition DNSRDataCNAME_encode :: "DNSRDataCNAME \<Rightarrow> byte list \<Rightarrow> nat \<Rightarrow> 32 word \<Rightarrow> (nat \<times> byte list) run" where
  "DNSRDataCNAME_encode r ob out bufLen = encodeName (c_name r) ob out (scast bufLen)"

text \<open>
  \<open>DNSRDataCNAME DNSRDataCNAME::decode(char *buffer, DNSPacket *packet, int bufLen)\<close>, where
  \<open>buffer\<close> lies in the packet \<open>pm\<close>; \<open>bufLen\<close> is not used.
\<close>

definition DNSRDataCNAME_decode :: "(nat \<Rightarrow> byte) \<Rightarrow> byte list \<Rightarrow> nat \<Rightarrow> DNSRDataCNAME run" where
  "DNSRDataCNAME_decode junk pm buffer =
     bind_run (rd pm buffer) (\<lambda>b0.
     bind_run (if is_pointer b0
        then bind_run (rd pm (buffer + 1)) (\<lambda>b1. ret (unat (pointer_value b0 b1)))
        else ret buffer) (\<lambda>srcLoc.
     bind_run (decodeName pm srcLoc pm (fresh junk (MAX_DNS_NAME_LENGTH + 1)) (MAX_DNS_NAME_LENGTH + 1)) (\<lambda>(n, name).
       DNSRDataCNAME_ctor junk name 0)))"

section \<open>The abstract class\<close>

text \<open>\<open>class DNSRData\<close>: an object of one of its two subclasses, and the virtual calls.\<close>

datatype DNSRData = RDataA DNSRDataA | RDataCNAME DNSRDataCNAME

fun rdata_encode :: "DNSRData \<Rightarrow> byte list \<Rightarrow> nat \<Rightarrow> 32 word \<Rightarrow> (nat \<times> byte list) run" where
  "rdata_encode (RDataA r) = DNSRDataA_encode r"
| "rdata_encode (RDataCNAME r) = DNSRDataCNAME_encode r"

fun rdata_getValue :: "DNSRData \<Rightarrow> byte list" where
  "rdata_getValue (RDataA r) = a_value r"
| "rdata_getValue (RDataCNAME r) = c_name r"

text \<open>
  The contract of \<open>encode\<close>: a well-formed object is written as its payload, nothing else of the
  buffer changes, and the number of bytes written is returned, when the payload fits the size
  passed (read as a \<open>size_t\<close>) and the memory behind it.
\<close>

locale rdata_class =
  fixes encode :: "'r \<Rightarrow> byte list \<Rightarrow> nat \<Rightarrow> 32 word \<Rightarrow> (nat \<times> byte list) run"
    and payload :: "'r \<Rightarrow> byte list"
    and ok :: "'r \<Rightarrow> bool"
  assumes encode_payload: "ok r \<Longrightarrow> length (payload r) \<le> unat (scast bufLen :: 64 word) \<Longrightarrow>
      out + length (payload r) \<le> length ob \<Longrightarrow>
      encode r ob out bufLen = ret (length (payload r), patch ob out (payload r))"
begin

lemma encode_length:
  assumes "ok r" "length (payload r) \<le> unat (scast bufLen :: 64 word)" "out + length (payload r) \<le> length ob"
  shows "\<exists>n ob'. encode r ob out bufLen = ret (n, ob') \<and> length ob' = length ob"
  using encode_payload [OF assms] assms by simp

text \<open>
  RDATA written ten bytes ahead and the fixed part written before it make one contiguous record.
\<close>

lemma encode_with_prefix:
  assumes "ok r" and "length (payload r) \<le> unat (scast bufLen :: 64 word)"
    and "length fixed = n" and "out + n + length (payload r) \<le> length ob"
  shows "bind_run (encode r ob (out + n) bufLen) (\<lambda>(k, ob). bind_run (wr ob out fixed) (\<lambda>ob. ret (k, ob))) =
    ret (length (payload r), patch ob out (fixed @ payload r))"
proof -
  have e: "encode r ob (out + n) bufLen = ret (length (payload r), patch ob (out + n) (payload r))"
    using assms by (intro encode_payload) simp_all
  have "patch (patch ob (out + n) (payload r)) out fixed = patch ob out (fixed @ payload r)"
    using assms by (simp add: patch_def add.assoc)
  with e show ?thesis using assms by (simp add: wr_patch)
qed

end

definition a_ok :: "DNSRDataA \<Rightarrow> bool" where
  "a_ok r \<longleftrightarrow> length (a_addr r) = 4"

definition cname_text :: "DNSRDataCNAME \<Rightarrow> byte list" where
  "cname_text r = cstr (c_name r)"

definition cname_payload :: "DNSRDataCNAME \<Rightarrow> byte list" where
  "cname_payload r = wire (split_dots (cname_text r)) @ [0]"

definition cname_ok :: "DNSRDataCNAME \<Rightarrow> bool" where
  "cname_ok r \<longleftrightarrow> 0 \<in> set (c_name r) \<and> (\<forall>l\<in>set (split_dots (cname_text r)). length l < 256)"

fun rdata_payload :: "DNSRData \<Rightarrow> byte list" where
  "rdata_payload (RDataA r) = a_addr r"
| "rdata_payload (RDataCNAME r) = cname_payload r"

fun rdata_ok :: "DNSRData \<Rightarrow> bool" where
  "rdata_ok (RDataA r) = a_ok r"
| "rdata_ok (RDataCNAME r) = cname_ok r"

interpretation addr_rdata: rdata_class DNSRDataA_encode a_addr a_ok
  by unfold_locales (simp add: DNSRDataA_encode_def a_ok_def memcpy_s_patch)

lemma label_le_wire: "l \<in> set ls \<Longrightarrow> length l \<le> length (wire ls)"
  by (induction ls) auto

interpretation alias_rdata: rdata_class DNSRDataCNAME_encode cname_payload cname_ok
proof unfold_locales
  fix r and bufLen :: "32 word" and out ob
  assume a: "cname_ok r" "length (cname_payload r) \<le> unat (scast bufLen :: 64 word)"
    "out + length (cname_payload r) \<le> length (ob :: byte list)"
  then obtain post where c: "c_name r = cname_text r @ 0 # post"
    using cstr_split by (auto simp: cname_ok_def cname_text_def)
  have "encodeName (cname_text r @ 0 # post) ob out (scast bufLen) =
      ret (length (cname_text r) + 2, patch ob out (wire (split_dots (cname_text r)) @ [0]))"
    using a label_le_wire [of _ "split_dots (cname_text r)"]
    by (intro encodeName_string) (fastforce simp: cname_text_def cname_ok_def cname_payload_def)+
  then show "DNSRDataCNAME_encode r ob out bufLen = ret (length (cname_payload r), patch ob out (cname_payload r))"
    unfolding DNSRDataCNAME_encode_def c by (simp add: cname_payload_def)
qed

interpretation any_rdata: rdata_class rdata_encode rdata_payload rdata_ok
proof unfold_locales
  fix r and bufLen :: "32 word" and out ob
  assume "rdata_ok r" "length (rdata_payload r) \<le> unat (scast bufLen :: 64 word)"
    "out + length (rdata_payload r) \<le> length (ob :: byte list)"
  then show "rdata_encode r ob out bufLen = ret (length (rdata_payload r), patch ob out (rdata_payload r))"
    by (cases r) (simp_all add: addr_rdata.encode_payload alias_rdata.encode_payload)
qed

section \<open>Dotted addresses\<close>

definition dotted_quad :: "byte list \<Rightarrow> byte list" where
  "dotted_quad a = dotted (map (\<lambda>b. dec_digits (unat b)) a)"

lemma parse_addr_step:
  assumes "mem = pre @ p @ c # rest" and "length pre = ptr" and "c = dot \<or> c = 0"
    and "dot \<notin> set p" and "0 \<notin> set p" and "length p \<le> 3" and "length temp = 4"
  obtains temp' where "length temp' = 4"
    and "parse_addr (Suc n) mem ptr temp addr =
      parse_addr n mem (ptr + (length p + 1)) temp' (addr[4 - Suc n := word_of_int (atoi p)])"
proof -
  let ?temp = "p @ 0 # drop (length p + 1) temp"
  have d: "drop ptr mem = p @ c # rest" using assms by simp
  have s: "bind_run (strchr mem ptr dot) (\<lambda>found. case found of Some p \<Rightarrow> ret (Some p) | None \<Rightarrow> strchr mem ptr 0) =
      ret (Some (ptr + length p))"
    using assms(3-5) unfolding strchr_def d
    by (auto simp: strchr_list_found strchr_list_end)
  have r: "rdn mem ptr (length p) = ret p" using assms by (simp add: rdn_def)
  have m: "memcpy_s temp 0 4 p = ret (p @ drop (length p) temp)"
    using assms by (subst memcpy_s_fits) simp_all
  have z: "wr (p @ drop (length p) temp) (length p) [0] = ret ?temp"
    using assms by (subst wr_append) simp_all
  have "cstr ?temp = p" using assms(5) by (simp add: cstr_def takeWhile_append)
  with s r m z have "parse_addr (Suc n) mem ptr temp addr =
      parse_addr n mem (ptr + (length p + 1)) ?temp (addr[4 - Suc n := word_of_int (atoi p)])"
    by (simp add: Let_def bind_run_assoc [symmetric])
  moreover have "length ?temp = 4" using assms(6,7) by simp
  ultimately show ?thesis using that by blast
qed

lemma parse_addr_parts:
  assumes "parts \<noteq> []" and "\<forall>p\<in>set parts. dot \<notin> set p \<and> 0 \<notin> set p \<and> length p \<le> 3"
    and "mem = pre @ dotted parts @ 0 # post" and "length pre = ptr" and "length temp = 4"
    and "length done + length parts = 4" and "length addr = length parts"
  shows "parse_addr (length parts) mem ptr temp (done @ addr) =
    ret (done @ map (\<lambda>p. word_of_int (atoi p)) parts)"
  using assms
proof (induction parts arbitrary: pre ptr temp "done" addr rule: dotted.induct)
  case (2 l)
  then obtain b where b: "addr = [b]" by (cases addr) auto
  from 2 have "length done = 3" by simp
  moreover obtain temp' where "parse_addr (Suc 0) mem ptr temp (done @ addr) =
      parse_addr 0 mem (ptr + (length l + 1)) temp' ((done @ addr)[4 - Suc 0 := word_of_int (atoi l)])"
    using 2 by (rule_tac parse_addr_step [of mem pre l 0 post ptr temp 0 "done @ addr"]) auto
  ultimately show ?case using b by (simp add: list_update_append)
next
  case (3 l k ls)
  then obtain b bs where b: "addr = b # bs" by (cases addr) auto
  let ?rest = "dotted (k # ls)"
  have mem: "mem = (pre @ l @ [dot]) @ ?rest @ 0 # post" using 3 by simp
  obtain temp' where t: "length temp' = 4" "parse_addr (Suc (length (k # ls))) mem ptr temp (done @ addr) =
      parse_addr (length (k # ls)) mem (ptr + (length l + 1)) temp'
        ((done @ addr)[4 - Suc (length (k # ls)) := word_of_int (atoi l)])"
    using 3 by (rule_tac parse_addr_step [of mem pre l dot "?rest @ 0 # post" ptr temp "length (k # ls)" "done @ addr"]) auto
  have i: "4 - Suc (length (k # ls)) = length done" using 3 by simp
  have "parse_addr (length (k # ls)) mem (ptr + (length l + 1)) temp' ((done @ [word_of_int (atoi l)]) @ bs) =
      ret ((done @ [word_of_int (atoi l)]) @ map (\<lambda>p. word_of_int (atoi p)) (k # ls))"
    using 3 b t mem by (intro "3.IH" [OF _ _ mem]) auto
  with t i b show ?case by simp
qed simp

lemma dec_digits_part: "dot \<notin> set (dec_digits n) \<and> 0 \<notin> set (dec_digits n)"
  using dec_digits_are_digits [of n] is_digit_facts by blast

lemma dec_digits_byte: "length (dec_digits (unat (b :: byte))) \<le> 3" "0 < length (dec_digits (unat b))"
  using length_dec_digits_byte [OF unat_byte_less [of b]] by simp_all

lemma atoi_byte: "word_of_int (atoi (dec_digits (unat b))) = (b :: byte)"
proof -
  have "unat b < 2 ^ 31" using unat_byte_less [of b] by simp
  then show ?thesis by (simp add: atoi_dec_digits)
qed

lemma length_dotted_le: "ls \<noteq> [] \<Longrightarrow> \<forall>l\<in>set ls. length l \<le> 3 \<Longrightarrow> length (dotted ls) + 1 \<le> 4 * length ls"
  by (induction ls rule: dotted.induct) auto

lemma dotted_quad_facts:
  assumes "length a = 4"
  shows "length (dotted_quad a) \<le> 15" and "0 \<notin> set (dotted_quad a)"
proof -
  let ?ls = "map (\<lambda>b. dec_digits (unat b)) a"
  have "?ls \<noteq> []" using assms by auto
  then show "length (dotted_quad a) \<le> 15"
    using length_dotted_le [of ?ls] dec_digits_byte(1) assms by (simp add: dotted_quad_def)
  show "0 \<notin> set (dotted_quad a)"
    unfolding dotted_quad_def using dec_digits_part by (intro zero_notin_dotted) auto
qed

lemma parse_dotted_quad:
  assumes "length a = 4"
  shows "parse_addr 4 (pre @ dotted_quad a @ 0 # post) (length pre) (fresh junk 4) (fresh junk 4) = ret a"
proof -
  let ?ls = "map (\<lambda>b. dec_digits (unat b)) a"
  have "parse_addr (length ?ls) (pre @ dotted_quad a @ 0 # post) (length pre) (fresh junk 4) ([] @ fresh junk 4) =
      ret ([] @ map (\<lambda>p. word_of_int (atoi p)) ?ls)"
    using assms dec_digits_part dec_digits_byte
    by (intro parse_addr_parts [where pre = pre and post = post]) (auto simp: dotted_quad_def)
  with assms show ?thesis by (simp add: atoi_byte comp_def)
qed

subsection \<open>Writing the dotted form\<close>

lemma format_addr_step:
  assumes "n \<le> 4" and "4 - Suc n < 3" and "w = 16 - remLen" and "length pre = w" and "length r = remLen" and "remLen \<le> 16"
    and "2 * length ds + 2 \<le> remLen" and "ds = dec_digits (unat (addr ! (4 - Suc n)))"
  shows "format_addr (Suc n) addr (pre @ r) w remLen =
    format_addr n addr ((pre @ ds @ [dot]) @ 0 # drop (length ds + 2) r) (w + length ds + 1) (remLen - (length ds + 1))"
proof -
  let ?v = "unat (addr ! (4 - Suc n))"
  have len: "remLen - length ds = (if ?v > 99 then remLen - 3 else if ?v > 9 then remLen - 2 else remLen - 1)"
    using length_dec_digits_byte [OF unat_byte_less [of "addr ! (4 - Suc n)"]] assms(8) by simp
  have i: "itoa_s ?v (pre @ r) w remLen = ret (pre @ ds @ 0 # drop (length ds + 1) r)"
    using assms wr_append [of pre w "ds @ [0]" r] by (simp add: itoa_s_def)
  have z: "strlen (pre @ ds @ 0 # drop (length ds + 1) r) w = ret (length ds)"
    using assms(4,8) dec_digits_part by (intro strlen_at) auto
  have "wr ((pre @ ds) @ 0 # drop (length ds + 1) r) (w + length ds) [dot, 0] =
      ret ((pre @ ds) @ [dot, 0] @ drop (length [dot, 0]) (0 # drop (length ds + 1) r))"
    using assms by (intro wr_append) auto
  then have c: "strcat_s (pre @ ds @ 0 # drop (length ds + 1) r) w (remLen - length ds) [dot] =
      ret (pre @ ds @ dot # 0 # drop (length ds + 2) r)"
    using assms z by (simp add: strcat_s_def)
  have p: "16 - (remLen - Suc (length ds)) = Suc (w + length ds)"
    using assms by simp
  show ?thesis
    unfolding format_addr.simps Let_def len [symmetric] i using c p assms(2) by simp
qed

lemma format_addr_last:
  assumes "w = 16 - remLen" and "length pre = w" and "length r = remLen" and "remLen \<le> 16"
    and "length ds < remLen" and "ds = dec_digits (unat (addr ! 3))"
  shows "format_addr 1 addr (pre @ r) w remLen =
    ret (pre @ ds @ 0 # drop (length ds + 1) r, w + length ds)"
proof -
  let ?v = "unat (addr ! 3)"
  have len: "remLen - length ds = (if ?v > 99 then remLen - 3 else if ?v > 9 then remLen - 2 else remLen - 1)"
    using length_dec_digits_byte [OF unat_byte_less [of "addr ! 3"]] assms(6) by simp
  have i: "itoa_s ?v (pre @ r) w remLen = ret (pre @ ds @ 0 # drop (length ds + 1) r)"
    using assms wr_append [of pre w "ds @ [0]" r] by (simp add: itoa_s_def)
  have p: "16 - (remLen - length ds) = w + length ds" using assms by simp
  show ?thesis
    using i p len by (auto simp: Let_def)
qed

lemma format_addr_rest:
  assumes "0 < n" and "n \<le> 4" and "length a = 4" and "length pre = 16 - remLen" and "length r = remLen"
    and "remLen \<le> 16" and "4 * n \<le> remLen"
  shows "\<exists>rest. format_addr n a (pre @ r) (16 - remLen) remLen =
      ret (pre @ dotted_quad (drop (4 - n) a) @ 0 # rest, 16 - remLen + length (dotted_quad (drop (4 - n) a))) \<and>
    length (pre @ dotted_quad (drop (4 - n) a) @ 0 # rest) = 16"
  using assms
proof (induction n arbitrary: pre r remLen)
  case (Suc n)
  let ?b = "a ! (4 - Suc n)" and ?ds = "dec_digits (unat (a ! (4 - Suc n)))"
  have d: "length ?ds \<le> 3" "0 < length ?ds" by (rule dec_digits_byte)+
  have dr: "drop (4 - Suc n) a = ?b # drop (4 - n) a"
    using Suc.prems(2,3) Cons_nth_drop_Suc [of "4 - Suc n" a] Suc_diff_le [of n 3] by simp
  show ?case
  proof (cases "n = 0")
    case True
    have "drop (4 - Suc n) a = [?b]" using dr Suc.prems(3) True by simp
    then have q: "dotted_quad (drop (4 - Suc n) a) = ?ds" by (simp add: dotted_quad_def)
    have "format_addr 1 a (pre @ r) (16 - remLen) remLen =
        ret (pre @ ?ds @ 0 # drop (length ?ds + 1) r, 16 - remLen + length ?ds)"
      using Suc.prems True d by (intro format_addr_last) simp_all
    moreover have "length (pre @ ?ds @ 0 # drop (length ?ds + 1) r) = 16"
      using Suc.prems True d by simp
    ultimately show ?thesis unfolding q using True by auto
  next
    case False
    let ?pre = "pre @ ?ds @ [dot]" and ?r = "0 # drop (length ?ds + 2) r" and ?m = "remLen - (length ?ds + 1)"
    have "drop (4 - n) a \<noteq> []" using False Suc.prems(3) by simp
    then have q: "dotted_quad (drop (4 - Suc n) a) = ?ds @ dot # dotted_quad (drop (4 - n) a)"
      unfolding dr by (simp add: dotted_quad_def dotted_Cons)
    have s: "format_addr (Suc n) a (pre @ r) (16 - remLen) remLen =
        format_addr n a (?pre @ ?r) (16 - remLen + length ?ds + 1) ?m"
      using Suc.prems False d by (intro format_addr_step) simp_all
    have m: "16 - remLen + length ?ds + 1 = 16 - ?m" 
    proof -
      have "16 - m + k + 1 = 16 - (m - (k + 1))" if "k + 1 \<le> m" "m \<le> 16" for m k :: nat using that by arith
      then show ?thesis using Suc.prems(6,7) d(1) by simp
    qed
    have "\<exists>rest. format_addr n a (?pre @ ?r) (16 - ?m) ?m =
        ret (?pre @ dotted_quad (drop (4 - n) a) @ 0 # rest, 16 - ?m + length (dotted_quad (drop (4 - n) a))) \<and>
        length (?pre @ dotted_quad (drop (4 - n) a) @ 0 # rest) = 16"
      using Suc.prems False d by (intro Suc.IH) simp_all
    then show ?thesis unfolding s q m [symmetric] by (simp add: add.assoc)
  qed
qed simp

lemma format_dotted_quad:
  assumes "length a = 4" and "length v = 16"
  obtains rest where "format_addr 4 a v 0 16 = ret (dotted_quad a @ 0 # rest, length (dotted_quad a))"
    and "length (dotted_quad a @ 0 # rest) = 16"
  using format_addr_rest [of 4 a "[]" 16 v] assms by auto

lemma DNSRDataA_decode_4:
  assumes "buffer + 4 \<le> length mem" and "a = take 4 (drop buffer mem)"
  obtains rest where "DNSRDataA_decode junk mem buffer 4 = ret \<lparr>a_addr = a, a_value = dotted_quad a @ 0 # rest\<rparr>"
    and "length (dotted_quad a @ 0 # rest) = 16"
proof -
  have len: "length a = 4" using assms by simp
  obtain v where v: "wr (fresh junk 16) 0 [0] = ret v" "length v = 16"
    by (simp add: wr_def)
  obtain rest where f: "format_addr 4 a v 0 16 = ret (dotted_quad a @ 0 # rest, length (dotted_quad a))"
    and l: "length (dotted_quad a @ 0 # rest) = 16"
    using format_dotted_quad [OF len v(2)] .
  have "memcpy_s (fresh junk 4) 0 4 a = ret a"
    using len by (subst memcpy_s_fits) simp_all
  moreover have "rdn mem buffer 4 = ret a" using assms by (simp add: rdn_def)
  moreover have "wr (dotted_quad a @ 0 # rest) (length (dotted_quad a)) [0] = ret (dotted_quad a @ 0 # rest)"
    by (subst wr_append) simp_all
  ultimately have "DNSRDataA_decode junk mem buffer 4 = ret \<lparr>a_addr = a, a_value = dotted_quad a @ 0 # rest\<rparr>"
    using v f by (simp add: DNSRDataA_decode_def)
  with l show ?thesis using that by blast
qed

lemma DNSRDataA_ctor_quad:
  assumes "length a = 4"
  obtains rest where "DNSRDataA_ctor junk (pre @ dotted_quad a @ 0 # post) (length pre) =
      ret \<lparr>a_addr = a, a_value = dotted_quad a @ 0 # rest\<rparr>"
    and "length (dotted_quad a @ 0 # rest) = 16"
proof -
  let ?rest = "drop (length (dotted_quad a) + 1) (fresh junk 16)"
  have "strcpy_s (fresh junk 16) (pre @ dotted_quad a @ 0 # post) (length pre) = ret (dotted_quad a @ 0 # ?rest)"
    using dotted_quad_facts [OF assms] by (simp add: strcpy_s_def strlen_at)
  then have "DNSRDataA_ctor junk (pre @ dotted_quad a @ 0 # post) (length pre) =
      ret \<lparr>a_addr = a, a_value = dotted_quad a @ 0 # ?rest\<rparr>"
    using parse_dotted_quad [OF assms] by (simp add: DNSRDataA_ctor_def)
  moreover have "length (dotted_quad a @ 0 # ?rest) = 16"
    using dotted_quad_facts(1) [OF assms] by simp
  ultimately show ?thesis using that by blast
qed

lemma cstr_quad: "length a = 4 \<Longrightarrow> cstr (dotted_quad a @ 0 # rest) = dotted_quad a"
  using dotted_quad_facts(2) by (simp add: cstr_def takeWhile_append)

section \<open>Properties\<close>

text \<open>
  C18. Reading a four-byte address record gives its bytes and their dotted decimal text, which fits
  the sixteen-byte array; constructing an address record from that text, as the cache does with
  the column it stored, gives the same four bytes and the same text back.
\<close>

theorem address_text_round_trip:
  assumes "buffer + 4 \<le> length mem"
  shows "\<exists>r r'. DNSRDataA_decode junk mem buffer 4 = ret r \<and>
    a_addr r = take 4 (drop buffer mem) \<and> cstr (a_value r) = dotted_quad (a_addr r) \<and>
    DNSRDataA_ctor junk' (a_value r) 0 = ret r' \<and>
    a_addr r' = a_addr r \<and> cstr (a_value r') = cstr (a_value r)"
proof -
  let ?a = "take 4 (drop buffer mem)"
  have len: "length ?a = 4" using assms by simp
  obtain rest where d: "DNSRDataA_decode junk mem buffer 4 = ret \<lparr>a_addr = ?a, a_value = dotted_quad ?a @ 0 # rest\<rparr>"
    using DNSRDataA_decode_4 [OF assms refl] .
  obtain rest' where "DNSRDataA_ctor junk' ([] @ dotted_quad ?a @ 0 # rest) (length ([] :: byte list)) =
      ret \<lparr>a_addr = ?a, a_value = dotted_quad ?a @ 0 # rest'\<rparr>"
    using DNSRDataA_ctor_quad [OF len] .
  with d show ?thesis using cstr_quad [OF len] by simp
qed

theorem address_text_round_trip_witness:
  "\<exists>r r'. DNSRDataA_decode (\<lambda>_. 7) [10, 0, 255, 1] 0 4 = ret r \<and>
    a_addr r = take 4 (drop 0 [10, 0, 255, 1]) \<and> cstr (a_value r) = dotted_quad (a_addr r) \<and>
    DNSRDataA_ctor (\<lambda>_. 9) (a_value r) 0 = ret r' \<and>
    a_addr r' = a_addr r \<and> cstr (a_value r') = cstr (a_value r)"
  by (rule address_text_round_trip) simp

text \<open>
  An address record whose RDLENGTH is more than four bytes ends the process, in the parameter
  check of \<open>memcpy_s\<close>, whatever the bytes are.
\<close>

theorem long_address_aborts:
  assumes "4 < n" and "n < 2 ^ 16"
  shows "DNSRDataA_decode junk mem buffer (of_nat n) = crash Invalid_Parameter"
proof -
  have "unat (scast (of_nat n :: 32 word) :: 64 word) = n"
    using assms(2) by (intro int_as_size) simp
  with assms(1) show ?thesis by (simp add: DNSRDataA_decode_def)
qed

theorem long_address_aborts_witness:
  "DNSRDataA_decode (\<lambda>_. 0) [1, 2, 3, 4, 5] 0 (of_nat 5) = crash Invalid_Parameter"
  by (rule long_address_aborts) simp_all

text \<open>
  A part of a dotted address with four characters is copied into the four-byte array and its
  terminator is written behind the array; a longer part ends the process in \<open>memcpy_s\<close>.
\<close>

theorem long_address_part:
  assumes "mem = p @ c # rest" and "c = dot \<or> c = 0" and "dot \<notin> set p" and "0 \<notin> set p" and "4 \<le> length p"
    and "strlen mem 0 = ret n" and "n \<le> 15"
  shows "DNSRDataA_ctor junk mem 0 =
    crash (if length p = 4 then Write_Out_Of_Bounds else Invalid_Parameter)"
proof -
  have s: "bind_run (strchr mem 0 dot) (\<lambda>found. case found of Some p \<Rightarrow> ret (Some p) | None \<Rightarrow> strchr mem 0 0) =
      ret (Some (length p))"
    using assms(1-4) by (auto simp: strchr_def strchr_list_found strchr_list_end)
  have r: "rdn mem 0 (length p) = ret p" using assms(1) by (simp add: rdn_def)
  have "bind_run (memcpy_s (fresh junk 4) 0 4 p) (\<lambda>t. bind_run (wr t (length p) [0]) f) =
      crash (if length p = 4 then Write_Out_Of_Bounds else Invalid_Parameter)" for f :: "byte list \<Rightarrow> byte list run"
    using assms(5) by (auto simp: memcpy_s_def wr_def)
  with s r have "parse_addr (Suc k) mem 0 (fresh junk 4) (fresh junk 4) =
      crash (if length p = 4 then Write_Out_Of_Bounds else Invalid_Parameter)" for k
    by (simp add: Let_def bind_run_assoc [symmetric])
  from this [of 3] have "parse_addr 4 mem 0 (fresh junk 4) (fresh junk 4) =
      crash (if length p = 4 then Write_Out_Of_Bounds else Invalid_Parameter)" by simp
  moreover have "\<exists>v. strcpy_s (fresh junk 16) mem 0 = ret v"
    using assms(6,7) by (simp add: strcpy_s_def)
  ultimately show ?thesis by (auto simp: DNSRDataA_ctor_def)
qed

theorem long_address_part_witness:
  "DNSRDataA_ctor (\<lambda>_. 0) (bytes_of ''0001'' @ dot # bytes_of ''2.3.4'' @ [0]) 0 =
    crash (if length (bytes_of ''0001'') = 4 then Write_Out_Of_Bounds else Invalid_Parameter)"
  using long_address_part [OF refl, of dot "bytes_of ''0001''" "bytes_of ''2.3.4'' @ [0]" 10]
  by (simp add: strlen_def)

end
