(* ===== verification/ResourceRecord.thy ===== *)
theory ResourceRecord
  imports RData
begin

text \<open>
  \<open>src/DNS/DNSResourceRecord.h\<close> and \<open>.cpp\<close>: a resource record, its encoding with name compression
  and its decoding. The RDATA pointer of a record may be null, or dangling where the caller has
  deleted the object it points to.
\<close>

section \<open>The fixed part of a record\<close>

record FixedRRInfo =
  fi_type :: "16 word"
  fi_rclass :: "16 word"
  fi_ttl :: "32 word"
  fi_rdlength :: "16 word"

text \<open>The first ten bytes of the structure, which the code copies; two bytes of padding follow.\<close>

definition info_bytes :: "FixedRRInfo \<Rightarrow> byte list" where
  "info_bytes i = le16 (fi_type i) @ le16 (fi_rclass i) @ le32 (fi_ttl i) @ le16 (fi_rdlength i)"

definition info_of_bytes :: "byte list \<Rightarrow> FixedRRInfo" where
  "info_of_bytes b = \<lparr>fi_type = of_le16 (b ! 0) (b ! 1), fi_rclass = of_le16 (b ! 2) (b ! 3),
     fi_ttl = of_le32 (b ! 4) (b ! 5) (b ! 6) (b ! 7), fi_rdlength = of_le16 (b ! 8) (b ! 9)\<rparr>"

text \<open>The four assignments that bring the fields to or from network byte order.\<close>

definition swap_info :: "FixedRRInfo \<Rightarrow> FixedRRInfo" where
  "swap_info i = \<lparr>fi_type = htons (fi_type i), fi_rclass = htons (fi_rclass i),
     fi_ttl = htonl (fi_ttl i), fi_rdlength = htons (fi_rdlength i)\<rparr>"

section \<open>Records\<close>

datatype rdata_ptr = Null | Dangling | Live DNSRData

record DNSResourceRecord =
  rr_name :: "byte list"
  rr_info :: FixedRRInfo
  rr_rdata :: rdata_ptr
  rr_decoded :: bool

type_synonym pointer_map = "byte list \<rightharpoonup> 16 word"

text \<open>The virtual call \<open>rdata->encode\<close> through the pointer.\<close>

fun encode_through :: "rdata_ptr \<Rightarrow> byte list \<Rightarrow> nat \<Rightarrow> 32 word \<Rightarrow> (nat \<times> byte list) run" where
  "encode_through Null ob out bufLen = crash Null_Dereference"
| "encode_through Dangling ob out bufLen = crash Use_After_Free"
| "encode_through (Live r) ob out bufLen = rdata_encode r ob out bufLen"

text \<open>The name of the record: a compression pointer where one is known, else its labels.\<close>

definition encode_rr_name :: "byte list \<Rightarrow> byte list \<Rightarrow> nat \<Rightarrow> 64 word \<Rightarrow> pointer_map \<Rightarrow> (byte list \<times> nat \<times> 64 word) run" where
  "encode_rr_name name ob out bufLen pointerLocations =
     (case pointerLocations (cstr name) of
        Some loc \<Rightarrow>
          bind_run (memcpy_s ob out bufLen (le16 (htons (loc OR 0xC000)))) (\<lambda>ob.
            ret (ob, out + 2, bufLen - 2))
      | None \<Rightarrow>
          bind_run (encodeName name ob out bufLen) (\<lambda>(n, ob).
            ret (ob, out + n, bufLen - of_nat n)))"

text \<open>
  \<open>size_t DNSResourceRecord::encode(char *outputBuffer, size_t bufLen, map<string, uint16_t> &pointerLocations)\<close>,
  writing at \<open>out\<close>. \<open>remainingLen\<close> is an \<open>__int64\<close> that the two checked copies read as a \<open>size_t\<close>;
  the RDATA is given \<open>(int)remainingLen - 10\<close>. The fields of the record are left in network order.
\<close>

definition rr_encode :: "DNSResourceRecord \<Rightarrow> byte list \<Rightarrow> nat \<Rightarrow> 64 word \<Rightarrow> pointer_map \<Rightarrow>
    (64 word \<times> byte list \<times> DNSResourceRecord) run" where
  "rr_encode rr ob out bufLen pointerLocations =
     bind_run (encode_rr_name (rr_name rr) ob out bufLen pointerLocations) (\<lambda>(ob, ptr, remainingLen).
     bind_run (encode_through (rr_rdata rr) ob (ptr + 10) (ucast remainingLen - 10)) (\<lambda>(rdlength, ob).
     let info = swap_info (rr_info rr\<lparr>fi_rdlength := of_nat rdlength\<rparr>);
         remainingLen = remainingLen - of_nat rdlength in
     bind_run (memcpy_s ob ptr remainingLen (info_bytes info)) (\<lambda>ob.
     let remainingLen = remainingLen - 10 in
       ret (bufLen - remainingLen, ob, rr\<lparr>rr_info := info\<rparr>))))"

text \<open>
  \<open>DNSResourceRecord DNSResourceRecord::decode(char *buffer, DNSPacket *packet, size_t bufLen, char **bufferAfterRecord)\<close>:
  \<open>buffer\<close> is an offset into the packet \<open>pm\<close>; \<open>bufLen\<close> is not used. The result is the record and
  the offset behind it.
\<close>

definition rr_decode :: "(nat \<Rightarrow> byte) \<Rightarrow> byte list \<Rightarrow> nat \<Rightarrow> (DNSResourceRecord \<times> nat) run" where
  "rr_decode junk pm buffer =
     bind_run (rd pm buffer) (\<lambda>b0.
     let pointer = is_pointer b0 in
     bind_run (if pointer
        then bind_run (rd pm (buffer + 1)) (\<lambda>b1. ret (unat (pointer_value b0 b1)))
        else ret buffer) (\<lambda>srcLoc.
     if srcLoc > MAX_DNS_PACKET_LENGTH then raise (Exception ''Tried to access out of packet bounds'')
     else
     bind_run (decodeName pm srcLoc pm (fresh junk (MAX_DNS_NAME_LENGTH + 1)) (MAX_DNS_NAME_LENGTH + 1)) (\<lambda>(nameBytes, name).
     let srcLoc = (if pointer then buffer + 2 else srcLoc + nameBytes) in
     bind_run (rdn pm srcLoc 10) (\<lambda>bytes.
     let info = swap_info (info_of_bytes bytes);
         srcLoc = srcLoc + 10 in
     bind_run (if fi_type info = type_value TYPE_A
          then bind_run (DNSRDataA_decode junk pm srcLoc (ucast (fi_rdlength info))) (\<lambda>r. ret (Live (RDataA r)))
        else if fi_type info = type_value TYPE_CNAME
          then bind_run (DNSRDataCNAME_decode junk pm srcLoc) (\<lambda>r. ret (Live (RDataCNAME r)))
        else ret Null) (\<lambda>rdata.
       ret (\<lparr>rr_name = name, rr_info = info, rr_rdata = rdata, rr_decoded = True\<rparr>,
            srcLoc + unat (fi_rdlength info)))))))"

section \<open>Layout of the fixed part\<close>

lemma of_le16_le16_list [simp]: "of_le16 (le16 w ! 0) (le16 w ! 1) = w"
  by (simp add: le16_def of_le16_le16)

lemma le16_of_le16 [simp]: "le16 (of_le16 a b) = [a, b]"
  by (auto simp: le16_def of_le16_def bit_simps bit_beyond intro!: bit_word_eqI)

lemma length_le [simp]: "length (le16 w) = 2" "length (le32 v) = 4"
  by (simp_all add: le16_def le32_def)

lemma bit_htonl:
  "bit (htonl w) n \<longleftrightarrow> (if n < 8 then bit w (n + 24) else if n < 16 then bit w (n + 8)
     else if n < 24 then bit w (n - 8) else n < 32 \<and> bit w (n - 24))"
proof -
  have m: "(0xFF0000 :: 32 word) = push_bit 16 (mask 8)" "(0xFF00 :: 32 word) = push_bit 8 (mask 8)"
    by (simp_all add: mask_eq_exp_minus_1 push_bit_eq_mult)
  have "n - 16 < 8 \<longleftrightarrow> n < 24" "n - 8 < 8 \<longleftrightarrow> n < 16" if "16 \<le> n \<or> 8 \<le> n" using that by auto
  then show ?thesis
    unfolding htonl_def m by (auto simp: bit_simps bit_beyond add.commute)
qed

lemma htonl_htonl [simp]: "htonl (htonl w) = w"
  by (rule bit_word_eqI) (auto simp: bit_htonl)

lemma le32_htonl: "le32 (htonl w) = be32 w"
  by (auto simp: le32_def be32_def bit_simps bit_htonl bit_beyond add.commute intro!: bit_word_eqI)

lemma swap_info_swap [simp]: "swap_info (swap_info i) = i"
  by (simp add: swap_info_def)

lemma length_info_bytes [simp]: "length (info_bytes i) = 10"
  by (simp add: info_bytes_def)

lemma length_10_cases:
  assumes "length b = 10"
  shows "b = [b ! 0, b ! 1, b ! 2, b ! 3, b ! 4, b ! 5, b ! 6, b ! 7, b ! 8, b ! 9]"
  using assms by (auto simp: list_eq_iff_nth_eq less_Suc_eq numeral_eq_Suc)

interpretation rrinfo: fixed_layout 10 info_bytes info_of_bytes
proof unfold_locales
  fix i :: FixedRRInfo
  show "info_of_bytes (info_bytes i) = i"
    by (simp add: info_of_bytes_def info_bytes_def le16_def le32_def of_le16_le16)
next
  fix b :: "byte list"
  assume "length b = 10"
  from length_10_cases [OF this] show "info_bytes (info_of_bytes b) = b"
    by (simp add: info_of_bytes_def info_bytes_def)
qed simp

text \<open>The fixed part as the wire has it: big-endian type, class, time to live and length.\<close>

lemma info_bytes_swap:
  "info_bytes (swap_info i) = be16 (fi_type i) @ be16 (fi_rclass i) @ be32 (fi_ttl i) @ be16 (fi_rdlength i)"
  by (simp add: info_bytes_def swap_info_def le16_htons le32_htonl)

section \<open>What the encoder writes\<close>

definition name_wire :: "byte list \<Rightarrow> pointer_map \<Rightarrow> byte list" where
  "name_wire name ptrs = (case ptrs (cstr name) of
     Some loc \<Rightarrow> be16 (loc OR 0xC000) | None \<Rightarrow> wire (split_dots (cstr name)) @ [0])"

definition name_ok :: "byte list \<Rightarrow> bool" where
  "name_ok name \<longleftrightarrow> 0 \<in> set name \<and> (\<forall>l\<in>set (split_dots (cstr name)). length l < 256)"

text \<open>The record on the wire, RFC 1035 section 4.1.3.\<close>

definition record_wire :: "byte list \<Rightarrow> FixedRRInfo \<Rightarrow> byte list \<Rightarrow> byte list" where
  "record_wire nm i payload = nm @ be16 (fi_type i) @ be16 (fi_rclass i) @ be32 (fi_ttl i) @
     be16 (of_nat (length payload)) @ payload"

lemma length_record_wire [simp]: "length (record_wire nm i p) = length nm + 10 + length p"
  by (simp add: record_wire_def)

lemma size_of_int:
  assumes "- (2 ^ 31) \<le> z" and "z < 2 ^ 31"
  shows "unat (scast (word_of_int z :: 32 word) :: 64 word) = nat (z mod 2 ^ 64)"
proof -
  have "sint (word_of_int z :: 32 word) = z"
    using assms by (simp add: signed_of_int signed_take_bit_int_eq_self)
  then have "(scast (word_of_int z :: 32 word) :: 64 word) = word_of_int z"
    by (simp add: scast_eq)
  then show ?thesis by (simp add: unat_eq_nat_uint uint_word_of_int)
qed

lemma encode_rr_name_fits:
  assumes "name_ok name" and "length (name_wire name ptrs) \<le> unat bufLen"
    and "out + length (name_wire name ptrs) \<le> length ob"
  shows "encode_rr_name name ob out bufLen ptrs =
    ret (patch ob out (name_wire name ptrs), out + length (name_wire name ptrs),
         bufLen - of_nat (length (name_wire name ptrs)))"
proof (cases "ptrs (cstr name)")
  case None
  obtain post where n: "name = cstr name @ 0 # post"
    using assms(1) cstr_split unfolding name_ok_def by blast
  have "encodeName (cstr name @ 0 # post) ob out bufLen =
      ret (length (cstr name) + 2, patch ob out (wire (split_dots (cstr name)) @ [0]))"
    using assms None label_le_wire [of _ "split_dots (cstr name)"]
    by (intro encodeName_string) (fastforce simp: name_ok_def name_wire_def)+
  then have "encodeName name ob out bufLen =
      ret (length (cstr name) + 2, patch ob out (wire (split_dots (cstr name)) @ [0]))"
    using n by simp
  with None show ?thesis by (simp add: encode_rr_name_def name_wire_def)
next
  case (Some loc)
  with assms show ?thesis
    by (simp add: encode_rr_name_def name_wire_def le16_htons memcpy_s_patch)
qed

lemma ucast_word_of_int: "(ucast (word_of_int z :: 64 word) :: 32 word) = word_of_int z"
  by (rule bit_word_eqI) (auto simp: bit_simps)

lemma patch_behind:
  "i + length a + length b \<le> length m \<Longrightarrow> patch (patch m i a) (i + length a) b = patch m i (a @ b)"
  by (simp add: patch_def add.commute add.left_commute)

text \<open>
  What remains after the name: \<open>z\<close> is \<open>remainingLen\<close> as an integer. Both sizes that are passed on are
  read as \<open>size_t\<close>, so a negative one is a size that nothing exceeds.
\<close>

definition as_size :: "int \<Rightarrow> nat" where
  "as_size z = nat (z mod 2 ^ 64)"

lemma as_size_simps: "0 \<le> z \<Longrightarrow> z < 2 ^ 31 \<Longrightarrow> as_size z = nat z"
  "- (2 ^ 31) \<le> z \<Longrightarrow> z < 0 \<Longrightarrow> 2 ^ 31 \<le> as_size z"
proof -
  show "as_size z = nat z" if "0 \<le> z" "z < 2 ^ 31" using that by (simp add: as_size_def)
  show "2 ^ 31 \<le> as_size z" if "- (2 ^ 31) \<le> z" "z < 0"
  proof -
    have "z mod 2 ^ 64 = z + 2 ^ 64"
      using that by (intro int_mod_pos_eq [where q = "- 1"]) simp_all
    then show ?thesis using that by (simp add: as_size_def)
  qed
qed

lemma rr_encode_after_name:
  assumes "name_ok (rr_name rr)" and "nw = name_wire (rr_name rr) ptrs" and "L < 2 ^ 31"
    and "length nw \<le> L" and "out + length nw \<le> length ob" and "z = int L - int (length nw)"
    and "rr_rdata rr = Live r" and "rdata_ok r" and "p = rdata_payload r"
    and "length p \<le> as_size (z - 10)" and "out + length nw + 10 + length p \<le> length ob"
  shows "rr_encode rr ob out (of_nat L) ptrs =
    (if as_size (z - int (length p)) < 10 then crash Invalid_Parameter
     else ret (of_nat (length nw + 10 + length p), patch ob out (record_wire nw (rr_info rr) p),
       rr\<lparr>rr_info := swap_info (rr_info rr\<lparr>fi_rdlength := of_nat (length p)\<rparr>)\<rparr>))"
proof -
  let ?ob1 = "patch ob out nw" and ?ptr = "out + length nw"
  let ?info = "swap_info (rr_info rr\<lparr>fi_rdlength := of_nat (length p)\<rparr>)"
  have u: "unat (of_nat L :: 64 word) = L" using assms(3) by (simp add: unat_of_nat take_bit_nat_eq_self)
  have n: "encode_rr_name (rr_name rr) ob out (of_nat L) ptrs = ret (?ob1, ?ptr, word_of_int z)"
    using encode_rr_name_fits [OF assms(1), of ptrs "of_nat L" out ob] assms u by simp
  have c: "(ucast (word_of_int z :: 64 word) - 10 :: 32 word) = word_of_int (z - 10)"
    by (simp add: ucast_word_of_int)
  have "- (2 ^ 31) \<le> z - 10" "z - 10 < 2 ^ 31" using assms(3,4,6) by simp_all
  then have s: "unat (scast (word_of_int (z - 10) :: 32 word) :: 64 word) = as_size (z - 10)"
    unfolding as_size_def by (rule size_of_int)
  have e: "rdata_encode r ?ob1 (?ptr + 10) (word_of_int (z - 10)) = ret (length p, patch ?ob1 (?ptr + 10) p)"
    unfolding assms(9) using assms s by (intro any_rdata.encode_payload) simp_all
  have w: "patch (patch ?ob1 (?ptr + 10) p) ?ptr (info_bytes ?info) = patch ob out (record_wire nw (rr_info rr) p)"
    using assms(11) by (simp add: patch_def record_wire_def info_bytes_swap ac_simps)
  have z: "unat (word_of_int z - of_nat (length p) :: 64 word) = as_size (z - int (length p))"
  proof -
    have "(word_of_int z - of_nat (length p) :: 64 word) = word_of_int (z - int (length p))" by simp
    then show ?thesis by (simp only: as_size_def unat_eq_nat_uint uint_word_of_int) simp
  qed
  have m: "memcpy_s (patch ?ob1 (?ptr + 10) p) ?ptr (word_of_int z - of_nat (length p)) (info_bytes ?info) =
      (if as_size (z - int (length p)) < 10 then crash Invalid_Parameter
       else ret (patch ob out (record_wire nw (rr_info rr) p)))"
    using assms(11) w z by (simp add: memcpy_s_def wr_patch) (auto simp: info_bytes_def le16_def)
  have l: "(of_nat L - (word_of_int z - of_nat (length p) - 10) :: 64 word) = of_nat (length nw + 10 + length p)"
    using assms(6) by simp
  show ?thesis
    unfolding rr_encode_def n bind_run_simps split_conv assms(7) encode_through.simps c e Let_def m
    using l by simp
qed

section \<open>What the decoder reads\<close>

lemma rr_decode_address:
  assumes "buffer + 1 < length pm"
    and "srcLoc = (if is_pointer (pm ! buffer) then unat (pointer_value (pm ! buffer) (pm ! (buffer + 1))) else buffer)"
    and "srcLoc \<le> 512"
    and "decodeName pm srcLoc pm (fresh junk 256) 256 = ret (n, nm)"
    and "after = (if is_pointer (pm ! buffer) then buffer + 2 else buffer + n)"
    and "pm = pre @ info_bytes (swap_info i) @ a @ post" and "length pre = after"
    and "fi_type i = type_value TYPE_A" and "fi_rdlength i = 4" and "length a = 4"
  obtains r where "rr_decode junk pm buffer =
      ret (\<lparr>rr_name = nm, rr_info = i, rr_rdata = Live (RDataA r), rr_decoded = True\<rparr>, after + 14)"
    and "a_addr r = a" and "cstr (a_value r) = dotted_quad a"
proof -
  have b: "rdn pm after 10 = ret (info_bytes (swap_info i))"
    using assms(6,7) by (simp add: rdn_def)
  have i: "swap_info (info_of_bytes (info_bytes (swap_info i))) = i"
    by (simp add: rrinfo.dec_enc)
  have "after + 10 + 4 \<le> length pm" "a = take 4 (drop (after + 10) pm)"
    using assms(6,7,10) by simp_all
  from DNSRDataA_decode_4 [OF this] obtain rest where
    d: "DNSRDataA_decode junk pm (after + 10) 4 = ret \<lparr>a_addr = a, a_value = dotted_quad a @ 0 # rest\<rparr>" .
  have s: "bind_run (if is_pointer (pm ! buffer)
        then bind_run (rd pm (buffer + 1)) (\<lambda>b1. ret (unat (pointer_value (pm ! buffer) b1)))
        else ret buffer) f = f srcLoc" for f :: "nat \<Rightarrow> (DNSResourceRecord \<times> nat) run"
    using assms(1,2) by (simp add: rd_in)
  have af: "(if is_pointer (pm ! buffer) then buffer + 2 else srcLoc + n) = after"
    using assms(2,5) by simp
  have "rr_decode junk pm buffer = ret (\<lparr>rr_name = nm, rr_info = i,
      rr_rdata = Live (RDataA \<lparr>a_addr = a, a_value = dotted_quad a @ 0 # rest\<rparr>), rr_decoded = True\<rparr>, after + 14)"
    using assms(1,3,4,8,9) b i d
    by (simp add: rr_decode_def rd_in Let_def s af MAX_DNS_PACKET_LENGTH_def MAX_DNS_NAME_LENGTH_def)
  from that [OF this] show ?thesis using cstr_quad [OF assms(10)] by simp
qed

lemma rr_decode_without_data:
  assumes "buffer + 1 < length pm"
    and "srcLoc = (if is_pointer (pm ! buffer) then unat (pointer_value (pm ! buffer) (pm ! (buffer + 1))) else buffer)"
    and "srcLoc \<le> 512"
    and "decodeName pm srcLoc pm (fresh junk 256) 256 = ret (n, nm)"
    and "after = (if is_pointer (pm ! buffer) then buffer + 2 else buffer + n)"
    and "take 10 (drop after pm) = info_bytes (swap_info i)"
    and "fi_type i \<noteq> type_value TYPE_A" and "fi_type i \<noteq> type_value TYPE_CNAME"
  shows "rr_decode junk pm buffer = ret (\<lparr>rr_name = nm, rr_info = i, rr_rdata = Null, rr_decoded = True\<rparr>,
    after + 10 + unat (fi_rdlength i))"
proof -
  have "length (take 10 (drop after pm)) = 10" unfolding assms(6) by simp
  then have "after + 10 \<le> length pm" by simp
  then have b: "rdn pm after 10 = ret (info_bytes (swap_info i))" using assms(6) by (simp add: rdn_def)
  have i: "swap_info (info_of_bytes (info_bytes (swap_info i))) = i"
    by (simp add: rrinfo.dec_enc)
  have s: "bind_run (if is_pointer (pm ! buffer)
        then bind_run (rd pm (buffer + 1)) (\<lambda>b1. ret (unat (pointer_value (pm ! buffer) b1)))
        else ret buffer) f = f srcLoc" for f :: "nat \<Rightarrow> (DNSResourceRecord \<times> nat) run"
    using assms(1,2) by (simp add: rd_in)
  have af: "(if is_pointer (pm ! buffer) then buffer + 2 else srcLoc + n) = after"
    using assms(2,5) by simp
  show ?thesis
    using assms(1,3,4,7,8) b i
    by (simp add: rr_decode_def rd_in Let_def s af MAX_DNS_PACKET_LENGTH_def MAX_DNS_NAME_LENGTH_def)
qed

lemma good_name_ok: "good_name s \<Longrightarrow> name_ok (s @ 0 # t)"
  by (fastforce simp: good_name_def name_ok_def cstr_append_0 wire_label_def)

lemma rr_encode_address:
  assumes "rr_name rr = s @ 0 # t" and "good_name s" and "nw = name_wire (s @ 0 # t) ptrs"
    and "rr_rdata rr = Live (RDataA r)" and "length (a_addr r) = 4"
    and "length nw + 14 \<le> L" and "L < 2 ^ 31" and "out + length nw + 14 \<le> length ob"
  shows "rr_encode rr ob out (of_nat L) ptrs =
    ret (of_nat (length nw + 14), patch ob out (record_wire nw (rr_info rr) (a_addr r)),
      rr\<lparr>rr_info := swap_info (rr_info rr\<lparr>fi_rdlength := 4\<rparr>)\<rparr>)"
proof -
  let ?z = "int L - int (length nw)"
  have z: "as_size (?z - 10) = nat (?z - 10)" "as_size (?z - 4) = nat (?z - 4)"
    using assms(6,7) by (auto intro!: as_size_simps)
  have "rr_encode rr ob out (of_nat L) ptrs =
    (if as_size (?z - int (length (a_addr r))) < 10 then crash Invalid_Parameter
     else ret (of_nat (length nw + 10 + length (a_addr r)), patch ob out (record_wire nw (rr_info rr) (a_addr r)),
       rr\<lparr>rr_info := swap_info (rr_info rr\<lparr>fi_rdlength := of_nat (length (a_addr r))\<rparr>)\<rparr>))"
  proof (rule rr_encode_after_name [where r = "RDataA r"])
    show "name_ok (rr_name rr)" using good_name_ok [OF assms(2)] assms(1) by simp
    show "length (a_addr r) \<le> as_size (?z - 10)" unfolding z assms(5) using assms(6) by simp
  qed (use assms in \<open>simp_all add: a_ok_def\<close>)
  moreover have "\<not> as_size (?z - 4) < 10" unfolding z using assms(6) by simp
  ultimately show ?thesis unfolding assms(5) by simp
qed

text \<open>The two bytes of a compression pointer.\<close>

lemma bit_less_mask: "loc < 0x4000 \<Longrightarrow> bit (loc :: 16 word) n \<Longrightarrow> n < 14"
proof (rule ccontr)
  assume a: "loc < 0x4000" "bit loc n" "\<not> n < 14"
  have "take_bit 14 loc = loc"
    using a(1) by (intro word_unat_eq_iff [THEN iffD2])
      (simp add: word_less_nat_alt unsigned_take_bit_eq take_bit_nat_eq_self)
  then have "bit (take_bit 14 loc) n" using a(2) by simp
  with a(3) show False by (simp add: bit_simps)
qed

lemma pointer_bytes:
  assumes "loc < 0x4000" and "\<not> bit loc 7"
  shows "0xC0 \<le> (ucast (drop_bit 8 (loc OR 0xC000)) :: byte)"
    and "pointer_value (ucast (drop_bit 8 (loc OR 0xC000))) (ucast (loc OR 0xC000)) = loc"
proof -
  have m: "(0xC000 :: 16 word) = push_bit 14 (mask 2)" by (simp add: mask_eq_exp_minus_1 push_bit_eq_mult)
  show "0xC0 \<le> (ucast (drop_bit 8 (loc OR 0xC000)) :: byte)"
    unfolding byte_bits_6_7 [symmetric] m by (simp add: bit_simps)
  have "\<not> bit (ucast (loc OR 0xC000) :: byte) 7" unfolding m using assms(2) by (simp add: bit_simps)
  then have "(ucast (loc OR 0xC000) :: byte) < 0x80" by (simp add: byte_bit7)
  then have "pointer_value (ucast (drop_bit 8 (loc OR 0xC000))) (ucast (loc OR 0xC000)) =
      push_bit 8 (ucast ((ucast (drop_bit 8 (loc OR 0xC000)) :: byte) AND mask 6)) OR ucast (ucast (loc OR 0xC000) :: byte)"
    by (simp add: pointer_value_low mask_eq_exp_minus_1)
  also have "\<dots> = loc"
  proof -
    have "n - 8 < 6" if "bit loc n" "\<not> n < 8" for n
      using bit_less_mask [OF assms(1) that(1)] that(2) by linarith
    then show ?thesis unfolding m by (intro bit_word_eqI) (auto simp: bit_simps)
  qed
  finally show "pointer_value (ucast (drop_bit 8 (loc OR 0xC000))) (ucast (loc OR 0xC000)) = loc" .
qed

lemma as_size_small:
  assumes "0 \<le> z" and "z < 14"
  shows "4 \<le> as_size (z - 10) \<longleftrightarrow> z < 10" and "as_size (z - 4) < 10 \<longleftrightarrow> 4 \<le> z"
proof -
  show "4 \<le> as_size (z - 10) \<longleftrightarrow> z < 10"
    using assms as_size_simps [of "z - 10"] by (cases "z < 10") auto
  show "as_size (z - 4) < 10 \<longleftrightarrow> 4 \<le> z"
    using assms as_size_simps [of "z - 4"] by (cases "z < 4") auto
qed

section \<open>Properties\<close>

text \<open>
  C7. Round trip of an address record under its full name: what \<open>encode\<close> writes at an offset of the
  packet, \<open>decode\<close> reads there as a record with the same name, type, class, time to live and
  address, the dotted text of the address as its value, and the offset behind the record is
  advanced by exactly the number of bytes \<open>encode\<close> returned.
\<close>

theorem address_record_round_trip:
  assumes "rr_name rr = s @ 0 # t" and "good_name s" and "ptrs s = None"
    and "rr_rdata rr = Live (RDataA r)" and "length (a_addr r) = 4"
    and "fi_type (rr_info rr) = type_value TYPE_A" and "length s + 16 \<le> L" and "L < 2 ^ 31"
    and "out \<le> 512" and "out + length s + 16 \<le> length pm"
  shows "\<exists>pm' rr' rr2 r2. rr_encode rr pm out (of_nat L) ptrs = ret (of_nat (length s + 16), pm', rr') \<and>
    rr_decode junk pm' out = ret (rr2, out + length s + 16) \<and> cstr (rr_name rr2) = s \<and>
    rr_info rr2 = rr_info rr\<lparr>fi_rdlength := 4\<rparr> \<and> rr_rdata rr2 = Live (RDataA r2) \<and>
    a_addr r2 = a_addr r \<and> cstr (a_value r2) = dotted_quad (a_addr r)"
proof -
  let ?nw = "wire (split_dots s) @ [0]" and ?i = "rr_info rr\<lparr>fi_rdlength := 4\<rparr>"
  let ?pm = "patch pm out (record_wire ?nw (rr_info rr) (a_addr r))"
  have z: "0 \<notin> set s" using assms(2) by (simp add: good_name_def)
  have nw: "?nw = name_wire (s @ 0 # t) ptrs" using assms(3) by (simp add: name_wire_def cstr_append_0 [OF z])
  have e: "rr_encode rr pm out (of_nat L) ptrs = ret (of_nat (length s + 16), ?pm, rr\<lparr>rr_info := swap_info ?i\<rparr>)"
    using rr_encode_address [OF assms(1,2) nw assms(4,5), of L out pm] assms(7-10) by simp
  let ?rest = "drop (out + (length s + 16)) pm"
  have pm: "?pm = take out pm @ wire (split_dots s) @ 0 # info_bytes (swap_info ?i) @ a_addr r @ ?rest"
    using assms(5) by (simp add: patch_def record_wire_def info_bytes_swap add.commute)
  have len: "length (take out pm) = out" using assms(10) by simp
  obtain b u where b: "wire (split_dots s) = b # u" "\<not> is_pointer b" using wire_first [OF assms(2)] by blast
  have "?pm ! out = b" using len by (subst pm) (simp add: b(1) nth_append)
  with b(2) have np: "\<not> is_pointer (?pm ! out)" by simp
  have d: "decodeName ?pm out ?pm (fresh junk 256) 256 =
      ret (length s + 2, s @ 0 # dot # drop (length s + 2) (fresh junk 256))"
    using good_name_decodes [OF assms(2) pm, of "fresh junk 256"] len by simp
  have pm2: "?pm = (take out pm @ wire (split_dots s) @ [0]) @ info_bytes (swap_info ?i) @ a_addr r @ ?rest"
    unfolding pm by simp
  obtain r2 where "rr_decode junk ?pm out = ret (\<lparr>rr_name = s @ 0 # dot # drop (length s + 2) (fresh junk 256),
      rr_info = ?i, rr_rdata = Live (RDataA r2), rr_decoded = True\<rparr>, out + (length s + 2) + 14)"
    "a_addr r2 = a_addr r" "cstr (a_value r2) = dotted_quad (a_addr r)"
  proof (rule rr_decode_address [OF _ _ _ d _ pm2])
    show "out + 1 < length ?pm" using assms(5,10) by simp
    show "length (take out pm @ wire (split_dots s) @ [0]) = out + (length s + 2)" using len by simp
  qed (use np assms in simp_all)
  with e show ?thesis by (simp add: cstr_append_0 [OF z])
qed

theorem address_record_round_trip_witness:
  "\<exists>pm' rr' rr2 r2. rr_encode \<lparr>rr_name = [97] @ 0 # [], rr_info = \<lparr>fi_type = 1, fi_rclass = 1, fi_ttl = 300, fi_rdlength = 0\<rparr>,
      rr_rdata = Live (RDataA \<lparr>a_addr = [10, 0, 0, 1], a_value = []\<rparr>), rr_decoded = False\<rparr>
      (replicate 40 0) 12 (of_nat 28) Map.empty = ret (of_nat (length [97 :: byte] + 16), pm', rr') \<and>
    rr_decode (\<lambda>_. 5) pm' 12 = ret (rr2, 12 + length [97 :: byte] + 16) \<and> cstr (rr_name rr2) = [97] \<and>
    rr_info rr2 = \<lparr>fi_type = 1, fi_rclass = 1, fi_ttl = 300, fi_rdlength = 0\<rparr>\<lparr>fi_rdlength := 4\<rparr> \<and>
    rr_rdata rr2 = Live (RDataA r2) \<and> a_addr r2 = [10, 0, 0, 1] \<and>
    cstr (a_value r2) = dotted_quad [10, 0, 0, 1]"
  using address_record_round_trip [of "\<lparr>rr_name = [97] @ 0 # [],
      rr_info = \<lparr>fi_type = 1, fi_rclass = 1, fi_ttl = 300, fi_rdlength = 0\<rparr>,
      rr_rdata = Live (RDataA \<lparr>a_addr = [10, 0, 0, 1], a_value = []\<rparr>), rr_decoded = False\<rparr>" "[97]" "[]" Map.empty
      "\<lparr>a_addr = [10, 0, 0, 1], a_value = []\<rparr>" 28 12 "replicate 40 0" "\<lambda>_. 5"]
  by (simp add: good_name_def wire_label_def)

text \<open>
  C8. Round trip under a compressed name: where the table of known names has the record's name at
  an offset whose low byte is below 128 and the packet holds the name there, the record is written
  with a two-byte pointer and read back with the full name.
\<close>

theorem compressed_record_round_trip:
  assumes "rr_name rr = s @ 0 # t" and "good_name s" and "ptrs s = Some loc"
    and "unat loc \<le> 512" and "\<not> bit loc 7"
    and "pm = pre @ wire (split_dots s) @ 0 # post" and "length pre = unat loc"
    and "unat loc + length s + 2 \<le> out"
    and "rr_rdata rr = Live (RDataA r)" and "length (a_addr r) = 4"
    and "fi_type (rr_info rr) = type_value TYPE_A" and "16 \<le> L" and "L < 2 ^ 31"
    and "out + 16 \<le> length pm"
  shows "\<exists>pm' rr' rr2 r2. rr_encode rr pm out (of_nat L) ptrs = ret (of_nat 16, pm', rr') \<and>
    rr_decode junk pm' out = ret (rr2, out + 16) \<and> cstr (rr_name rr2) = s \<and>
    rr_info rr2 = rr_info rr\<lparr>fi_rdlength := 4\<rparr> \<and> rr_rdata rr2 = Live (RDataA r2) \<and>
    a_addr r2 = a_addr r \<and> cstr (a_value r2) = dotted_quad (a_addr r)"
proof -
  define b0 b1 :: byte where "b0 = ucast (drop_bit 8 (loc OR 0xC000))" and "b1 = ucast (loc OR 0xC000)"
  let ?i = "rr_info rr\<lparr>fi_rdlength := 4\<rparr>"
  let ?pm = "patch pm out (record_wire [b0, b1] (rr_info rr) (a_addr r))"
  have z: "0 \<notin> set s" using assms(2) by (simp add: good_name_def)
  have "loc < 0x4000" using assms(4) by (simp add: word_less_nat_alt)
  note ptr = pointer_bytes [OF this assms(5), folded b0_def b1_def]
  have nw: "[b0, b1] = name_wire (s @ 0 # t) ptrs"
    using assms(3) by (simp add: name_wire_def cstr_append_0 [OF z] be16_def b0_def b1_def)
  have e: "rr_encode rr pm out (of_nat L) ptrs = ret (of_nat 16, ?pm, rr\<lparr>rr_info := swap_info ?i\<rparr>)"
    using rr_encode_address [OF assms(1,2) nw assms(9,10), of L out pm] assms(12-14) by simp
  have pm: "?pm = (take out pm @ [b0, b1]) @ info_bytes (swap_info ?i) @ a_addr r @ drop (out + 16) pm"
    using assms(10) by (simp add: patch_def record_wire_def info_bytes_swap)
  have len: "length (take out pm) = out" using assms(14) by simp
  then have b: "?pm ! out = b0" "?pm ! (out + 1) = b1" by (subst pm, simp add: nth_append)+
  have "take out pm = pre @ wire (split_dots s) @ 0 # take (out - (length pre + length s + 2)) post"
    using assms(6,7,8) by (simp add: take_Cons' )
  then have "\<exists>post'. ?pm = pre @ wire (split_dots s) @ 0 # post'" unfolding pm by simp
  then have d: "decodeName ?pm (unat loc) ?pm (fresh junk 256) 256 =
      ret (length s + 2, s @ 0 # dot # drop (length s + 2) (fresh junk 256))"
    using good_name_decodes [OF assms(2)] assms(7) by fastforce
  obtain r2 where "rr_decode junk ?pm out = ret (\<lparr>rr_name = s @ 0 # dot # drop (length s + 2) (fresh junk 256),
      rr_info = ?i, rr_rdata = Live (RDataA r2), rr_decoded = True\<rparr>, out + 2 + 14)"
    "a_addr r2 = a_addr r" "cstr (a_value r2) = dotted_quad (a_addr r)"
  proof (rule rr_decode_address [OF _ _ _ d _ pm])
    show "out + 1 < length ?pm" using assms(10,14) by simp
    show "unat loc = (if is_pointer (?pm ! out) then unat (pointer_value (?pm ! out) (?pm ! (out + 1))) else out)"
      unfolding b using ptr by (simp add: is_pointer_iff)
    show "out + 2 = (if is_pointer (?pm ! out) then out + 2 else out + (length s + 2))"
      unfolding b using ptr by (simp add: is_pointer_iff)
    show "length (take out pm @ [b0, b1]) = out + 2" using len by simp
  qed (use assms in simp_all)
  with e show ?thesis by (simp add: cstr_append_0 [OF z])
qed

theorem compressed_record_round_trip_witness:
  "\<exists>pm' rr' rr2 r2. rr_encode \<lparr>rr_name = [97] @ 0 # [], rr_info = \<lparr>fi_type = 1, fi_rclass = 1, fi_ttl = 300, fi_rdlength = 0\<rparr>,
      rr_rdata = Live (RDataA \<lparr>a_addr = [10, 0, 0, 1], a_value = []\<rparr>), rr_decoded = False\<rparr>
      (replicate 12 9 @ [1, 97, 0] @ replicate 20 0) 15 (of_nat 16) [[97] \<mapsto> 12] = ret (of_nat 16, pm', rr') \<and>
    rr_decode (\<lambda>_. 5) pm' 15 = ret (rr2, 15 + 16) \<and> cstr (rr_name rr2) = [97] \<and>
    rr_info rr2 = \<lparr>fi_type = 1, fi_rclass = 1, fi_ttl = 300, fi_rdlength = 0\<rparr>\<lparr>fi_rdlength := 4\<rparr> \<and>
    rr_rdata rr2 = Live (RDataA r2) \<and> a_addr r2 = [10, 0, 0, 1] \<and>
    cstr (a_value r2) = dotted_quad [10, 0, 0, 1]"
  using compressed_record_round_trip [of "\<lparr>rr_name = [97] @ 0 # [],
      rr_info = \<lparr>fi_type = 1, fi_rclass = 1, fi_ttl = 300, fi_rdlength = 0\<rparr>,
      rr_rdata = Live (RDataA \<lparr>a_addr = [10, 0, 0, 1], a_value = []\<rparr>), rr_decoded = False\<rparr>" "[97]" "[]" "[[97] \<mapsto> 12]" 12
      "replicate 12 9 @ [1, 97, 0] @ replicate 20 0" "replicate 12 9" "replicate 20 0" 15
      "\<lparr>a_addr = [10, 0, 0, 1], a_value = []\<rparr>" 16 "\<lambda>_. 5"]
  by (simp add: good_name_def wire_label_def bit_numeral_rec)

text \<open>
  C30. An address record whose name leaves fewer than fourteen of the \<open>L\<close> bytes it is given: with
  four to thirteen bytes left the parameter checks end the process; with fewer than four, the
  sizes that are passed on are negative and read as huge, nothing is checked, and the whole record
  is written behind the end of its space.
\<close>

theorem address_record_without_space:
  assumes "rr_name rr = s @ 0 # t" and "good_name s" and "nw = name_wire (s @ 0 # t) ptrs"
    and "rr_rdata rr = Live (RDataA r)" and "length (a_addr r) = 4"
    and "length nw \<le> L" and "L < length nw + 14" and "L < 2 ^ 31" and "out + length nw + 14 \<le> length ob"
  shows "rr_encode rr ob out (of_nat L) ptrs =
    (if length nw + 4 \<le> L then crash Invalid_Parameter
     else ret (of_nat (length nw + 14), patch ob out (record_wire nw (rr_info rr) (a_addr r)),
       rr\<lparr>rr_info := swap_info (rr_info rr\<lparr>fi_rdlength := 4\<rparr>)\<rparr>))"
proof (cases "length nw + 10 \<le> L")
  case True
  define z where "z = int L - int (length nw)"
  have z: "0 \<le> z" "z < 14" "10 \<le> z" using assms(6,7) True by (simp_all add: z_def)
  have u: "unat (of_nat L :: 64 word) = L" using assms(8) by (simp add: unat_of_nat take_bit_nat_eq_self)
  have n: "encode_rr_name (rr_name rr) ob out (of_nat L) ptrs =
      ret (patch ob out nw, out + length nw, word_of_int z)"
    using encode_rr_name_fits [OF good_name_ok [OF assms(2)], of t ptrs "of_nat L" out ob] assms u z_def by simp
  have c: "(ucast (word_of_int z :: 64 word) - 10 :: 32 word) = word_of_int (z - 10)"
    by (simp add: ucast_word_of_int)
  have "unat (scast (word_of_int (z - 10) :: 32 word) :: 64 word) = as_size (z - 10)"
    unfolding as_size_def using z by (intro size_of_int) simp_all
  then have "rdata_encode (RDataA r) (patch ob out nw) (out + length nw + 10) (word_of_int (z - 10)) = crash Invalid_Parameter"
    using as_size_small(1) [OF z(1,2)] z(3) assms(5)
    by (auto simp: DNSRDataA_encode_def memcpy_s_def)
  then show ?thesis
    unfolding rr_encode_def n bind_run_simps split_conv assms(4) encode_through.simps c
    using True by simp
next
  case False
  define z where "z = int L - int (length nw)"
  have z: "0 \<le> z" "z < 14" "z < 10" using assms(6,7) False by (simp_all add: z_def)
  have "rr_encode rr ob out (of_nat L) ptrs =
    (if as_size (z - int (length (a_addr r))) < 10 then crash Invalid_Parameter
     else ret (of_nat (length nw + 10 + length (a_addr r)), patch ob out (record_wire nw (rr_info rr) (a_addr r)),
       rr\<lparr>rr_info := swap_info (rr_info rr\<lparr>fi_rdlength := of_nat (length (a_addr r))\<rparr>)\<rparr>))"
  proof (rule rr_encode_after_name [where r = "RDataA r"])
    show "name_ok (rr_name rr)" using good_name_ok [OF assms(2)] assms(1) by simp
    show "length (a_addr r) \<le> as_size (z - 10)" unfolding assms(5) using as_size_small(1) [OF z(1,2)] z(3) by simp
  qed (use assms z_def in \<open>simp_all add: a_ok_def\<close>)
  moreover have "as_size (z - 4) < 10 \<longleftrightarrow> length nw + 4 \<le> L"
    using as_size_small(2) [OF z(1,2)] by (simp add: z_def) linarith
  ultimately show ?thesis unfolding assms(5) by simp
qed

theorem address_record_without_space_witness:
  "rr_encode \<lparr>rr_name = [97] @ 0 # [], rr_info = \<lparr>fi_type = 1, fi_rclass = 1, fi_ttl = 0, fi_rdlength = 0\<rparr>,
      rr_rdata = Live (RDataA \<lparr>a_addr = [10, 0, 0, 1], a_value = []\<rparr>), rr_decoded = False\<rparr>
      (replicate 40 0) 0 (of_nat 3) [[97] \<mapsto> 12] =
    ret (of_nat 16, patch (replicate 40 0) 0 (record_wire [0xC0, 12]
        \<lparr>fi_type = 1, fi_rclass = 1, fi_ttl = 0, fi_rdlength = 0\<rparr> [10, 0, 0, 1]),
      \<lparr>rr_name = [97] @ 0 # [], rr_info = swap_info \<lparr>fi_type = 1, fi_rclass = 1, fi_ttl = 0, fi_rdlength = 4\<rparr>,
      rr_rdata = Live (RDataA \<lparr>a_addr = [10, 0, 0, 1], a_value = []\<rparr>), rr_decoded = False\<rparr>)"
proof -
  have nw: "[0xC0, 12] = name_wire ([97] @ 0 # []) [[97] \<mapsto> 12]"
    by (simp add: name_wire_def cstr_def be16_def)
  show ?thesis
    using address_record_without_space [OF _ _ nw, of "\<lparr>rr_name = [97] @ 0 # [],
      rr_info = \<lparr>fi_type = 1, fi_rclass = 1, fi_ttl = 0, fi_rdlength = 0\<rparr>,
      rr_rdata = Live (RDataA \<lparr>a_addr = [10, 0, 0, 1], a_value = []\<rparr>), rr_decoded = False\<rparr>"
      "\<lparr>a_addr = [10, 0, 0, 1], a_value = []\<rparr>" 3 0 "replicate 40 0"]
    by (simp add: good_name_def wire_label_def)
qed

text \<open>
  C15. A record of any type other than an address or an alias is read without data and is skipped: for
  every name with a label that the grammar accepts and that fits, reached directly or through a pointer
  at the start of the record, the name, type, class, time to live and length are those on the wire, and the
  offset behind the record is the end of the fixed part plus the length field, with no test against the
  end of the packet. The fixed part is looked for two bytes behind the start of a record that starts
  with a pointer, otherwise behind the expanded name, even when the name ends in a pointer.
\<close>

theorem other_record_skipped:
  assumes "buffer + 1 < length pm"
    and "start = (if is_pointer (pm ! buffer) then unat (pointer_value (pm ! buffer) (pm ! (buffer + 1))) else buffer)"
    and "start \<le> 512" and "strlen pm start = ret n" and "n \<le> 255" and "expands pm pm start ls" and "ls \<noteq> []"
    and "length (dotted ls) \<le> 254"
    and "fixed = (if is_pointer (pm ! buffer) then buffer + 2 else buffer + length (dotted ls) + 2)"
    and "take 10 (drop fixed pm) = be16 type @ be16 rclass @ be32 ttl @ be16 rdlength"
    and "type \<noteq> type_value TYPE_A" and "type \<noteq> type_value TYPE_CNAME"
  shows "\<exists>rr. rr_decode junk pm buffer = ret (rr, fixed + 10 + unat rdlength) \<and>
    take (length (dotted ls) + 1) (rr_name rr) = dotted ls @ [0] \<and> rr_rdata rr = Null \<and>
    rr_info rr = \<lparr>fi_type = type, fi_rclass = rclass, fi_ttl = ttl, fi_rdlength = rdlength\<rparr>"
proof -
  let ?i = "\<lparr>fi_type = type, fi_rclass = rclass, fi_ttl = ttl, fi_rdlength = rdlength\<rparr>"
  have d: "decodeName pm start pm (fresh junk 256) 256 =
      ret (length (dotted ls) + 2, dotted ls @ 0 # dot # drop (length (dotted ls) + 2) (fresh junk 256))"
    using decodeName_expands [OF assms(4-7), of 256 "fresh junk 256"] assms(8) by (simp add: fresh_def)
  have f: "fixed = (if is_pointer (pm ! buffer) then buffer + 2 else buffer + (length (dotted ls) + 2))" using assms(9) by simp
  have i: "take 10 (drop fixed pm) = info_bytes (swap_info ?i)" using assms(10) by (simp add: info_bytes_swap)
  show ?thesis
    using rr_decode_without_data [OF assms(1-3) d f i] assms(11,12) by simp
qed

definition two_records :: "byte list" where
  "two_records = [1, 97, 0, 0xC0, 0, 0, 28, 0, 1, 0, 0, 0, 9, 0, 16]"

theorem other_record_skipped_witness:
  "\<exists>rr. rr_decode (\<lambda>_. 0) two_records 3 = ret (rr, 5 + 10 + unat (16 :: 16 word)) \<and>
    take (length (dotted [[97]]) + 1) (rr_name rr) = dotted [[97]] @ [0] \<and> rr_rdata rr = Null \<and>
    rr_info rr = \<lparr>fi_type = 28, fi_rclass = 1, fi_ttl = 9, fi_rdlength = 16\<rparr>"
proof (rule other_record_skipped [where start = 0 and n = 2])
  show "expands two_records two_records 0 [[97]]"
    using expands_wire [of "[[97]]" two_records "[]" "[0xC0, 0, 0, 28, 0, 1, 0, 0, 0, 9, 0, 16]"]
    by (simp add: wire_label_def two_records_def)
  show "take 10 (drop 5 two_records) = be16 28 @ be16 1 @ be32 9 @ be16 16" by code_simp
  show "0 = (if is_pointer (two_records ! 3) then unat (pointer_value (two_records ! 3) (two_records ! (3 + 1))) else 3)"
    by code_simp
  show "(5 :: nat) = (if is_pointer (two_records ! 3) then 3 + 2 else 3 + length (dotted [[97]]) + 2)" by code_simp
  show "strlen two_records 0 = ret 2" unfolding ret_def by code_simp
qed (simp_all add: two_records_def)

end
