(* ===== verification/Query.thy ===== *)
theory Query
  imports DNSUtil
begin

text \<open>
  \<open>src/DNS/DNSQuery.h\<close> and \<open>.cpp\<close>: a question of a query packet, parsed by its constructor.
\<close>

section \<open>Questions\<close>

record DNSQuery =
  q_qname :: "byte list"
  q_qtype :: "16 word"
  q_qclass :: "16 word"
  q_length :: nat

text \<open>
  \<open>DNSQuery::DNSQuery(char *start, char *message)\<close>: \<open>start\<close> is an offset into \<open>mem\<close>, \<open>message\<close> the
  start of the region \<open>msg\<close>. The type and the class are each read from one \<open>char\<close>.
\<close>

definition DNSQuery_ctor :: "(nat \<Rightarrow> byte) \<Rightarrow> byte list \<Rightarrow> nat \<Rightarrow> byte list \<Rightarrow> DNSQuery run" where
  "DNSQuery_ctor junk mem start msg =
     bind_run (rd mem start) (\<lambda>b0.
     if is_pointer b0 then
       bind_run (rd mem (start + 1)) (\<lambda>b1.
       bind_run (decodeName msg (unat (pointer_value b0 b1)) msg
           (fresh junk (MAX_DNS_NAME_LENGTH + 1)) (MAX_DNS_NAME_LENGTH + 1)) (\<lambda>(n, qname).
       bind_run (rd mem (start + 3)) (\<lambda>t.
       bind_run (rd mem (start + 5)) (\<lambda>c.
         ret \<lparr>q_qname = qname, q_qtype = sext16 t, q_qclass = sext16 c, q_length = 6\<rparr>))))
     else
       bind_run (decodeName mem start msg
           (fresh junk (MAX_DNS_NAME_LENGTH + 1)) (MAX_DNS_NAME_LENGTH + 1)) (\<lambda>(n, qname).
       let srcLoc = start + n in
       bind_run (rd mem (srcLoc + 1)) (\<lambda>t.
       bind_run (rd mem (srcLoc + 3)) (\<lambda>c.
         ret \<lparr>q_qname = qname, q_qtype = sext16 t, q_qclass = sext16 c, q_length = srcLoc - start + 4\<rparr>))))"

section \<open>Questions on the wire\<close>

text \<open>A question of a packet: name, type and class, the two last big-endian.\<close>

definition question_wire :: "byte list \<Rightarrow> 16 word \<Rightarrow> 16 word \<Rightarrow> byte list" where
  "question_wire s t c = wire (split_dots s) @ [0] @ be16 t @ be16 c"

lemma query_of_wire:
  assumes "good_name s" and "mem = pre @ question_wire s t c @ post" and "length pre = start"
  shows "DNSQuery_ctor junk mem start msg =
    ret \<lparr>q_qname = s @ 0 # dot # drop (length s + 2) (fresh junk 256),
      q_qtype = sext16 (ucast t), q_qclass = sext16 (ucast c), q_length = length s + 6\<rparr>"
proof -
  have mem: "mem = pre @ wire (split_dots s) @ 0 # be16 t @ be16 c @ post"
    using assms(2) by (simp add: question_wire_def)
  obtain b u where b: "wire (split_dots s) = b # u" "\<not> is_pointer b" using wire_first [OF assms(1)] by blast
  have len: "length mem = start + length s + 6 + length post" using assms(3) by (simp add: mem)
  have b0: "mem ! start = b" using assms(3) by (simp add: mem b(1) nth_append)
  have d: "decodeName mem start msg (fresh junk 256) 256 =
      ret (length s + 2, s @ 0 # dot # drop (length s + 2) (fresh junk 256))"
    using good_name_decodes [OF assms(1) mem, of "fresh junk 256" msg] assms(3) by simp
  have "mem = (pre @ wire (split_dots s) @ [0]) @ [ucast (drop_bit 8 t), ucast t, ucast (drop_bit 8 c), ucast c] @ post"
    by (simp add: mem be16_def)
  then have tc: "mem ! (start + (length s + 2) + 1) = ucast t" "mem ! (start + (length s + 2) + 3) = ucast c"
    using assms(3) by (simp_all add: nth_append)
  show ?thesis
    using b0 b(2) d tc len
    by (simp add: DNSQuery_ctor_def rd_def Let_def MAX_DNS_NAME_LENGTH_def)
qed

lemma bit_sext16: "bit (sext16 b) n \<longleftrightarrow> n < 16 \<and> (bit b n \<or> 8 \<le> n \<and> 0x80 \<le> b)"
  by (simp add: sext16_def bit_word_scast_iff byte_bit7 flip: byte_bit7)

lemma sext16_wire: "t < 0x80 \<Longrightarrow> sext16 (ucast t) = t"
proof -
  assume t: "t < 0x80"
  have "take_bit 7 t = t"
    using t by (intro word_unat_eq_iff [THEN iffD2])
      (simp add: word_less_nat_alt unsigned_take_bit_eq take_bit_nat_eq_self)
  then have "bit t n \<Longrightarrow> n < 7" for n by (metis bit_take_bit_iff)
  then have "\<not> bit t 7" "\<And>n. bit t n \<Longrightarrow> n < 8" by fastforce+
  then show ?thesis
    by (intro bit_word_eqI) (auto simp: bit_sext16 bit_simps simp flip: byte_bit7)
qed

section \<open>Properties\<close>

text \<open>
  C22. A question in a packet, with a name both directions of the codec handle, is parsed to that
  name, the length it occupies, and its type and class where these are below 128.
\<close>

theorem query_parse:
  assumes "good_name s" and "t < 0x80" and "c < 0x80"
  shows "\<exists>q. DNSQuery_ctor junk (pre @ question_wire s t c @ post) (length pre) msg = ret q \<and>
    cstr (q_qname q) = s \<and> q_qtype q = t \<and> q_qclass q = c \<and> q_length q = length (question_wire s t c)"
proof -
  have "0 \<notin> set s" using assms(1) by (simp add: good_name_def)
  then show ?thesis
    using query_of_wire [OF assms(1) refl refl, of junk pre t c post msg]
    by (simp add: sext16_wire [OF assms(2)] sext16_wire [OF assms(3)] cstr_append_0 question_wire_def)
qed

theorem query_parse_witness:
  "\<exists>q. DNSQuery_ctor (\<lambda>_. 7) (replicate 12 9 @ question_wire [97, dot, 98] 1 1 @ []) (length (replicate 12 (9 :: byte))) [] = ret q \<and>
    cstr (q_qname q) = [97, dot, 98] \<and> q_qtype q = 1 \<and> q_qclass q = 1 \<and>
    q_length q = length (question_wire [97, dot, 98] 1 1)"
  by (rule query_parse) (simp_all add: good_name_def wire_label_def)

text \<open>
  Only the low byte of the type is read: questions whose types agree there are the same query
  to the program, so a question of type 257 is answered as one for addresses, and the type 255,
  for all records, is read as 65535.
\<close>

theorem query_type_low_byte:
  assumes "good_name s" and "(ucast t :: byte) = ucast t'"
  shows "DNSQuery_ctor junk (pre @ question_wire s t c @ post) (length pre) msg =
    DNSQuery_ctor junk (pre @ question_wire s t' c @ post) (length pre) msg"
  using query_of_wire [OF assms(1) refl refl, of junk pre t c post msg]
    query_of_wire [OF assms(1) refl refl, of junk pre t' c post msg] assms(2) by simp

theorem query_type_low_byte_witness:
  "DNSQuery_ctor (\<lambda>_. 7) ([] @ question_wire [97] 257 1 @ []) (length ([] :: byte list)) [] =
    DNSQuery_ctor (\<lambda>_. 7) ([] @ question_wire [97] (type_value TYPE_A) 1 @ []) (length ([] :: byte list)) [] \<and>
   sext16 (ucast (type_value QTYPE_ALL)) = 65535"
proof
  show "DNSQuery_ctor (\<lambda>_. 7) ([] @ question_wire [97] 257 1 @ []) (length ([] :: byte list)) [] =
    DNSQuery_ctor (\<lambda>_. 7) ([] @ question_wire [97] (type_value TYPE_A) 1 @ []) (length ([] :: byte list)) []"
    by (rule query_type_low_byte) (simp_all add: good_name_def wire_label_def)
  show "sext16 (ucast (type_value QTYPE_ALL)) = 65535" by code_simp
qed

end
