(* ===== verification/Effects.thy ===== *)
theory Effects
  imports Prelude
begin

text \<open>
  Computations over a state: the result of a step and the state it leaves, where the state is kept
  when an error is raised. The database driver, the network and the objects of the program are
  parts of such states.
\<close>

section \<open>The monad\<close>

type_synonym ('s, 'a) io = "'s \<Rightarrow> ((error + 'a) \<times> 's) option"

definition finish :: "'a \<Rightarrow> ('s, 'a) io" where
  "finish x = (\<lambda>s. Some (Inr x, s))"

definition fail :: "error \<Rightarrow> ('s, 'a) io" where
  "fail e = (\<lambda>s. Some (Inl e, s))"

definition seq :: "('s, 'a) io \<Rightarrow> ('a \<Rightarrow> ('s, 'b) io) \<Rightarrow> ('s, 'b) io" where
  "seq m f = (\<lambda>s. case m s of None \<Rightarrow> None
     | Some (Inl e, s') \<Rightarrow> Some (Inl e, s') | Some (Inr x, s') \<Rightarrow> f x s')"

definition pure_run :: "'a run \<Rightarrow> ('s, 'a) io" where
  "pure_run r = (\<lambda>s. map_option (\<lambda>v. (v, s)) r)"

definition get_state :: "('s, 's) io" where
  "get_state = (\<lambda>s. Some (Inr s, s))"

definition modify :: "('s \<Rightarrow> 's) \<Rightarrow> ('s, unit) io" where
  "modify f = (\<lambda>s. Some (Inr (), f s))"

text \<open>A call of an outside function, which always returns.\<close>

definition call :: "('s \<Rightarrow> 'a \<times> 's) \<Rightarrow> ('s, 'a) io" where
  "call f = (\<lambda>s. case f s of (x, s') \<Rightarrow> Some (Inr x, s'))"

text \<open>A computation on a part of the state.\<close>

definition on_part :: "('t \<Rightarrow> 's) \<Rightarrow> ('s \<Rightarrow> 't \<Rightarrow> 't) \<Rightarrow> ('s, 'a) io \<Rightarrow> ('t, 'a) io" where
  "on_part get put m = (\<lambda>t. map_option (\<lambda>(v, s). (v, put s t)) (m (get t)))"

text \<open>\<open>try { m } catch (...)\<close>: crashes and \<open>exit\<close> are not exceptions.\<close>

fun catchable :: "error \<Rightarrow> bool" where
  "catchable (Exception m) = True"
| "catchable (Int_Thrown i) = True"
| "catchable (Crash c) = False"
| "catchable (Exit i) = False"

definition try_catch :: "('s, 'a) io \<Rightarrow> (error \<Rightarrow> ('s, 'a) io) \<Rightarrow> ('s, 'a) io" where
  "try_catch m h = (\<lambda>s. case m s of
       Some (Inl e, s') \<Rightarrow> if catchable e then h e s' else Some (Inl e, s')
     | r \<Rightarrow> r)"

section \<open>Equations\<close>

named_theorems io_simps \<open>evaluation of computations\<close>

lemma seq_apply [io_simps]:
  "m s = Some (Inr x, s') \<Longrightarrow> seq m f s = f x s'"
  "m s = Some (Inl e, s') \<Longrightarrow> seq m f s = Some (Inl e, s')"
  "m s = None \<Longrightarrow> seq m f s = None"
  by (simp_all add: seq_def)

lemma io_apply [simp, io_simps]:
  "finish x s = Some (Inr x, s)" "fail e s = Some (Inl e, s)" "get_state s = Some (Inr s, s)"
  "modify f s = Some (Inr (), f s)" "pure_run (ret x) s = Some (Inr x, s)"
  "pure_run (raise e) s = Some (Inl e, s)" "pure_run None s = None"
  by (simp_all add: finish_def fail_def get_state_def modify_def pure_run_def ret_def raise_def)

lemma seq_simps [simp, io_simps]:
  "seq (finish x) f = f x" "seq (fail e) f1 = fail e" "seq (pure_run (ret x)) f = f x"
  "seq (pure_run (raise e)) f1 = fail e" "seq get_state f2 s = f2 s s" "seq (modify u) f3 s = f3 () (u s)"
  "seq (call g) f s = f (fst (g s)) (snd (g s))" "seq m finish = m"
proof -
  show "seq m finish = m"
  proof
    fix s
    show "seq m finish s = m s"
      by (cases "m s") (auto simp: seq_def finish_def split: prod.splits sum.splits)
  qed
qed (auto simp: seq_def finish_def fail_def get_state_def modify_def pure_run_def ret_def raise_def call_def
  split: prod.splits)

lemma seq_assoc: "seq (seq m f) g = seq m (\<lambda>x. seq (f x) g)"
  by (rule ext) (auto simp: seq_def split: option.splits prod.splits sum.splits)

lemma seq_retE:
  assumes "seq m f s = Some (Inr y, s'')"
  obtains x s' where "m s = Some (Inr x, s')" and "f x s' = Some (Inr y, s'')"
  using assms by (auto simp: seq_def split: option.splits prod.splits sum.splits)

lemma seq_Inr_iff:
  "seq m f s = Some (Inr y, s'') \<longleftrightarrow> (\<exists>x s'. m s = Some (Inr x, s') \<and> f x s' = Some (Inr y, s''))"
  by (auto simp: seq_def split: option.splits prod.splits sum.splits)

lemma pure_run_bind: "pure_run (bind_run m f) = seq (pure_run m) (\<lambda>x. pure_run (f x))"
  by (rule ext, cases m rule: run_cases) (simp_all add: pure_run_def seq_def ret_def raise_def)

lemma on_part_apply [io_simps]:
  "m (get t) = Some (v, s) \<Longrightarrow> on_part get put m t = Some (v, put s t)"
  "m (get t) = None \<Longrightarrow> on_part get put m t = None"
  by (simp_all add: on_part_def)

lemma try_catch_apply [io_simps]:
  "m s = Some (Inr x, s') \<Longrightarrow> try_catch m h s = Some (Inr x, s')"
  "m s = Some (Inl e, s') \<Longrightarrow> catchable e \<Longrightarrow> try_catch m h s = h e s'"
  "m s = Some (Inl e, s') \<Longrightarrow> \<not> catchable e \<Longrightarrow> try_catch m h s = Some (Inl e, s')"
  "m s = None \<Longrightarrow> try_catch m h s = None"
  by (simp_all add: try_catch_def)

text \<open>Sequencing is monotone, so that loops over a state can be defined as partial functions.\<close>

lemma seq_mono [partial_function_mono]:
  fixes B :: "('x \<Rightarrow> 'y option) \<Rightarrow> ('s, 'a) io" and C :: "('x \<Rightarrow> 'y option) \<Rightarrow> 'a \<Rightarrow> ('s, 'b) io"
  assumes "monotone (fun_ord option_ord) option_ord (\<lambda>f. B f s)"
    and "\<And>y s'. monotone (fun_ord option_ord) option_ord (\<lambda>f. C f y s')"
  shows "monotone (fun_ord option_ord) option_ord (\<lambda>f. seq (B f) (C f) s)"
proof (rule monotoneI)
  fix f g :: "'x \<Rightarrow> 'y option"
  assume fg: "fun_ord option_ord f g"
  have b: "option_ord (B f s) (B g s)" using assms(1) fg unfolding monotone_on_def by blast
  have c: "option_ord (C f y s') (C g y s')" for y s' using assms(2) [of y s'] fg unfolding monotone_on_def by blast
  show "option_ord (seq (B f) (C f) s) (seq (B g) (C g) s)"
  proof (cases "B f s")
    case None
    then show ?thesis by (simp add: seq_def flat_ord_def)
  next
    case (Some r)
    with b have "B g s = Some r" by (auto simp: flat_ord_def)
    with Some c show ?thesis
      by (auto simp: seq_def flat_ord_def split: prod.splits sum.splits)
  qed
qed

text \<open>
  \<open>while (c) body\<close> with local variables \<open>x\<close>: the body ends with new values of the variables or, by a
  \<open>return\<close> statement, with a result.
\<close>

partial_function (option) while_io :: "('x \<Rightarrow> ('s, bool) io) \<Rightarrow> ('x \<Rightarrow> ('s, 'x + 'r) io) \<Rightarrow> 'x \<Rightarrow> 's \<Rightarrow>
    ((error + ('x + 'r)) \<times> 's) option" where
  "while_io c body x s =
     seq (c x) (\<lambda>b s. if b
       then seq (body x) (\<lambda>r s. case r of Inl x' \<Rightarrow> while_io c body x' s | Inr y \<Rightarrow> Some (Inr (Inr y), s)) s
       else Some (Inr (Inl x), s)) s"

declare while_io.simps [code]

lemma while_io_end: "c x s = Some (Inr False, s') \<Longrightarrow> while_io c body x s = Some (Inr (Inl x), s')"
  by (subst while_io.simps) (simp add: seq_def)

lemma while_io_step:
  "c x s = Some (Inr True, s1) \<Longrightarrow> body x s1 = Some (Inr (Inl x'), s2) \<Longrightarrow>
     while_io c body x s = while_io c body x' s2"
  by (subst while_io.simps) (simp add: seq_def)

lemma while_io_return:
  "c x s = Some (Inr True, s1) \<Longrightarrow> body x s1 = Some (Inr (Inr y), s2) \<Longrightarrow>
     while_io c body x s = Some (Inr (Inr y), s2)"
  by (subst while_io.simps) (simp add: seq_def)

lemma while_io_fail:
  "c x s = Some (Inl e, s') \<Longrightarrow> while_io c body x s = Some (Inl e, s')"
  "c x s = Some (Inr True, s1) \<Longrightarrow> body x s1 = Some (Inl e, s') \<Longrightarrow> while_io c body x s = Some (Inl e, s')"
  by (subst while_io.simps, simp add: seq_def)+

end
