(* ===== verification/Odbc.thy ===== *)
theory Odbc
  imports Effects
begin

text \<open>
  \<open>src/ODBC\<close>: the wrappers around the ODBC call-level interface. The driver manager and the driver
  are not part of the program: they are the parameter \<open>drv\<close>, a record of functions on a world
  \<open>'w\<close>. Each function takes what the program passes and gives the \<open>SQLRETURN\<close> code, what is written
  through the pointers that are passed, and the world after the call.
\<close>

section \<open>The call-level interface\<close>

definition SQL_SUCCESS :: int where "SQL_SUCCESS = 0"
definition SQL_SUCCESS_WITH_INFO :: int where "SQL_SUCCESS_WITH_INFO = 1"
definition SQL_NO_DATA :: int where "SQL_NO_DATA = 100"
definition SQL_ERROR :: int where "SQL_ERROR = - 1"
definition SQL_INVALID_HANDLE :: int where "SQL_INVALID_HANDLE = - 2"
definition SQL_MAX_MESSAGE_LENGTH :: nat where "SQL_MAX_MESSAGE_LENGTH = 512"

lemmas sql_codes = SQL_SUCCESS_def SQL_SUCCESS_WITH_INFO_def SQL_NO_DATA_def SQL_ERROR_def SQL_INVALID_HANDLE_def

datatype handle_type = SQL_HANDLE_ENV | SQL_HANDLE_DBC | SQL_HANDLE_STMT
datatype c_type = SQL_C_CHAR | SQL_C_WCHAR | SQL_C_USHORT | SQL_C_SLONG | SQL_C_ULONG

text \<open>
  Values of parameters and columns. Parameters are bound by address and read when the statement is
  executed, so \<open>SQLExecute\<close> is given the contents of the program's bound variables.
\<close>

datatype sql_value = Str "byte list" | Num int

type_synonym handle = nat
type_synonym address = nat
type_synonym variables = "address \<Rightarrow> sql_value"

record 'w odbc =
  SQLAllocHandle :: "handle_type \<Rightarrow> handle \<Rightarrow> 'w \<Rightarrow> (int \<times> handle) \<times> 'w"
  SQLFreeHandle :: "handle_type \<Rightarrow> handle \<Rightarrow> 'w \<Rightarrow> int \<times> 'w"
  SQLSetEnvAttr :: "handle \<Rightarrow> 'w \<Rightarrow> int \<times> 'w"
  SQLSetConnectAttr :: "handle \<Rightarrow> 'w \<Rightarrow> int \<times> 'w"
  SQLGetConnectAttr :: "handle \<Rightarrow> int \<Rightarrow> 'w \<Rightarrow> (int \<times> int) \<times> 'w"
  SQLDriverConnect :: "handle \<Rightarrow> string \<Rightarrow> 'w \<Rightarrow> int \<times> 'w"
  SQLDisconnect :: "handle \<Rightarrow> 'w \<Rightarrow> int \<times> 'w"
  SQLGetDiagRec :: "handle_type \<Rightarrow> handle \<Rightarrow> int \<Rightarrow> byte list \<Rightarrow> 'w \<Rightarrow> (int \<times> byte list) \<times> 'w"
  SQLPrepare :: "handle \<Rightarrow> string \<Rightarrow> 'w \<Rightarrow> int \<times> 'w"
  SQLBindParameter :: "handle \<Rightarrow> nat \<Rightarrow> c_type \<Rightarrow> nat \<Rightarrow> address \<Rightarrow> 'w \<Rightarrow> int \<times> 'w"
  SQLExecute :: "handle \<Rightarrow> variables \<Rightarrow> 'w \<Rightarrow> int \<times> 'w"
  SQLExecDirect :: "handle \<Rightarrow> string \<Rightarrow> variables \<Rightarrow> 'w \<Rightarrow> int \<times> 'w"
  SQLEndTran :: "handle \<Rightarrow> 'w \<Rightarrow> int \<times> 'w"
  SQLRowCount :: "handle \<Rightarrow> int \<Rightarrow> 'w \<Rightarrow> (int \<times> int) \<times> 'w"
  SQLMoreResults :: "handle \<Rightarrow> 'w \<Rightarrow> int \<times> 'w"
  SQLDescribeCol :: "handle \<Rightarrow> nat \<Rightarrow> 'w \<Rightarrow> (int \<times> string \<times> int \<times> nat) \<times> 'w"
  SQLFetch :: "handle \<Rightarrow> 'w \<Rightarrow> int \<times> 'w"
  SQLGetData :: "handle \<Rightarrow> nat \<Rightarrow> c_type \<Rightarrow> nat \<Rightarrow> 'w \<Rightarrow> (int \<times> sql_value option) \<times> 'w"

section \<open>Messages\<close>

text \<open>
  The loop of \<open>SQLMessageHandler::getSqlMessage\<close>: the diagnostic records are read one after the
  other into one buffer, \<open>msg\<close>. Nothing bounds their number. The record number is passed as a
  \<open>SQLSMALLINT\<close>.
\<close>

partial_function (option) diag_loop :: "'w odbc \<Rightarrow> handle_type \<Rightarrow> handle \<Rightarrow> int \<Rightarrow> byte list \<Rightarrow> 'w \<Rightarrow>
    ((error + byte list) \<times> 'w) option" where
  "diag_loop drv ht h i msg w =
     (case SQLGetDiagRec drv ht h (sint (word_of_int i :: 16 word)) msg w of ((retval, msg), w) \<Rightarrow>
        if retval \<noteq> SQL_NO_DATA \<and> retval \<noteq> SQL_ERROR \<and> retval \<noteq> SQL_INVALID_HANDLE
        then diag_loop drv ht h (i + 1) msg w
        else Some (Inr msg, w))"

declare diag_loop.simps [code]

text \<open>
  \<open>SQLMessageHandler::getSqlMessage\<close> and the exception made of its buffer, as the three
  \<open>handleErrors\<close> have it. The error buffer is filled completely before each use, so what it held
  before does not matter.
\<close>

definition getSqlMessage :: "'w odbc \<Rightarrow> (nat \<Rightarrow> byte) \<Rightarrow> handle_type \<Rightarrow> handle \<Rightarrow> ('w, byte list) io" where
  "getSqlMessage drv junk ht h =
     seq (diag_loop drv ht h 1 (fresh junk SQL_MAX_MESSAGE_LENGTH)) (\<lambda>msg.
       pure_run (memcpy_s (fresh junk SQL_MAX_MESSAGE_LENGTH) 0 (of_nat SQL_MAX_MESSAGE_LENGTH)
         (take SQL_MAX_MESSAGE_LENGTH msg)))"

definition throw_text :: "byte list \<Rightarrow> ('w, 'a) io" where
  "throw_text buf = seq (pure_run (strlen buf 0)) (\<lambda>n. fail (Exception (map (\<lambda>b. char_of (unat b)) (take n buf))))"

definition handle_errors :: "'w odbc \<Rightarrow> (nat \<Rightarrow> byte) \<Rightarrow> handle_type \<Rightarrow> handle \<Rightarrow> string \<Rightarrow> int \<Rightarrow> ('w, unit) io" where
  "handle_errors drv junk ht h invalid retval =
     (if retval = SQL_ERROR then seq (getSqlMessage drv junk ht h) throw_text
      else if retval = SQL_INVALID_HANDLE then fail (Exception invalid)
      else finish ())"

section \<open>Environment\<close>

record SQLEnvironment =
  henv :: handle

definition SQLEnvironment_ctor :: "'w odbc \<Rightarrow> ('w, SQLEnvironment) io" where
  "SQLEnvironment_ctor drv =
     seq (call (SQLAllocHandle drv SQL_HANDLE_ENV 0)) (\<lambda>(retval, h).
     if retval = SQL_ERROR then fail (Exception ''Could not initialize SQL environment'')
     else seq (call (SQLSetEnvAttr drv h)) (\<lambda>retval.
     if retval = SQL_ERROR then fail (Exception ''Could not set SQL environment version'')
     else finish \<lparr>henv = h\<rparr>))"

definition SQLEnvironment_dtor :: "'w odbc \<Rightarrow> SQLEnvironment \<Rightarrow> ('w, unit) io" where
  "SQLEnvironment_dtor drv e = seq (call (SQLFreeHandle drv SQL_HANDLE_ENV (henv e))) (\<lambda>_. finish ())"

section \<open>Connections\<close>

record SQLConnection =
  conn_hdbc :: handle

definition SQLConnection_handleErrors :: "'w odbc \<Rightarrow> (nat \<Rightarrow> byte) \<Rightarrow> SQLConnection \<Rightarrow> int \<Rightarrow> ('w, unit) io" where
  "SQLConnection_handleErrors drv junk c =
     handle_errors drv junk SQL_HANDLE_DBC (conn_hdbc c) ''A handle needed by the connection is invalid''"

definition SQLConnection_ctor :: "'w odbc \<Rightarrow> (nat \<Rightarrow> byte) \<Rightarrow> SQLEnvironment \<Rightarrow> ('w, SQLConnection) io" where
  "SQLConnection_ctor drv junk environment =
     seq (call (SQLAllocHandle drv SQL_HANDLE_DBC (henv environment))) (\<lambda>(retval, h).
     let c = \<lparr>conn_hdbc = h\<rparr> in
     seq (SQLConnection_handleErrors drv junk c retval) (\<lambda>_.
     seq (call (SQLSetConnectAttr drv h)) (\<lambda>retval.
     seq (SQLConnection_handleErrors drv junk c retval) (\<lambda>_. finish c))))"

definition SQLConnection_connect :: "'w odbc \<Rightarrow> (nat \<Rightarrow> byte) \<Rightarrow> SQLConnection \<Rightarrow> string \<Rightarrow> ('w, unit) io" where
  "SQLConnection_connect drv junk c connString =
     seq (call (SQLDriverConnect drv (conn_hdbc c) connString)) (SQLConnection_handleErrors drv junk c)"

definition SQLConnection_isConnected :: "'w odbc \<Rightarrow> (nat \<Rightarrow> byte) \<Rightarrow> SQLConnection \<Rightarrow> ('w, bool) io" where
  "SQLConnection_isConnected drv junk c =
     seq (call (SQLGetConnectAttr drv (conn_hdbc c) 0)) (\<lambda>(retval, dead).
     seq (SQLConnection_handleErrors drv junk c retval) (\<lambda>_. finish (dead = 0)))"

definition SQLConnection_dtor :: "'w odbc \<Rightarrow> SQLConnection \<Rightarrow> ('w, unit) io" where
  "SQLConnection_dtor drv c =
     seq (call (SQLDisconnect drv (conn_hdbc c))) (\<lambda>_.
     seq (call (SQLFreeHandle drv SQL_HANDLE_DBC (conn_hdbc c))) (\<lambda>_. finish ()))"

section \<open>Result sets\<close>

record SQLResultSet =
  rs_hstmt :: handle
  rs_colLengths :: "nat list"
  rs_dataTypes :: "int list"
  rs_colPositions :: "string \<rightharpoonup> nat"

definition SQLResultSet_handleErrors :: "'w odbc \<Rightarrow> (nat \<Rightarrow> byte) \<Rightarrow> SQLResultSet \<Rightarrow> int \<Rightarrow> ('w, unit) io" where
  "SQLResultSet_handleErrors drv junk rs =
     handle_errors drv junk SQL_HANDLE_STMT (rs_hstmt rs) ''A handle needed by the result set is invalid''"

text \<open>The loop of the constructor, over the columns the driver describes.\<close>

partial_function (option) describe_loop :: "'w odbc \<Rightarrow> nat \<Rightarrow> SQLResultSet \<Rightarrow> 'w \<Rightarrow> ((error + SQLResultSet) \<times> 'w) option" where
  "describe_loop drv colNum rs w =
     (case SQLDescribeCol drv (rs_hstmt rs) colNum w of ((retval, colName, dataType, colLength), w) \<Rightarrow>
        if retval = SQL_SUCCESS
        then describe_loop drv (colNum + 1)
          (rs\<lparr>rs_colPositions := (rs_colPositions rs)(colName \<mapsto> colNum),
              rs_dataTypes := rs_dataTypes rs @ [dataType],
              rs_colLengths := rs_colLengths rs @ [colLength]\<rparr>) w
        else Some (Inr rs, w))"

declare describe_loop.simps [code]

definition SQLResultSet_ctor :: "'w odbc \<Rightarrow> handle \<Rightarrow> ('w, SQLResultSet) io" where
  "SQLResultSet_ctor drv h =
     describe_loop drv 1 \<lparr>rs_hstmt = h, rs_colLengths = [], rs_dataTypes = [], rs_colPositions = Map.empty\<rparr>"

definition SQLResultSet_next :: "'w odbc \<Rightarrow> (nat \<Rightarrow> byte) \<Rightarrow> SQLResultSet \<Rightarrow> ('w, bool) io" where
  "SQLResultSet_next drv junk rs =
     seq (call (SQLFetch drv (rs_hstmt rs))) (\<lambda>retval.
     seq (SQLResultSet_handleErrors drv junk rs retval) (\<lambda>_.
       finish (retval = SQL_SUCCESS \<or> retval = SQL_SUCCESS_WITH_INFO)))"

text \<open>\<open>colPositions[colName]\<close>: a name that is not in the map is entered with position 0.\<close>

definition col_position :: "SQLResultSet \<Rightarrow> string \<Rightarrow> nat" where
  "col_position rs colName = (case rs_colPositions rs colName of Some n \<Rightarrow> n | None \<Rightarrow> 0)"

text \<open>\<open>colLengths[colNum - 1]\<close> and \<open>dataTypes[colNum - 1]\<close>: position 0 indexes before the vector.\<close>

definition vector_at :: "'a list \<Rightarrow> nat \<Rightarrow> ('w, 'a) io" where
  "vector_at v colNum = (if 0 < colNum \<and> colNum \<le> length v then finish (v ! (colNum - 1)) else fail (Crash Read_Out_Of_Bounds))"

definition getColLength :: "SQLResultSet \<Rightarrow> nat \<Rightarrow> ('w, nat) io" where
  "getColLength rs colNum = vector_at (rs_colLengths rs) colNum"

definition getColLength_name :: "SQLResultSet \<Rightarrow> string \<Rightarrow> ('w, nat) io" where
  "getColLength_name rs colName = getColLength rs (col_position rs colName)"

definition getDataType :: "SQLResultSet \<Rightarrow> nat \<Rightarrow> ('w, int) io" where
  "getDataType rs colNum = vector_at (rs_dataTypes rs) colNum"

definition getDataType_name :: "SQLResultSet \<Rightarrow> string \<Rightarrow> ('w, int) io" where
  "getDataType_name rs colName = getDataType rs (col_position rs colName)"

text \<open>The getters give what the driver writes to the output buffer, \<open>None\<close> where it writes nothing.\<close>

definition get_data :: "'w odbc \<Rightarrow> (nat \<Rightarrow> byte) \<Rightarrow> SQLResultSet \<Rightarrow> nat \<Rightarrow> c_type \<Rightarrow> nat \<Rightarrow> ('w, sql_value option) io" where
  "get_data drv junk rs colNum ct len =
     seq (call (SQLGetData drv (rs_hstmt rs) colNum ct len)) (\<lambda>(retval, v).
     seq (SQLResultSet_handleErrors drv junk rs retval) (\<lambda>_. finish v))"

definition getUShort :: "'w odbc \<Rightarrow> (nat \<Rightarrow> byte) \<Rightarrow> SQLResultSet \<Rightarrow> nat \<Rightarrow> ('w, sql_value option) io" where
  "getUShort drv junk rs colNum = get_data drv junk rs colNum SQL_C_USHORT 0"

definition getUShort_name :: "'w odbc \<Rightarrow> (nat \<Rightarrow> byte) \<Rightarrow> SQLResultSet \<Rightarrow> string \<Rightarrow> ('w, sql_value option) io" where
  "getUShort_name drv junk rs colName = getUShort drv junk rs (col_position rs colName)"

definition getLong :: "'w odbc \<Rightarrow> (nat \<Rightarrow> byte) \<Rightarrow> SQLResultSet \<Rightarrow> nat \<Rightarrow> ('w, sql_value option) io" where
  "getLong drv junk rs colNum = get_data drv junk rs colNum SQL_C_SLONG 0"

definition getLong_name :: "'w odbc \<Rightarrow> (nat \<Rightarrow> byte) \<Rightarrow> SQLResultSet \<Rightarrow> string \<Rightarrow> ('w, sql_value option) io" where
  "getLong_name drv junk rs colName = getLong drv junk rs (col_position rs colName)"

definition getString :: "'w odbc \<Rightarrow> (nat \<Rightarrow> byte) \<Rightarrow> SQLResultSet \<Rightarrow> nat \<Rightarrow> ('w, sql_value option) io" where
  "getString drv junk rs colNum =
     seq (getColLength rs colNum) (\<lambda>n. get_data drv junk rs colNum SQL_C_CHAR (n + 1))"

definition getString_name :: "'w odbc \<Rightarrow> (nat \<Rightarrow> byte) \<Rightarrow> SQLResultSet \<Rightarrow> string \<Rightarrow> ('w, sql_value option) io" where
  "getString_name drv junk rs colName = getString drv junk rs (col_position rs colName)"

definition getWString :: "'w odbc \<Rightarrow> (nat \<Rightarrow> byte) \<Rightarrow> SQLResultSet \<Rightarrow> nat \<Rightarrow> ('w, sql_value option) io" where
  "getWString drv junk rs colNum =
     seq (getColLength rs colNum) (\<lambda>n. get_data drv junk rs colNum SQL_C_WCHAR (n + 1))"

definition getWString_name :: "'w odbc \<Rightarrow> (nat \<Rightarrow> byte) \<Rightarrow> SQLResultSet \<Rightarrow> string \<Rightarrow> ('w, sql_value option) io" where
  "getWString_name drv junk rs colName = getWString drv junk rs (col_position rs colName)"

section \<open>Statements\<close>

record SQLStatement =
  st_hstmt :: handle
  st_hdbc :: handle

definition SQLStatement_handleErrors :: "'w odbc \<Rightarrow> (nat \<Rightarrow> byte) \<Rightarrow> SQLStatement \<Rightarrow> int \<Rightarrow> ('w, unit) io" where
  "SQLStatement_handleErrors drv junk st =
     handle_errors drv junk SQL_HANDLE_STMT (st_hstmt st) ''A handle needed by the statement is invalid''"

definition SQLStatement_ctor :: "'w odbc \<Rightarrow> (nat \<Rightarrow> byte) \<Rightarrow> SQLConnection \<Rightarrow> ('w, SQLStatement) io" where
  "SQLStatement_ctor drv junk connection =
     seq (call (SQLAllocHandle drv SQL_HANDLE_STMT (conn_hdbc connection))) (\<lambda>(retval, h).
     let st = \<lparr>st_hstmt = h, st_hdbc = conn_hdbc connection\<rparr> in
     seq (SQLStatement_handleErrors drv junk st retval) (\<lambda>_. finish st))"

definition SQLStatement_dtor :: "'w odbc \<Rightarrow> SQLStatement \<Rightarrow> ('w, unit) io" where
  "SQLStatement_dtor drv st = seq (call (SQLFreeHandle drv SQL_HANDLE_STMT (st_hstmt st))) (\<lambda>_. finish ())"

definition prepare :: "'w odbc \<Rightarrow> (nat \<Rightarrow> byte) \<Rightarrow> SQLStatement \<Rightarrow> string \<Rightarrow> ('w, unit) io" where
  "prepare drv junk st statementText =
     seq (call (SQLPrepare drv (st_hstmt st) statementText)) (SQLStatement_handleErrors drv junk st)"

definition bindString :: "'w odbc \<Rightarrow> (nat \<Rightarrow> byte) \<Rightarrow> SQLStatement \<Rightarrow> nat \<Rightarrow> nat \<Rightarrow> address \<Rightarrow> ('w, unit) io" where
  "bindString drv junk st paramNum paramLen param =
     seq (call (SQLBindParameter drv (st_hstmt st) paramNum SQL_C_CHAR paramLen param)) (SQLStatement_handleErrors drv junk st)"

definition bindUShort :: "'w odbc \<Rightarrow> (nat \<Rightarrow> byte) \<Rightarrow> SQLStatement \<Rightarrow> nat \<Rightarrow> address \<Rightarrow> ('w, unit) io" where
  "bindUShort drv junk st paramNum param =
     seq (call (SQLBindParameter drv (st_hstmt st) paramNum SQL_C_USHORT 0 param)) (SQLStatement_handleErrors drv junk st)"

definition bindLong :: "'w odbc \<Rightarrow> (nat \<Rightarrow> byte) \<Rightarrow> SQLStatement \<Rightarrow> nat \<Rightarrow> address \<Rightarrow> ('w, unit) io" where
  "bindLong drv junk st paramNum param =
     seq (call (SQLBindParameter drv (st_hstmt st) paramNum SQL_C_SLONG 0 param)) (SQLStatement_handleErrors drv junk st)"

definition bindULong :: "'w odbc \<Rightarrow> (nat \<Rightarrow> byte) \<Rightarrow> SQLStatement \<Rightarrow> nat \<Rightarrow> address \<Rightarrow> ('w, unit) io" where
  "bindULong drv junk st paramNum param =
     seq (call (SQLBindParameter drv (st_hstmt st) paramNum SQL_C_ULONG 0 param)) (SQLStatement_handleErrors drv junk st)"

definition commit :: "'w odbc \<Rightarrow> (nat \<Rightarrow> byte) \<Rightarrow> SQLStatement \<Rightarrow> ('w, unit) io" where
  "commit drv junk st = seq (call (SQLEndTran drv (st_hdbc st))) (SQLStatement_handleErrors drv junk st)"

text \<open>The first half of the four execute functions.\<close>

definition execute_first :: "'w odbc \<Rightarrow> (nat \<Rightarrow> byte) \<Rightarrow> SQLStatement \<Rightarrow> ('w \<Rightarrow> int \<times> 'w) \<Rightarrow> bool \<Rightarrow> ('w, unit) io" where
  "execute_first drv junk st run doCommit =
     seq (call run) (\<lambda>retval.
     seq (SQLStatement_handleErrors drv junk st retval) (\<lambda>_.
       if doCommit then seq (call (SQLEndTran drv (st_hdbc st))) (SQLStatement_handleErrors drv junk st)
       else finish ()))"

definition execute :: "'w odbc \<Rightarrow> (nat \<Rightarrow> byte) \<Rightarrow> SQLStatement \<Rightarrow> variables \<Rightarrow> bool \<Rightarrow> ('w, bool) io" where
  "execute drv junk st vars doCommit =
     seq (execute_first drv junk st (SQLExecute drv (st_hstmt st) vars) doCommit) (\<lambda>_.
     seq (call (SQLMoreResults drv (st_hstmt st))) (\<lambda>retval.
       finish (retval = SQL_SUCCESS \<or> retval = SQL_SUCCESS_WITH_INFO)))"

definition executeUpdate :: "'w odbc \<Rightarrow> (nat \<Rightarrow> byte) \<Rightarrow> SQLStatement \<Rightarrow> variables \<Rightarrow> bool \<Rightarrow> ('w, int) io" where
  "executeUpdate drv junk st vars doCommit =
     seq (execute_first drv junk st (SQLExecute drv (st_hstmt st) vars) doCommit) (\<lambda>_.
     seq (call (SQLRowCount drv (st_hstmt st) 0)) (\<lambda>(retval, len).
     seq (SQLStatement_handleErrors drv junk st retval) (\<lambda>_. finish len)))"

definition executeQuery :: "'w odbc \<Rightarrow> (nat \<Rightarrow> byte) \<Rightarrow> SQLStatement \<Rightarrow> variables \<Rightarrow> bool \<Rightarrow> ('w, SQLResultSet) io" where
  "executeQuery drv junk st vars doCommit =
     seq (execute_first drv junk st (SQLExecute drv (st_hstmt st) vars) doCommit) (\<lambda>_.
       SQLResultSet_ctor drv (st_hstmt st))"

definition executeQuery_text :: "'w odbc \<Rightarrow> (nat \<Rightarrow> byte) \<Rightarrow> SQLStatement \<Rightarrow> string \<Rightarrow> variables \<Rightarrow> bool \<Rightarrow> ('w, SQLResultSet) io" where
  "executeQuery_text drv junk st statementText vars doCommit =
     seq (execute_first drv junk st (SQLExecDirect drv (st_hstmt st) statementText vars) doCommit) (\<lambda>_.
       SQLResultSet_ctor drv (st_hstmt st))"

section \<open>The contract of the error checks\<close>

text \<open>
  What every \<open>handleErrors\<close> promises the operations that call it: a code that is neither
  \<open>SQL_ERROR\<close> nor \<open>SQL_INVALID_HANDLE\<close> passes and changes nothing; one of these two never passes.
\<close>

definition passes :: "int \<Rightarrow> bool" where
  "passes r \<longleftrightarrow> r \<noteq> SQL_ERROR \<and> r \<noteq> SQL_INVALID_HANDLE"

locale checked_calls =
  fixes check :: "int \<Rightarrow> ('w, unit) io"
  assumes check_passes: "passes r \<Longrightarrow> check r w = Some (Inr (), w)"
    and check_stops: "\<not> passes r \<Longrightarrow> check r w \<noteq> Some (Inr u, w')"
begin

lemma check_Inr_iff: "check r w = Some (Inr (), w') \<longleftrightarrow> passes r \<and> w' = w"
  using check_passes [of r w] check_stops [of r w "()" w'] by (cases "passes r") auto

lemma seq_check_Inr_iff: "seq (check r) g w = Some (Inr y, w') \<longleftrightarrow> passes r \<and> g () w = Some (Inr y, w')"
  by (auto simp: seq_Inr_iff check_Inr_iff)

lemma seq_check: "passes r \<Longrightarrow> seq (check r) g = g ()"
  by (rule ext) (simp add: seq_def check_passes)

lemma call_check_Inr_iff:
  "seq (call f) check w = Some (Inr (), w') \<longleftrightarrow> passes (fst (f w)) \<and> w' = snd (f w)"
  by (auto simp: check_Inr_iff)

lemma call_passes: "f w = (r, w') \<Longrightarrow> passes r \<Longrightarrow> seq (call f) check w = Some (Inr (), w')"
  by (simp add: check_passes)

end

lemma passes_success [simp]: "passes SQL_SUCCESS" "passes SQL_NO_DATA"
  by (simp_all add: passes_def sql_codes)

lemma throw_text_not_Inr: "throw_text buf w \<noteq> Some (Inr x, w')"
  by (cases "strlen buf 0" rule: run_cases) (simp_all add: throw_text_def seq_def)

lemma handle_errors_checked: "checked_calls (handle_errors drv junk ht h invalid)"
proof
  fix r w
  assume "passes r"
  then show "handle_errors drv junk ht h invalid r w = Some (Inr (), w)"
    by (simp add: handle_errors_def passes_def)
next
  fix r w u w'
  assume "\<not> passes r"
  then show "handle_errors drv junk ht h invalid r w \<noteq> Some (Inr u, w')"
    by (auto simp: handle_errors_def passes_def seq_Inr_iff throw_text_not_Inr sql_codes)
qed

interpretation connection_calls: checked_calls "SQLConnection_handleErrors drv junk c" for drv junk c
  unfolding SQLConnection_handleErrors_def by (rule handle_errors_checked)

interpretation statement_calls: checked_calls "SQLStatement_handleErrors drv junk st" for drv junk st
  unfolding SQLStatement_handleErrors_def by (rule handle_errors_checked)

interpretation result_calls: checked_calls "SQLResultSet_handleErrors drv junk rs" for drv junk rs
  unfolding SQLResultSet_handleErrors_def by (rule handle_errors_checked)

section \<open>Documented behaviour of the driver\<close>

text \<open>
  \<open>SQLGetDiagRec\<close> with a buffer of 512 bytes: the records of a handle are numbered from 1. The text of a
  record and a terminator are written to the start of the buffer, the rest of which stays as it was;
  a text that does not fit is cut, which the code \<open>SQL_SUCCESS_WITH_INFO\<close> reports. Behind the last record
  the code is \<open>SQL_NO_DATA\<close>, for a number that is not positive \<open>SQL_ERROR\<close>, and nothing is written.
\<close>

definition put_text :: "byte list \<Rightarrow> byte list \<Rightarrow> byte list" where
  "put_text txt msg = take 511 txt @ 0 # drop (length (take 511 txt) + 1) msg"

definition has_diagnostics :: "'w odbc \<Rightarrow> handle_type \<Rightarrow> handle \<Rightarrow> byte list list \<Rightarrow> 'w \<Rightarrow> bool" where
  "has_diagnostics drv ht h recs w \<longleftrightarrow>
     (\<forall>i msg. length msg = 512 \<longrightarrow> SQLGetDiagRec drv ht h i msg w =
        ((if i \<le> 0 then (SQL_ERROR, msg)
          else if int (length recs) < i then (SQL_NO_DATA, msg)
          else (if length (recs ! nat (i - 1)) < 512 then SQL_SUCCESS else SQL_SUCCESS_WITH_INFO, put_text (recs ! nat (i - 1)) msg)), w))"

lemma length_put_text [simp]: "length msg = 512 \<Longrightarrow> length (put_text txt msg) = 512"
  by (simp add: put_text_def)

lemma sint_word_16: "- 32768 \<le> z \<Longrightarrow> z < 32768 \<Longrightarrow> sint (word_of_int z :: 16 word) = z"
  by (simp add: signed_of_int signed_take_bit_int_eq_self)

lemma diag_loop_records:
  assumes "has_diagnostics drv ht h recs w" and "length recs < 32767" and "n \<le> length recs" and "length msg = 512"
  shows "diag_loop drv ht h (1 + int n) msg w = Some (Inr (fold put_text (drop n recs) msg), w)"
  using assms(3,4)
proof (induction "length recs - n" arbitrary: n msg)
  case 0
  then have n: "n = length recs" by simp
  have s: "sint (word_of_int (1 + int n) :: 16 word) = 1 + int n" using assms(2) n by (intro sint_word_16) auto
  show ?case
    by (subst diag_loop.simps, unfold s) (use assms(1) n 0(3) in \<open>simp add: has_diagnostics_def\<close>)
next
  case (Suc k)
  then have n: "n < length recs" by simp
  have s: "sint (word_of_int (1 + int n) :: 16 word) = 1 + int n" using assms(2) n by (intro sint_word_16) auto
  obtain r where r: "SQLGetDiagRec drv ht h (1 + int n) msg w = ((r, put_text (recs ! n) msg), w)"
    "r = SQL_SUCCESS \<or> r = SQL_SUCCESS_WITH_INFO"
    using assms(1) n Suc.prems(2) by (simp add: has_diagnostics_def)
  have "diag_loop drv ht h (1 + int (Suc n)) (put_text (recs ! n) msg) w =
      Some (Inr (fold put_text (drop (Suc n) recs) (put_text (recs ! n) msg)), w)"
    using Suc.hyps(2) n Suc.prems(2) by (intro Suc.hyps(1)) simp_all
  moreover have "drop n recs = recs ! n # drop (Suc n) recs" using n by (simp add: Cons_nth_drop_Suc)
  ultimately show ?case
    by (subst diag_loop.simps, unfold s) (use r in \<open>auto simp: sql_codes add.commute\<close>)
qed

lemma length_fold_put_text: "length msg = 512 \<Longrightarrow> length (fold put_text recs msg) = 512"
  by (induction recs arbitrary: msg) simp_all

lemma fold_put_text_last:
  "recs \<noteq> [] \<Longrightarrow> length msg = 512 \<Longrightarrow>
    \<exists>pad. fold put_text recs msg = take 511 (last recs) @ 0 # pad \<and> length (take 511 (last recs) @ 0 # pad) = 512"
proof (induction recs rule: rev_induct)
  case (snoc t recs)
  then have "length (put_text t (fold put_text recs msg)) = 512" by (simp add: length_fold_put_text)
  then show ?case by (simp add: put_text_def [of t])
qed simp

text \<open>The columns of an executed query: their names, types and sizes, in the order of the query.\<close>

definition describes :: "'w odbc \<Rightarrow> handle \<Rightarrow> (string \<times> int \<times> nat) list \<Rightarrow> 'w \<Rightarrow> bool" where
  "describes drv h cols w \<longleftrightarrow>
     (\<forall>i<length cols. SQLDescribeCol drv h (Suc i) w = ((SQL_SUCCESS, cols ! i), w)) \<and>
     (\<exists>c. SQLDescribeCol drv h (Suc (length cols)) w = ((SQL_ERROR, c), w))"

definition column_set :: "handle \<Rightarrow> (string \<times> int \<times> nat) list \<Rightarrow> SQLResultSet" where
  "column_set h cols = \<lparr>rs_hstmt = h, rs_colLengths = map (snd \<circ> snd) cols, rs_dataTypes = map (fst \<circ> snd) cols,
     rs_colPositions = map_of (rev (zip (map fst cols) (map Suc [0..<length cols])))\<rparr>"

lemma column_set_snoc:
  "column_set h (cols @ [(nm, dt, len)]) = (column_set h cols)
     \<lparr>rs_colPositions := (rs_colPositions (column_set h cols))(nm \<mapsto> Suc (length cols)),
      rs_dataTypes := rs_dataTypes (column_set h cols) @ [dt],
      rs_colLengths := rs_colLengths (column_set h cols) @ [len]\<rparr>"
  by (simp add: column_set_def)

lemma describe_loop_columns:
  assumes "describes drv h cols w" and "n \<le> length cols"
  shows "describe_loop drv (Suc n) (column_set h (take n cols)) w = Some (Inr (column_set h cols), w)"
  using assms(2)
proof (induction "length cols - n" arbitrary: n)
  case 0
  then have n: "n = length cols" by simp
  obtain c where "SQLDescribeCol drv h (Suc n) w = ((SQL_ERROR, c), w)"
    using assms(1) n by (auto simp: describes_def)
  then show ?case using n
    by (subst describe_loop.simps) (simp add: column_set_def sql_codes split: prod.splits)
next
  case (Suc k)
  then have n: "n < length cols" by simp
  obtain nm dt len where c: "cols ! n = (nm, dt, len)" by (cases "cols ! n")
  have d: "SQLDescribeCol drv h (Suc n) w = ((SQL_SUCCESS, nm, dt, len), w)"
    using assms(1) n c by (simp add: describes_def)
  have t: "take (Suc n) cols = take n cols @ [(nm, dt, len)]"
    using n c by (simp add: take_Suc_conv_app_nth)
  have "describe_loop drv (Suc (Suc n)) (column_set h (take (Suc n) cols)) w = Some (Inr (column_set h cols), w)"
    using Suc.hyps n by (intro Suc.hyps) simp_all
  moreover have "rs_hstmt (column_set h (take n cols)) = h" by (simp add: column_set_def)
  ultimately show ?case
    using d n unfolding t column_set_snoc by (subst describe_loop.simps) simp
qed

lemma SQLResultSet_ctor_columns:
  assumes "describes drv h cols w"
  shows "SQLResultSet_ctor drv h w = Some (Inr (column_set h cols), w)"
  using describe_loop_columns [OF assms, of 0] by (simp add: SQLResultSet_ctor_def column_set_def)

lemma col_position_column:
  assumes "distinct (map fst cols)" and "i < length cols"
  shows "col_position (column_set h cols) (fst (cols ! i)) = Suc i"
proof -
  let ?z = "zip (map fst cols) (map Suc [0..<length cols])"
  have "distinct (map fst (rev ?z))" using assms(1) by (simp add: rev_map [symmetric])
  moreover have "(fst (cols ! i), Suc i) \<in> set (rev ?z)"
    using assms(2) by (auto simp: set_zip intro!: exI [of _ i])
  ultimately have "map_of (rev ?z) (fst (cols ! i)) = Some (Suc i)" by simp
  then show ?thesis by (simp add: col_position_def column_set_def)
qed

lemma diag_loop_diverges:
  assumes "\<And>i msg w. passes (fst (fst (SQLGetDiagRec drv ht h i msg w))) \<and> fst (fst (SQLGetDiagRec drv ht h i msg w)) \<noteq> SQL_NO_DATA"
  shows "diag_loop drv ht h i msg w = None"
proof (rule ccontr)
  assume "diag_loop drv ht h i msg w \<noteq> None"
  then obtain y where run: "diag_loop drv ht h i msg w = Some y" by blast
  let ?Q = "\<lambda>drv' ht' h' i msg w y. drv' = drv \<longrightarrow> ht' = ht \<longrightarrow> h' \<noteq> h"
  have "?Q drv ht h i msg w y"
  proof (rule diag_loop.raw_induct [where P = ?Q, OF _ run], intro impI notI)
    fix f drv' ht' h' i msg w y
    assume IH: "\<And>drv' ht' h' i msg w y. f drv' ht' h' i msg w = Some y \<Longrightarrow> ?Q drv' ht' h' i msg w y"
      and eq: "(case SQLGetDiagRec drv' ht' h' (sint (word_of_int i :: 16 word)) msg w of ((retval, msg), w) \<Rightarrow>
        if retval \<noteq> SQL_NO_DATA \<and> retval \<noteq> SQL_ERROR \<and> retval \<noteq> SQL_INVALID_HANDLE
        then f drv' ht' h' (i + 1) msg w else Some (Inr msg, w)) = Some y"
      and eqs: "drv' = drv" "ht' = ht" "h' = h"
    obtain r m w' where g: "SQLGetDiagRec drv ht h (sint (word_of_int i :: 16 word)) msg w = ((r, m), w')"
      by (metis prod.exhaust)
    have "passes r" "r \<noteq> SQL_NO_DATA"
      using assms [of "sint (word_of_int i :: 16 word)" msg w] unfolding g by simp_all
    then have "f drv ht h (i + 1) m w' = Some y"
      using eq g unfolding eqs passes_def by simp
    from IH [OF this] show False by simp
  qed
  then show False by simp
qed

section \<open>Properties\<close>

text \<open>
  C26. When the driver reports an error and a statement has between one and 32766 diagnostic records, the
  exception carries the text of the last of them, cut at 511 characters, whatever the records before it
  left in the buffer: the texts of the others are lost.
\<close>

theorem error_text_is_last_record:
  assumes "has_diagnostics drv SQL_HANDLE_STMT (st_hstmt st) recs w" and "recs \<noteq> []" and "length recs < 32767"
    and "0 \<notin> set (last recs)"
  shows "SQLStatement_handleErrors drv junk st SQL_ERROR w =
    Some (Inl (Exception (map (\<lambda>b. char_of (unat b)) (take 511 (last recs)))), w)"
proof -
  let ?txt = "take 511 (last recs)" and ?buf = "fold put_text recs (fresh junk 512)"
  have l: "length (fresh junk 512) = 512" by (simp add: fresh_def)
  from fold_put_text_last [OF assms(2) l] obtain pad where pad: "?buf = ?txt @ 0 # pad" "length (?txt @ 0 # pad) = 512" by blast
  have "diag_loop drv SQL_HANDLE_STMT (st_hstmt st) 1 (fresh junk 512) w = Some (Inr (?txt @ 0 # pad), w)"
    using diag_loop_records [OF assms(1,3), of 0 "fresh junk 512"] l unfolding pad(1) [symmetric] by simp
  moreover have "memcpy_s (fresh junk 512) 0 512 (?txt @ 0 # pad) = ret (?txt @ 0 # pad)"
    using pad(2) by (subst memcpy_s_fits) (simp_all del: length_append)
  moreover have "take 512 (?txt @ 0 # pad) = ?txt @ 0 # pad" using pad(2) by (intro take_all) simp
  ultimately have "getSqlMessage drv junk SQL_HANDLE_STMT (st_hstmt st) w = Some (Inr (?txt @ 0 # pad), w)"
    by (simp add: getSqlMessage_def seq_def SQL_MAX_MESSAGE_LENGTH_def del: take_append)
  moreover have "strlen (?txt @ 0 # pad) 0 = ret (length ?txt)"
    using strlen_at [of ?txt "[]" 0 pad] assms(4) by (auto dest: in_set_takeD)
  moreover have "take (length ?txt) (?txt @ 0 # pad) = ?txt" by (rule append_eq_conv_conj [THEN iffD1, THEN conjunct1, OF refl, symmetric])
  ultimately show ?thesis
    by (simp add: SQLStatement_handleErrors_def handle_errors_def seq_def [of "getSqlMessage _ _ _ _"] throw_text_def
      del: length_take take_append)
qed

definition silent :: "'w odbc" where
  "silent = \<lparr>SQLAllocHandle = \<lambda>t h w. ((0, 7), w), SQLFreeHandle = \<lambda>t h w. (0, w), SQLSetEnvAttr = \<lambda>h w. (0, w),
     SQLSetConnectAttr = \<lambda>h w. (0, w), SQLGetConnectAttr = \<lambda>h v w. ((0, v), w), SQLDriverConnect = \<lambda>h c w. (0, w),
     SQLDisconnect = \<lambda>h w. (0, w), SQLGetDiagRec = \<lambda>t h i m w. ((100, m), w), SQLPrepare = \<lambda>h q w. (0, w),
     SQLBindParameter = \<lambda>h n t l a w. (0, w), SQLExecute = \<lambda>h v w. (0, w), SQLExecDirect = \<lambda>h q v w. (0, w),
     SQLEndTran = \<lambda>h w. (0, w), SQLRowCount = \<lambda>h n w. ((0, 0), w), SQLMoreResults = \<lambda>h w. (100, w),
     SQLDescribeCol = \<lambda>h i w. ((- 1, [], 0, 0), w), SQLFetch = \<lambda>h w. (100, w),
     SQLGetData = \<lambda>h i t l w. ((100, None), w)\<rparr>"

definition diagnosing :: "byte list list \<Rightarrow> 'w odbc" where
  "diagnosing recs = silent\<lparr>SQLGetDiagRec := \<lambda>t h i msg w.
     ((if i \<le> 0 then (SQL_ERROR, msg)
       else if int (length recs) < i then (SQL_NO_DATA, msg)
       else (if length (recs ! nat (i - 1)) < 512 then SQL_SUCCESS else SQL_SUCCESS_WITH_INFO, put_text (recs ! nat (i - 1)) msg)), w)\<rparr>"

theorem error_text_is_last_record_witness:
  "SQLStatement_handleErrors (diagnosing [[66, 67, 68], [65]]) (\<lambda>_. 3) \<lparr>st_hstmt = 7, st_hdbc = 1\<rparr> SQL_ERROR () =
     Some (Inl (Exception ''A''), ())"
proof -
  have "has_diagnostics (diagnosing [[66, 67, 68], [65]]) SQL_HANDLE_STMT (st_hstmt \<lparr>st_hstmt = 7, st_hdbc = 1\<rparr>) [[66, 67, 68], [65]] ()"
    by (simp add: has_diagnostics_def diagnosing_def)
  from error_text_is_last_record [OF this, of "\<lambda>_. 3"]
  have "SQLStatement_handleErrors (diagnosing [[66, 67, 68], [65]]) (\<lambda>_. 3) \<lparr>st_hstmt = 7, st_hdbc = 1\<rparr> SQL_ERROR () =
      Some (Inl (Exception (map (\<lambda>b. char_of (unat b)) [65 :: byte])), ())" by simp
  moreover have "map (\<lambda>b. char_of (unat b)) [65 :: byte] = ''A''" by code_simp
  ultimately show ?thesis by simp
qed

text \<open>
  Nothing bounds the loop over the diagnostic records: with a driver that reports a record for
  every number it is asked for, an error of a statement is never turned into an exception.
\<close>

theorem error_text_diverges:
  assumes "\<And>i msg w. passes (fst (fst (SQLGetDiagRec drv SQL_HANDLE_STMT (st_hstmt st) i msg w))) \<and>
    fst (fst (SQLGetDiagRec drv SQL_HANDLE_STMT (st_hstmt st) i msg w)) \<noteq> SQL_NO_DATA"
  shows "SQLStatement_handleErrors drv junk st SQL_ERROR w = None"
  using diag_loop_diverges [OF assms]
  by (simp add: SQLStatement_handleErrors_def handle_errors_def getSqlMessage_def seq_def)

theorem error_text_diverges_witness:
  "SQLStatement_handleErrors (silent\<lparr>SQLGetDiagRec := \<lambda>t h i m w. ((SQL_SUCCESS, replicate 512 0), w)\<rparr>)
     (\<lambda>_. 3) \<lparr>st_hstmt = 7, st_hdbc = 1\<rparr> SQL_ERROR () = None"
  by (rule error_text_diverges) (simp add: passes_def sql_codes)

text \<open>
  C24. \<open>executeUpdate\<close> gives a row count exactly when the execution, the commit, where one is asked
  for, and the row count call each return a code that is neither an error nor an invalid handle;
  the calls are made in this order and none is made twice.
\<close>

theorem executeUpdate_iff:
  "executeUpdate drv junk st vars doCommit w = Some (Inr len, w') \<longleftrightarrow>
    (\<exists>r w1 c w2 r2. SQLExecute drv (st_hstmt st) vars w = (r, w1) \<and> passes r \<and>
       (if doCommit then SQLEndTran drv (st_hdbc st) w1 = (c, w2) \<and> passes c else w2 = w1) \<and>
       SQLRowCount drv (st_hstmt st) 0 w2 = ((r2, len), w') \<and> passes r2)"
proof -
  obtain r w1 where e: "SQLExecute drv (st_hstmt st) vars w = (r, w1)" by (metis prod.exhaust)
  obtain c w2 where t: "SQLEndTran drv (st_hdbc st) w1 = (c, w2)" by (metis prod.exhaust)
  have count: "(case fst (SQLRowCount drv (st_hstmt st) 0 v) of (retval, len) \<Rightarrow>
      seq (SQLStatement_handleErrors drv junk st retval) (\<lambda>_. finish len)) (snd (SQLRowCount drv (st_hstmt st) 0 v)) =
      Some (Inr len, w') \<longleftrightarrow>
      (\<exists>r2. SQLRowCount drv (st_hstmt st) 0 v = ((r2, len), w') \<and> passes r2)" for v
  proof -
    obtain r2 n v' where k: "SQLRowCount drv (st_hstmt st) 0 v = ((r2, n), v')" by (metis prod.exhaust)
    then show ?thesis by (auto simp: statement_calls.seq_check_Inr_iff)
  qed
  show ?thesis
    by (simp add: executeUpdate_def execute_first_def seq_assoc e t count statement_calls.seq_check_Inr_iff)
qed

text \<open>
  C25. A result set built from the columns of a query finds each of them, under its name, at its
  position and with its size and type; asking for the size of a name that no column has reads
  before the start of the vector of sizes.
\<close>

theorem result_set_columns:
  assumes "describes drv h cols w" and "distinct (map fst cols)"
  shows "\<exists>rs. SQLResultSet_ctor drv h w = Some (Inr rs, w) \<and> rs_hstmt rs = h \<and>
    (\<forall>i<length cols. col_position rs (fst (cols ! i)) = Suc i \<and>
       getDataType_name rs (fst (cols ! i)) w = Some (Inr (fst (snd (cols ! i))), w) \<and>
       getColLength_name rs (fst (cols ! i)) w = Some (Inr (snd (snd (cols ! i))), w)) \<and>
    (\<forall>x. x \<notin> fst ` set cols \<longrightarrow> getColLength_name rs x w = Some (Inl (Crash Read_Out_Of_Bounds), w))"
proof (intro exI conjI)
  show "SQLResultSet_ctor drv h w = Some (Inr (column_set h cols), w)"
    by (rule SQLResultSet_ctor_columns [OF assms(1)])
  show "\<forall>i<length cols. col_position (column_set h cols) (fst (cols ! i)) = Suc i \<and>
       getDataType_name (column_set h cols) (fst (cols ! i)) w = Some (Inr (fst (snd (cols ! i))), w) \<and>
       getColLength_name (column_set h cols) (fst (cols ! i)) w = Some (Inr (snd (snd (cols ! i))), w)"
    using col_position_column [OF assms(2)]
    by (auto simp: getDataType_name_def getDataType_def getColLength_name_def getColLength_def vector_at_def column_set_def)
  have "rs_colPositions (column_set h cols) x = None" if "x \<notin> fst ` set cols" for x
    using that by (auto simp: column_set_def map_of_eq_None_iff dest!: set_zip_leftD)
  then show "\<forall>x. x \<notin> fst ` set cols \<longrightarrow> getColLength_name (column_set h cols) x w = Some (Inl (Crash Read_Out_Of_Bounds), w)"
    by (simp add: getColLength_name_def getColLength_def vector_at_def col_position_def)
qed (simp add: column_set_def)

definition two_columns :: "(string \<times> int \<times> nat) list" where
  "two_columns = [(''TTL'', 4, 10), (''NAME'', 12, 255)]"

theorem result_set_columns_witness:
  "\<exists>rs. SQLResultSet_ctor (silent\<lparr>SQLDescribeCol := \<lambda>h i w.
      if i = 1 then ((0, ''TTL'', 4, 10), w) else if i = 2 then ((0, ''NAME'', 12, 255), w) else ((- 1, [], 0, 0), w)\<rparr>) 7 () =
      Some (Inr rs, ()) \<and> rs_hstmt rs = 7 \<and>
    (\<forall>i<length two_columns. col_position rs (fst (two_columns ! i)) = Suc i \<and>
       getDataType_name rs (fst (two_columns ! i)) () = Some (Inr (fst (snd (two_columns ! i))), ()) \<and>
       getColLength_name rs (fst (two_columns ! i)) () = Some (Inr (snd (snd (two_columns ! i))), ())) \<and>
    (\<forall>x. x \<notin> fst ` set two_columns \<longrightarrow> getColLength_name rs x () = Some (Inl (Crash Read_Out_Of_Bounds), ()))"
  by (rule result_set_columns) (auto simp: two_columns_def describes_def less_Suc_eq sql_codes)

end
