(* ===== verification/Resolver.thy ===== *)
theory Resolver
  imports ResourceRecord Query Odbc
begin

text \<open>
  \<open>src/DNS/DNSResolver.h\<close> and \<open>.cpp\<close>: extraction of the questions of a packet, resolution of a
  question from the cache or through the recursive server, and caching of a recursive response.

  The state is the world outside (driver and network), the memory of the request's packet, the
  table of known names and the vector of extracted questions. The configuration holds what does
  not change: driver and network functions, the connection, the recursive server's address, the
  contents of uninitialised memory, the bytes that lie on the stack from the address of the
  parameter \<open>packet\<close> on, and whether informational logging is enabled.
\<close>

section \<open>State\<close>

record 'w winsock =
  ws_sendto :: "byte list \<Rightarrow> 'w \<Rightarrow> int \<times> 'w"
  ws_select :: "'w \<Rightarrow> int \<times> 'w"
  ws_recv :: "nat \<Rightarrow> 'w \<Rightarrow> (int \<times> byte list) \<times> 'w"
  WSAGetLastError :: "'w \<Rightarrow> int \<times> 'w"

definition SOCKET_ERROR :: int where
  "SOCKET_ERROR = - 1"

record 'w resolver =
  rv_odbc :: "'w odbc"
  rv_net :: "'w winsock"
  rv_connection :: SQLConnection
  rv_recursiveServer :: "32 word"
  rv_junk :: "nat \<Rightarrow> byte"
  rv_stack :: "byte list"
  rv_info :: bool

record 'w rstate =
  rs_world :: 'w
  rs_packet :: "byte list"
  rs_pointers :: pointer_map
  rs_queries :: "DNSQuery list"

record ResponseInfo =
  ri_answers :: "16 word"
  ri_authAnswers :: "16 word"
  ri_otherAnswers :: "16 word"
  ri_rcode :: RCODE
  ri_length :: "64 word option"
  ri_recursionOccurred :: bool
  ri_truncationOccurred :: bool

text \<open>A fresh \<open>ResponseInfo\<close>; \<open>length\<close> has no initialiser.\<close>

definition new_ResponseInfo :: ResponseInfo where
  "new_ResponseInfo = \<lparr>ri_answers = 0, ri_authAnswers = 0, ri_otherAnswers = 0, ri_rcode = RCODE_NO_ERROR,
     ri_length = None, ri_recursionOccurred = False, ri_truncationOccurred = False\<rparr>"

abbreviation world_io :: "('w, 'a) io \<Rightarrow> ('w rstate, 'a) io" where
  "world_io \<equiv> on_part rs_world (\<lambda>w s. s\<lparr>rs_world := w\<rparr>)"

definition set_packet :: "byte list \<Rightarrow> ('w rstate, unit) io" where
  "set_packet p = modify (\<lambda>s. s\<lparr>rs_packet := p\<rparr>)"

definition get_packet :: "('w rstate, byte list) io" where
  "get_packet = seq get_state (\<lambda>s. finish (rs_packet s))"

definition get_pointers :: "('w rstate, pointer_map) io" where
  "get_pointers = seq get_state (\<lambda>s. finish (rs_pointers s))"

definition add_pointer :: "byte list \<Rightarrow> 16 word \<Rightarrow> ('w rstate, unit) io" where
  "add_pointer nm loc = modify (\<lambda>s. s\<lparr>rs_pointers := (rs_pointers s)(nm \<mapsto> loc)\<rparr>)"

text \<open>\<open>validateDescrArrays\<close>, on the values of the four enumerations.\<close>

definition validateDescrArrays :: "32 word \<Rightarrow> 32 word \<Rightarrow> 16 word \<Rightarrow> 16 word \<Rightarrow> bool" where
  "validateDescrArrays opcode rcode type rclass \<longleftrightarrow>
     0 \<le> opcode \<and> opcode < 3 \<and> 0 \<le> rcode \<and> rcode < 6 \<and>
     0 \<le> type \<and> type < 256 \<and> 0 \<le> rclass \<and> rclass < 256"

section \<open>Extracting the questions\<close>

fun extract_loop :: "'w resolver \<Rightarrow> nat \<Rightarrow> nat \<Rightarrow> nat \<Rightarrow> ('w rstate, nat) io" where
  "extract_loop rv 0 ptr len = finish len"
| "extract_loop rv (Suc n) ptr len =
     seq get_packet (\<lambda>p.
     seq (pure_run (DNSQuery_ctor (rv_junk rv) p ptr (rv_stack rv))) (\<lambda>query.
     seq (add_pointer (cstr (q_qname query)) (of_nat sizeof_DNSHeader)) (\<lambda>_.
     seq (modify (\<lambda>s. s\<lparr>rs_queries := rs_queries s @ [query]\<rparr>)) (\<lambda>_.
       extract_loop rv n (ptr + q_length query) (len + q_length query)))))"

definition extractQueries :: "'w resolver \<Rightarrow> ('w rstate, nat) io" where
  "extractQueries rv =
     seq get_packet (\<lambda>p.
       extract_loop rv (unat (ntohs (h_qdcount (packet_header p)))) sizeof_DNSHeader 0)"

section \<open>The recursive server\<close>

definition throw_last_error :: "'w resolver \<Rightarrow> ('w rstate, 'a) io" where
  "throw_last_error rv = seq (world_io (call (WSAGetLastError (rv_net rv)))) (\<lambda>e. fail (Int_Thrown e))"

text \<open>
  \<open>recursiveResolve(packet, packet, packetLen)\<close>: the request is sent on and the reply is received
  over it. The difference of lengths is computed in \<open>size_t\<close>.
\<close>

definition recursiveResolve :: "'w resolver \<Rightarrow> 64 word \<Rightarrow> ('w rstate, 64 word) io" where
  "recursiveResolve rv packetLen =
     (if rv_recursiveServer rv = 4294967295 then finish packetLen
      else
      seq get_packet (\<lambda>p.
      let originalId = h_id (packet_header p) in
      seq (pure_run (rdn p 0 (unat packetLen))) (\<lambda>bytes.
      seq (world_io (call (ws_sendto (rv_net rv) bytes))) (\<lambda>retval.
      if retval = SOCKET_ERROR then throw_last_error rv else
      seq (world_io (call (ws_select (rv_net rv)))) (\<lambda>retval.
      if retval = SOCKET_ERROR then throw_last_error rv else
      seq (world_io (call (ws_recv (rv_net rv) MAX_DNS_PACKET_LENGTH))) (\<lambda>(retval, bytes).
      if retval = SOCKET_ERROR then throw_last_error rv else
      seq (pure_run (wr p 0 bytes)) (\<lambda>p.
      seq (set_packet p) (\<lambda>_.
      if h_id (packet_header p) \<noteq> originalId then fail (Exception ''Recursive response ID mismatch'')
      else finish (word_of_int retval - packetLen)))))))))"

section \<open>The cache\<close>

definition sqlQuery :: string where
  "sqlQuery = ''WITH RESULTS(NAME, VALUE, EXPIRES, TYPE, CLASS) AS ('' @
     ''SELECT NAME, VALUE, EXPIRES, TYPE, CLASS '' @
     ''FROM RECORD '' @
     ''WHERE NAME = ? AND EXPIRES > {fn NOW()} '' @
     ''UNION ALL '' @
     ''SELECT RECORD.NAME, RECORD.VALUE, RECORD.EXPIRES, RECORD.TYPE, RECORD.CLASS '' @
     ''FROM RECORD '' @
     ''JOIN RESULTS '' @
     ''ON RECORD.NAME = RESULTS.VALUE AND RECORD.TYPE IN(5, 1) '' @
     ''AND RECORD.EXPIRES > {fn NOW()} '' @
     '') SELECT { fn TIMESTAMPDIFF(SQL_TSI_SECOND, { fn NOW() }, '' @
     ''EXPIRES) } TTL, NAME, VALUE, TYPE, CLASS FROM RESULTS''"

definition deleteQuery :: string where
  "deleteQuery = ''DELETE FROM RECORD WHERE NAME = ? '' @
     ''AND EXPIRES <= {fn NOW()} ''"

definition insertQuery :: string where
  "insertQuery = ''IF NOT EXISTS (SELECT TOP 1 1 FROM RECORD WHERE NAME = ? AND '' @
     ''VALUE = ? AND EXPIRES >= {fn NOW()}) '' @
     ''BEGIN '' @
     ''INSERT INTO RECORD(NAME, VALUE, EXPIRES, TYPE, '' @
     ''CLASS) VALUES(?, ?, { fn TIMESTAMPADD(SQL_TSI_SECOND, ?, '' @
     ''{ fn NOW() }) }, ?, ?) '' @
     ''END''"

text \<open>
  A block with a local \<open>SQLStatement\<close>: its destructor runs when the block ends and when an exception
  leaves it.
\<close>

definition with_statement :: "'w resolver \<Rightarrow> (SQLStatement \<Rightarrow> ('w rstate, 'a) io) \<Rightarrow> ('w rstate, 'a) io" where
  "with_statement rv body =
     seq (world_io (SQLStatement_ctor (rv_odbc rv) (rv_junk rv) (rv_connection rv))) (\<lambda>st.
     seq (try_catch (body st) (\<lambda>e. seq (world_io (SQLStatement_dtor (rv_odbc rv) st)) (\<lambda>_. fail e))) (\<lambda>x.
     seq (world_io (SQLStatement_dtor (rv_odbc rv) st)) (\<lambda>_. finish x)))"

text \<open>What a getter leaves in its output buffer.\<close>

definition store_string :: "byte list \<Rightarrow> sql_value option \<Rightarrow> byte list run" where
  "store_string buf v = (case v of Some (Str bs) \<Rightarrow> wr buf 0 (bs @ [0]) | _ \<Rightarrow> ret buf)"

definition store_num :: "'a::len word \<Rightarrow> sql_value option \<Rightarrow> 'a word" where
  "store_num old v = (case v of Some (Num i) \<Rightarrow> word_of_int i | _ \<Rightarrow> old)"

section \<open>Resolving an address question\<close>

text \<open>The local variables of \<open>resolveA\<close> that change from row to row.\<close>

record row_vars =
  v_nameBuf :: "byte list"
  v_valueBuf :: "byte list"
  v_typeBuf :: "16 word"
  v_classBuf :: "16 word"
  v_ttlBuf :: "32 word"
  v_rdata :: rdata_ptr
  v_ptr :: nat
  v_remLen :: "32 word"
  v_numARecords :: nat
  v_info :: ResponseInfo

definition fetch_row :: "'w resolver \<Rightarrow> SQLResultSet \<Rightarrow> row_vars \<Rightarrow> ('w rstate, row_vars) io" where
  "fetch_row rv rs v =
     (let drv = rv_odbc rv; junk = rv_junk rv in
      seq (world_io (getLong_name drv junk rs ''TTL'')) (\<lambda>ttl.
      seq (world_io (getString_name drv junk rs ''NAME'')) (\<lambda>name.
      seq (pure_run (store_string (v_nameBuf v) name)) (\<lambda>nameBuf.
      seq (world_io (getString_name drv junk rs ''VALUE'')) (\<lambda>val.
      seq (pure_run (store_string (v_valueBuf v) val)) (\<lambda>valueBuf.
      seq (world_io (getUShort_name drv junk rs ''TYPE'')) (\<lambda>type.
      seq (world_io (getUShort_name drv junk rs ''CLASS'')) (\<lambda>rclass.
        finish (v\<lparr>v_ttlBuf := store_num (v_ttlBuf v) ttl, v_nameBuf := nameBuf, v_valueBuf := valueBuf,
          v_typeBuf := store_num (v_typeBuf v) type, v_classBuf := store_num (v_classBuf v) rclass\<rparr>)))))))))"

text \<open>The \<open>switch (typeBuf)\<close>: for any other type \<open>rdata\<close> keeps its value.\<close>

definition make_rdata :: "'w resolver \<Rightarrow> row_vars \<Rightarrow> ('w rstate, row_vars) io" where
  "make_rdata rv v =
     (if v_typeBuf v = type_value TYPE_A then
        seq (pure_run (DNSRDataA_ctor (rv_junk rv) (v_valueBuf v) 0)) (\<lambda>r.
          finish (v\<lparr>v_rdata := Live (RDataA r), v_numARecords := v_numARecords v + 1\<rparr>))
      else if v_typeBuf v = type_value TYPE_CNAME then
        seq (pure_run (DNSRDataCNAME_ctor (rv_junk rv) (v_valueBuf v) 0)) (\<lambda>r.
          finish (v\<lparr>v_rdata := Live (RDataCNAME r)\<rparr>))
      else finish v)"

text \<open>The target of an alias is entered with the place of its name in the RDATA just written.\<close>

definition save_pointer :: "row_vars \<Rightarrow> pointer_map \<Rightarrow> 64 word \<Rightarrow> ('w rstate, unit) io" where
  "save_pointer v pointers readBytes =
     (if v_typeBuf v = type_value TYPE_CNAME \<and> pointers (cstr (v_valueBuf v)) = None
      then seq (pure_run (strlen (v_valueBuf v) 0)) (\<lambda>n.
        add_pointer (cstr (v_valueBuf v)) (ucast (of_nat (v_ptr v) + readBytes - of_nat n - 2)))
      else finish ())"

text \<open>One pass of the loop over the rows; a truncation returns from the function.\<close>

definition resolveA_row :: "'w resolver \<Rightarrow> SQLStatement \<Rightarrow> SQLResultSet \<Rightarrow> nat \<Rightarrow> row_vars \<Rightarrow>
    ('w rstate, row_vars + 64 word \<times> ResponseInfo) io" where
  "resolveA_row rv st rs responseData v =
     seq (fetch_row rv rs v) (\<lambda>v.
     seq (make_rdata rv v) (\<lambda>v.
     let rr = \<lparr>rr_name = v_nameBuf v,
           rr_info = \<lparr>fi_type = v_typeBuf v, fi_rclass = v_classBuf v, fi_ttl = v_ttlBuf v, fi_rdlength = 0\<rparr>,
           rr_rdata = v_rdata v, rr_decoded = False\<rparr> in
     seq get_packet (\<lambda>p.
     seq get_pointers (\<lambda>pointers.
     seq (pure_run (rr_encode rr p (v_ptr v) (scast (v_remLen v)) pointers)) (\<lambda>(readBytes, p, _).
     seq (set_packet p) (\<lambda>_.
     seq (save_pointer v pointers readBytes) (\<lambda>_.
     let remLen = v_remLen v - ucast readBytes; info = v_info v in
     if sint remLen \<le> 0 then
       let info = info\<lparr>ri_truncationOccurred := True, ri_answers := ri_answers info - 1\<rparr> in
       seq (world_io (commit (rv_odbc rv) (rv_junk rv) st)) (\<lambda>_.
         finish (Inr (of_nat (v_ptr v - responseData), info)))
     else
       finish (Inl (v\<lparr>v_remLen := remLen, v_ptr := v_ptr v + unat readBytes,
         v_info := info\<lparr>ri_answers := ri_answers info + 1\<rparr>, v_rdata := Dangling\<rparr>)))))))))"

definition resolveA_start :: "'w resolver \<Rightarrow> nat \<Rightarrow> ResponseInfo \<Rightarrow> row_vars" where
  "resolveA_start rv responseData info =
     \<lparr>v_nameBuf = fresh (rv_junk rv) 256, v_valueBuf = fresh (rv_junk rv) 256,
      v_typeBuf = of_le16 (rv_junk rv 0) (rv_junk rv 1), v_classBuf = of_le16 (rv_junk rv 0) (rv_junk rv 1),
      v_ttlBuf = of_le32 (rv_junk rv 0) (rv_junk rv 1) (rv_junk rv 2) (rv_junk rv 3), v_rdata = Null,
      v_ptr = responseData, v_remLen = of_nat (MAX_DNS_PACKET_LENGTH - sizeof_DNSHeader),
      v_numARecords = 0, v_info = info\<rparr>"

text \<open>
  After the loop: its result where it has returned; else the recursive server where there was no
  address record and recursion is desired, or the length of what was written.
\<close>

definition resolveA_end :: "'w resolver \<Rightarrow> SQLStatement \<Rightarrow> nat \<Rightarrow> 64 word \<Rightarrow> row_vars + 64 word \<times> ResponseInfo \<Rightarrow>
    ('w rstate, 64 word \<times> ResponseInfo) io" where
  "resolveA_end rv st responseData packetLen r =
     (case r of
        Inr result \<Rightarrow> finish result
      | Inl v \<Rightarrow>
          seq get_packet (\<lambda>p.
          if v_numARecords v \<le> 0 \<and> h_rd (packet_header p) \<noteq> 0 then
            seq (world_io (commit (rv_odbc rv) (rv_junk rv) st)) (\<lambda>_.
            seq (recursiveResolve rv packetLen) (\<lambda>len.
              finish (len, (v_info v)\<lparr>ri_recursionOccurred := True\<rparr>)))
          else
            seq (world_io (commit (rv_odbc rv) (rv_junk rv) st)) (\<lambda>_.
              finish (of_nat (v_ptr v - responseData), v_info v))))"

text \<open>
  \<open>resolveA(query, responseData, responseInfo, packet, packetLen)\<close>, where \<open>responseData\<close> is an offset into
  the packet; the result is the returned length and the updated \<open>ResponseInfo\<close>.
\<close>

definition resolveA :: "'w resolver \<Rightarrow> DNSQuery \<Rightarrow> nat \<Rightarrow> ResponseInfo \<Rightarrow> 64 word \<Rightarrow>
    ('w rstate, 64 word \<times> ResponseInfo) io" where
  "resolveA rv query responseData responseInfo packetLen =
     (let drv = rv_odbc rv; junk = rv_junk rv in
      with_statement rv (\<lambda>st.
      seq (pure_run (strcpy_s (fresh junk MAX_DNS_NAME_LENGTH) (q_qname query) 0)) (\<lambda>name.
      seq (world_io (bindString drv junk st 1 MAX_DNS_NAME_LENGTH 0)) (\<lambda>_.
      seq (world_io (prepare drv junk st sqlQuery)) (\<lambda>_.
      seq (world_io (executeQuery drv junk st (\<lambda>_. Str (cstr name)) False)) (\<lambda>rs.
      seq (while_io (\<lambda>v. world_io (SQLResultSet_next drv junk rs)) (resolveA_row rv st rs responseData)
             (resolveA_start rv responseData responseInfo)) (\<lambda>r.
        resolveA_end rv st responseData packetLen r)))))))"

section \<open>Resolving the questions of a packet\<close>

fun resolve_queries :: "'w resolver \<Rightarrow> DNSQuery list \<Rightarrow> nat \<Rightarrow> ResponseInfo \<Rightarrow> 64 word \<Rightarrow> ('w rstate, ResponseInfo) io" where
  "resolve_queries rv [] responseData info packetLen = finish info"
| "resolve_queries rv (query # queries) responseData info packetLen =
     (if q_qtype query = type_value TYPE_A then
        seq (resolveA rv query responseData info packetLen) (\<lambda>(len, info).
          resolve_queries rv queries responseData (info\<lparr>ri_length := Some len\<rparr>) packetLen)
      else
        seq get_packet (\<lambda>p.
        if h_rd (packet_header p) \<noteq> 0 then
          seq (recursiveResolve rv packetLen) (\<lambda>len.
            finish (info\<lparr>ri_length := Some len, ri_recursionOccurred := True\<rparr>))
        else finish (info\<lparr>ri_rcode := RCODE_NOT_IMPLIMENTED\<rparr>)))"

definition resolve :: "'w resolver \<Rightarrow> DNSQuery list \<Rightarrow> nat \<Rightarrow> 64 word \<Rightarrow> ('w rstate, ResponseInfo) io" where
  "resolve rv queries responseData packetLen = resolve_queries rv queries responseData new_ResponseInfo packetLen"

section \<open>Caching a recursive response\<close>

record cache_vars =
  cv_name :: "byte list"
  cv_value :: "byte list"
  cv_ttl :: "32 word"
  cv_type :: "16 word"
  cv_rclass :: "16 word"

text \<open>The bound variables by their addresses: 0 \<open>name\<close>, 1 \<open>value\<close>, 2 \<open>ttl\<close>, 3 \<open>type\<close>, 4 \<open>rclass\<close>.\<close>

definition cache_variables :: "cache_vars \<Rightarrow> variables" where
  "cache_variables v a =
     (if a = 0 then Str (cstr (cv_name v)) else if a = 1 then Str (cstr (cv_value v))
      else if a = 2 then Num (sint (cv_ttl v)) else if a = 3 then Num (uint (cv_type v))
      else Num (uint (cv_rclass v)))"

text \<open>\<open>TYPE_DESCR[rr.getType()]\<close> and \<open>CLASS_DESCR[rr.getClass()]\<close> in the message of a cached record.\<close>

definition describe_record :: "16 word \<Rightarrow> 16 word \<Rightarrow> (string \<times> string) run" where
  "describe_record type rclass =
     (if unat type < length TYPE_DESCR \<and> unat rclass < length CLASS_DESCR
      then ret (TYPE_DESCR ! unat type, CLASS_DESCR ! unat rclass) else crash Read_Out_Of_Bounds)"

fun cache_loop :: "'w resolver \<Rightarrow> SQLStatement \<Rightarrow> SQLStatement \<Rightarrow> nat \<Rightarrow> nat \<Rightarrow> cache_vars \<Rightarrow> ('w rstate, unit) io" where
  "cache_loop rv ins del 0 ptr v = finish ()"
| "cache_loop rv ins del (Suc n) ptr v =
     seq get_packet (\<lambda>p.
     seq (pure_run (rr_decode (rv_junk rv) p ptr)) (\<lambda>(rr, ptr).
     case rr_rdata rr of
       Live rdata \<Rightarrow>
         seq (pure_run (strcpy_s (cv_name v) (rr_name rr) 0)) (\<lambda>name.
         seq (pure_run (strcpy_s (cv_value v) (rdata_getValue rdata) 0)) (\<lambda>val.
         let v = \<lparr>cv_name = name, cv_value = val, cv_ttl = fi_ttl (rr_info rr),
               cv_type = fi_type (rr_info rr), cv_rclass = fi_rclass (rr_info rr)\<rparr> in
         seq (world_io (executeUpdate (rv_odbc rv) (rv_junk rv) del (cache_variables v) False)) (\<lambda>deleted.
         seq (world_io (executeUpdate (rv_odbc rv) (rv_junk rv) ins (cache_variables v) False)) (\<lambda>inserted.
         seq (if inserted \<noteq> 0 \<and> rv_info rv
              then seq (pure_run (describe_record (cv_type v) (cv_rclass v))) (\<lambda>_. finish ())
              else finish ()) (\<lambda>_.
           cache_loop rv ins del n ptr v)))))
     | _ \<Rightarrow> cache_loop rv ins del n ptr v))"

definition cacheResponse :: "'w resolver \<Rightarrow> nat \<Rightarrow> nat \<Rightarrow> ('w rstate, unit) io" where
  "cacheResponse rv data numResponses =
     (let drv = rv_odbc rv; junk = rv_junk rv in
      with_statement rv (\<lambda>ins. with_statement rv (\<lambda>del.
      seq (world_io (bindString drv junk del 1 256 0)) (\<lambda>_.
      seq (world_io (prepare drv junk del deleteQuery)) (\<lambda>_.
      seq (world_io (bindString drv junk ins 1 256 0)) (\<lambda>_.
      seq (world_io (bindString drv junk ins 2 256 1)) (\<lambda>_.
      seq (world_io (bindString drv junk ins 3 256 0)) (\<lambda>_.
      seq (world_io (bindString drv junk ins 4 256 1)) (\<lambda>_.
      seq (world_io (bindLong drv junk ins 5 2)) (\<lambda>_.
      seq (world_io (bindUShort drv junk ins 6 3)) (\<lambda>_.
      seq (world_io (bindUShort drv junk ins 7 4)) (\<lambda>_.
      seq (world_io (prepare drv junk ins insertQuery)) (\<lambda>_.
      seq (cache_loop rv ins del numResponses data
             \<lparr>cv_name = fresh junk 256, cv_value = fresh junk 256, cv_ttl = 0, cv_type = 0, cv_rclass = 0\<rparr>) (\<lambda>_.
      seq (world_io (commit drv junk del)) (\<lambda>_.
        world_io (commit drv junk ins))))))))))))))))"

definition clean :: "('w rstate, unit) io" where
  "clean = modify (\<lambda>s. s\<lparr>rs_pointers := Map.empty\<rparr>)"

text \<open>\<open>DNSResolver::DNSResolver\<close>: the connection a worker uses.\<close>

definition resolver_ctor :: "'w odbc \<Rightarrow> (nat \<Rightarrow> byte) \<Rightarrow> SQLEnvironment \<Rightarrow> string \<Rightarrow> ('w, SQLConnection) io" where
  "resolver_ctor drv junk environment connString =
     seq (SQLConnection_ctor drv junk environment) (\<lambda>connection.
     seq (SQLConnection_connect drv junk connection connString) (\<lambda>_. finish connection))"

section \<open>Evaluation of the state operations\<close>

lemma state_ops [simp]:
  "seq get_packet f s = f (rs_packet s) s"
  "seq get_pointers g s = g (rs_pointers s) s"
  "seq (set_packet p) h s = h () (s\<lparr>rs_packet := p\<rparr>)"
  "seq (add_pointer nm loc) h s = h () (s\<lparr>rs_pointers := (rs_pointers s)(nm \<mapsto> loc)\<rparr>)"
  by (simp_all add: get_packet_def get_pointers_def set_packet_def add_pointer_def seq_def)

lemma world_call [simp]:
  "seq (world_io (call g)) f s = f (fst (g (rs_world s))) (s\<lparr>rs_world := snd (g (rs_world s))\<rparr>)"
  by (simp add: on_part_def call_def seq_def split: prod.splits)

lemma world_Inr: "m (rs_world s) = Some (Inr x, w) \<Longrightarrow> seq (world_io m) f s = f x (s\<lparr>rs_world := w\<rparr>)"
  by (simp add: on_part_def seq_def)

section \<open>Questions of a packet\<close>

type_synonym question = "byte list \<times> 16 word \<times> 16 word"

definition questions_wire :: "question list \<Rightarrow> byte list" where
  "questions_wire qs = concat (map (\<lambda>(s, t, c). question_wire s t c) qs)"

definition parsed :: "(nat \<Rightarrow> byte) \<Rightarrow> question \<Rightarrow> DNSQuery" where
  "parsed junk = (\<lambda>(s, t, c). \<lparr>q_qname = s @ 0 # dot # drop (length s + 2) (fresh junk 256),
     q_qtype = sext16 (ucast t), q_qclass = sext16 (ucast c), q_length = length s + 6\<rparr>)"

text \<open>Every extracted name is entered with the offset of the first question.\<close>

definition with_names :: "pointer_map \<Rightarrow> question list \<Rightarrow> pointer_map" where
  "with_names m qs = (\<lambda>x. if x \<in> fst ` set qs then Some 12 else m x)"

lemma length_question_wire [simp]: "length (question_wire s t c) = length s + 6"
  by (simp add: question_wire_def)

lemma questions_wire_simps [simp]:
  "questions_wire [] = []" "questions_wire ((s, t, c) # qs) = question_wire s t c @ questions_wire qs"
  by (simp_all add: questions_wire_def)

lemma cstr_parsed [simp]: "good_name nm \<Longrightarrow> cstr (q_qname (parsed junk (nm, t, c))) = nm"
  by (simp add: parsed_def cstr_append_0 good_name_def)

lemma extract_loop_questions:
  assumes "rs_packet s = pre @ questions_wire qs @ post" and "\<forall>q\<in>set qs. good_name (fst q)"
  shows "extract_loop rv (length qs) (length pre) len s =
    Some (Inr (len + length (questions_wire qs)),
      s\<lparr>rs_queries := rs_queries s @ map (parsed (rv_junk rv)) qs, rs_pointers := with_names (rs_pointers s) qs\<rparr>)"
  using assms
proof (induction qs arbitrary: pre len s)
  case Nil
  then show ?case by (simp add: with_names_def)
next
  case (Cons q qs)
  obtain nm t c where q: "q = (nm, t, c)" by (cases q)
  have g: "good_name nm" using Cons.prems(2) q by simp
  have p: "rs_packet s = pre @ question_wire nm t c @ questions_wire qs @ post" using Cons.prems(1) q by simp
  have d: "DNSQuery_ctor (rv_junk rv) (rs_packet s) (length pre) (rv_stack rv) = ret (parsed (rv_junk rv) q)"
    using query_of_wire [OF g p refl] by (simp add: parsed_def q)
  let ?s = "s\<lparr>rs_pointers := (rs_pointers s)(nm \<mapsto> 12), rs_queries := rs_queries s @ [parsed (rv_junk rv) q]\<rparr>"
  have len: "q_length (parsed (rv_junk rv) q) = length (question_wire nm t c)" by (simp add: parsed_def q)
  have "extract_loop rv (length (q # qs)) (length pre) len s =
      extract_loop rv (length qs) (length (pre @ question_wire nm t c)) (len + length (question_wire nm t c)) ?s"
    using d len g by (simp add: q sizeof_DNSHeader_def)
  also have "\<dots> = Some (Inr (len + length (question_wire nm t c) + length (questions_wire qs)),
      ?s\<lparr>rs_queries := rs_queries ?s @ map (parsed (rv_junk rv)) qs, rs_pointers := with_names (rs_pointers ?s) qs\<rparr>)"
    using Cons.prems p by (intro Cons.IH) simp_all
  also have "with_names (rs_pointers ?s) qs = with_names (rs_pointers s) (q # qs)"
    by (auto simp: with_names_def q)
  finally show ?case by (simp add: q add.assoc)
qed

lemma length_questions_wire_12: "length pre = 12 \<Longrightarrow> packet_header (pre @ x) = header_of_bytes pre"
  by (simp add: packet_header_def)

section \<open>The exchange with the recursive server\<close>

text \<open>The network delivers the request and, when the socket is readable, a reply.\<close>

definition exchanges :: "'w winsock \<Rightarrow> byte list \<Rightarrow> byte list \<Rightarrow> 'w \<Rightarrow> 'w \<Rightarrow> bool" where
  "exchanges net request reply w w' \<longleftrightarrow> (\<exists>n k w1 w2.
     ws_sendto net request w = (n, w1) \<and> n \<noteq> SOCKET_ERROR \<and>
     ws_select net w1 = (k, w2) \<and> k \<noteq> SOCKET_ERROR \<and>
     ws_recv net MAX_DNS_PACKET_LENGTH w2 = ((int (length reply), reply), w') \<and>
     length reply \<le> MAX_DNS_PACKET_LENGTH)"

lemma recursiveResolve_exchange:
  assumes "rv_recursiveServer rv \<noteq> 4294967295" and "unat packetLen \<le> length (rs_packet s)"
    and "512 \<le> length (rs_packet s)" and "12 \<le> length reply"
    and "exchanges (rv_net rv) (take (unat packetLen) (rs_packet s)) reply (rs_world s) w'"
  shows "recursiveResolve rv packetLen s =
    (if h_id (header_of_bytes (take 12 reply)) = h_id (packet_header (rs_packet s))
     then Some (Inr (of_nat (length reply) - packetLen), s\<lparr>rs_world := w', rs_packet := patch (rs_packet s) 0 reply\<rparr>)
     else Some (Inl (Exception ''Recursive response ID mismatch''), s\<lparr>rs_world := w', rs_packet := patch (rs_packet s) 0 reply\<rparr>))"
proof -
  obtain n k w1 w2 where x: "ws_sendto (rv_net rv) (take (unat packetLen) (rs_packet s)) (rs_world s) = (n, w1)"
      "n \<noteq> SOCKET_ERROR" "ws_select (rv_net rv) w1 = (k, w2)" "k \<noteq> SOCKET_ERROR"
      "ws_recv (rv_net rv) MAX_DNS_PACKET_LENGTH w2 = ((int (length reply), reply), w')"
    and r: "length reply \<le> MAX_DNS_PACKET_LENGTH"
    using assms(5) by (auto simp: exchanges_def)
  have h: "packet_header (patch (rs_packet s) 0 reply) = header_of_bytes (take 12 reply)"
    using assms(3,4) r by (simp add: packet_header_def patch_def)
  have "rdn (rs_packet s) 0 (unat packetLen) = ret (take (unat packetLen) (rs_packet s))"
    using assms(2) by (simp add: rdn_def)
  moreover have "wr (rs_packet s) 0 reply = ret (patch (rs_packet s) 0 reply)"
    using assms(3) r by (intro wr_patch) (simp add: MAX_DNS_PACKET_LENGTH_def)
  moreover have "int (length reply) \<noteq> SOCKET_ERROR" by (simp add: SOCKET_ERROR_def)
  ultimately show ?thesis
    using assms(1) x h by (simp add: recursiveResolve_def Let_def)
qed

section \<open>Properties\<close>

text \<open>
  C16. The questions of a packet, any number of them and with names both directions of the codec handle, are
  extracted in order, each with its name and the low bytes of its type and class; the returned length is
  the length of the question section, and every name is entered in the table of known names, all of them
  with the offset of the first question.
\<close>

theorem questions_extracted:
  assumes "rs_packet s = header_bytes h @ questions_wire qs @ post" and "\<forall>q\<in>set qs. good_name (fst q)"
    and "unat (ntohs (h_qdcount h)) = length qs"
  shows "extractQueries rv s = Some (Inr (length (questions_wire qs)),
    s\<lparr>rs_queries := rs_queries s @ map (parsed (rv_junk rv)) qs, rs_pointers := with_names (rs_pointers s) qs\<rparr>)"
proof -
  have "packet_header (rs_packet s) = h" using assms(1) by (simp add: packet_header_def hdr.dec_enc)
  then show ?thesis
    using extract_loop_questions [OF assms(1,2), of rv 0] assms(3) by (simp add: extractQueries_def sizeof_DNSHeader_def)
qed

theorem questions_extracted_witness:
  "extractQueries \<lparr>rv_odbc = silent, rv_net = undefined, rv_connection = \<lparr>conn_hdbc = 1\<rparr>, rv_recursiveServer = 0, rv_junk = \<lambda>_. 0,
       rv_stack = [], rv_info = False\<rparr>
     \<lparr>rs_world = (), rs_packet = header_bytes ((header_of_bytes (replicate 12 0))\<lparr>h_qdcount := htons 2\<rparr>) @
        questions_wire [([97], 1, 1), ([98], 5, 1)] @ [], rs_pointers = Map.empty, rs_queries = []\<rparr> =
   Some (Inr (length (questions_wire [([97], 1, 1), ([98], 5, 1)])),
     \<lparr>rs_world = (), rs_packet = header_bytes ((header_of_bytes (replicate 12 0))\<lparr>h_qdcount := htons 2\<rparr>) @
        questions_wire [([97], 1, 1), ([98], 5, 1)] @ [], rs_pointers = with_names Map.empty [([97], 1, 1), ([98], 5, 1)],
      rs_queries = map (parsed (\<lambda>_. 0)) [([97], 1, 1), ([98], 5, 1)]\<rparr>)"
proof -
  have "unat (ntohs (h_qdcount ((header_of_bytes (replicate 12 0))\<lparr>h_qdcount := htons 2\<rparr>))) =
      length [([97], 1, 1 :: 16 word), ([98 :: byte], 5 :: 16 word, 1)]"
    by simp
  then show ?thesis
    by (subst questions_extracted [where qs = "[([97], 1, 1), ([98], 5, 1)]" and post = "[]"])
      (simp_all only: rstate.simps resolver.simps append_Nil2, simp_all add: good_name_def wire_label_def)
qed

text \<open>
  C23. A reply of the recursive server whose identifier is not that of the request raises an exception; the
  packet has been overwritten with the reply by then.
\<close>

theorem reply_with_other_id:
  assumes "rv_recursiveServer rv \<noteq> 4294967295" and "unat packetLen \<le> length (rs_packet s)"
    and "512 \<le> length (rs_packet s)" and "12 \<le> length reply"
    and "exchanges (rv_net rv) (take (unat packetLen) (rs_packet s)) reply (rs_world s) w'"
    and "h_id (header_of_bytes (take 12 reply)) \<noteq> h_id (packet_header (rs_packet s))"
  shows "recursiveResolve rv packetLen s = Some (Inl (Exception ''Recursive response ID mismatch''),
    s\<lparr>rs_world := w', rs_packet := patch (rs_packet s) 0 reply\<rparr>)"
  using recursiveResolve_exchange [OF assms(1-5)] assms(6) by simp

theorem reply_with_other_id_witness:
  "recursiveResolve \<lparr>rv_odbc = silent, rv_net = \<lparr>ws_sendto = \<lambda>b w. (int (length b), w), ws_select = \<lambda>w. (1, w),
        ws_recv = \<lambda>n w. ((12, 5 # replicate 11 0), w), WSAGetLastError = \<lambda>w. (0, w)\<rparr>, rv_connection = \<lparr>conn_hdbc = 1\<rparr>,
        rv_recursiveServer = 0, rv_junk = \<lambda>_. 0, rv_stack = [], rv_info = False\<rparr> 12
      \<lparr>rs_world = (), rs_packet = replicate 512 0, rs_pointers = Map.empty, rs_queries = []\<rparr> =
    Some (Inl (Exception ''Recursive response ID mismatch''),
      \<lparr>rs_world = (), rs_packet = patch (replicate 512 0) 0 (5 # replicate 11 0), rs_pointers = Map.empty, rs_queries = []\<rparr>)"
proof -
  have "h_id (header_of_bytes (5 # replicate 11 0)) \<noteq> h_id (header_of_bytes (replicate 12 0))" by code_simp
  then show ?thesis
    by (subst reply_with_other_id [where reply = "5 # replicate 11 0" and w' = "()"])
      (simp_all add: exchanges_def SOCKET_ERROR_def MAX_DNS_PACKET_LENGTH_def packet_header_def)
qed

end
