(* ===== verification/Answers.thy ===== *)
theory Answers
  imports Resolver
begin

text \<open>
  What \<open>DNSResolver::resolveA\<close> makes of the rows the database gives it: the answer section it writes,
  the table of names it leaves, the numbers it reports, and the way out when there is no address or
  no space. The driver is described by what it returns for the calls of a resolution.
\<close>

section \<open>Answers from the cache\<close>

text \<open>A row of the query's result, and the columns in the order of the query.\<close>

record answer_row =
  ar_ttl :: int
  ar_name :: "byte list"
  ar_value :: "byte list"
  ar_type :: "16 word"
  ar_class :: "16 word"

definition answer_columns :: "nat \<Rightarrow> nat \<Rightarrow> (string \<times> int \<times> nat) list" where
  "answer_columns nl vl = [(''TTL'', 4, 10), (''NAME'', 12, nl), (''VALUE'', 12, vl), (''TYPE'', 5, 5), (''CLASS'', 5, 5)]"

text \<open>
  The driver gives the rows of the result one after the other, each with its five columns, and
  \<open>SQL_NO_DATA\<close> behind the last.
\<close>

fun serves :: "'w odbc \<Rightarrow> handle \<Rightarrow> nat \<Rightarrow> nat \<Rightarrow> answer_row list \<Rightarrow> 'w \<Rightarrow> 'w \<Rightarrow> bool" where
  "serves drv h nl vl [] w w' \<longleftrightarrow> SQLFetch drv h w = (SQL_NO_DATA, w')"
| "serves drv h nl vl (r # rows) w w' \<longleftrightarrow> (\<exists>w0 w1 w2 w3 w4 w5.
     SQLFetch drv h w = (SQL_SUCCESS, w0) \<and>
     SQLGetData drv h 1 SQL_C_SLONG 0 w0 = ((SQL_SUCCESS, Some (Num (ar_ttl r))), w1) \<and>
     SQLGetData drv h 2 SQL_C_CHAR (nl + 1) w1 = ((SQL_SUCCESS, Some (Str (ar_name r))), w2) \<and>
     SQLGetData drv h 3 SQL_C_CHAR (vl + 1) w2 = ((SQL_SUCCESS, Some (Str (ar_value r))), w3) \<and>
     SQLGetData drv h 4 SQL_C_USHORT 0 w3 = ((SQL_SUCCESS, Some (Num (uint (ar_type r)))), w4) \<and>
     SQLGetData drv h 5 SQL_C_USHORT 0 w4 = ((SQL_SUCCESS, Some (Num (uint (ar_class r)))), w5) \<and>
     serves drv h nl vl rows w5 w')"

text \<open>Rows the resolver can turn into records: addresses in dotted form and aliases.\<close>

definition row_addr :: "answer_row \<Rightarrow> byte list" where
  "row_addr r = map (\<lambda>p. word_of_int (atoi p)) (split_dots (ar_value r))"

definition row_ok :: "answer_row \<Rightarrow> bool" where
  "row_ok r \<longleftrightarrow> good_name (ar_name r) \<and>
     (ar_type r = type_value TYPE_A \<and> length (row_addr r) = 4 \<and> ar_value r = dotted_quad (row_addr r) \<or>
      ar_type r = type_value TYPE_CNAME \<and> good_name (ar_value r))"

definition row_payload :: "answer_row \<Rightarrow> byte list" where
  "row_payload r = (if ar_type r = type_value TYPE_A then row_addr r else wire (split_dots (ar_value r)) @ [0])"

definition row_info :: "answer_row \<Rightarrow> FixedRRInfo" where
  "row_info r = \<lparr>fi_type = ar_type r, fi_rclass = ar_class r, fi_ttl = word_of_int (ar_ttl r), fi_rdlength = 0\<rparr>"

definition row_wire :: "pointer_map \<Rightarrow> answer_row \<Rightarrow> byte list" where
  "row_wire ptrs r = record_wire (name_wire (ar_name r @ [0]) ptrs) (row_info r) (row_payload r)"

text \<open>The table of names after a record at offset \<open>off\<close>: an alias enters the place of its target.\<close>

definition row_pointers :: "pointer_map \<Rightarrow> nat \<Rightarrow> answer_row \<Rightarrow> pointer_map" where
  "row_pointers ptrs off r =
     (if ar_type r = type_value TYPE_CNAME \<and> ptrs (ar_value r) = None
      then ptrs(ar_value r \<mapsto> of_nat (off + length (row_wire ptrs r) - length (row_payload r))) else ptrs)"

text \<open>The answer section for the rows, from offset \<open>off\<close> on, and the table of names after it.\<close>

fun answer_section :: "pointer_map \<Rightarrow> nat \<Rightarrow> answer_row list \<Rightarrow> byte list" where
  "answer_section ptrs off [] = []"
| "answer_section ptrs off (r # rows) =
     row_wire ptrs r @ answer_section (row_pointers ptrs off r) (off + length (row_wire ptrs r)) rows"

fun answer_pointers :: "pointer_map \<Rightarrow> nat \<Rightarrow> answer_row list \<Rightarrow> pointer_map" where
  "answer_pointers ptrs off [] = ptrs"
| "answer_pointers ptrs off (r # rows) =
     answer_pointers (row_pointers ptrs off r) (off + length (row_wire ptrs r)) rows"

subsection \<open>Reading a row\<close>

lemma answer_positions [simp]:
  "col_position (column_set h (answer_columns nl vl)) ''TTL'' = 1"
  "col_position (column_set h (answer_columns nl vl)) ''NAME'' = 2"
  "col_position (column_set h (answer_columns nl vl)) ''VALUE'' = 3"
  "col_position (column_set h (answer_columns nl vl)) ''TYPE'' = 4"
  "col_position (column_set h (answer_columns nl vl)) ''CLASS'' = 5"
  by (simp_all add: col_position_def column_set_def answer_columns_def)

lemma answer_lengths [simp]:
  "rs_colLengths (column_set h (answer_columns nl vl)) = [10, nl, vl, 5, 5]"
  "rs_hstmt (column_set h cols) = h"
  by (simp_all add: column_set_def answer_columns_def)

lemma get_data_success:
  "SQLGetData drv (rs_hstmt rs) i ct n w = ((SQL_SUCCESS, v), w') \<Longrightarrow> get_data drv junk rs i ct n w = Some (Inr v, w')"
  by (simp add: get_data_def result_calls.seq_check)

lemma store_string_fits:
  "length bs < 256 \<Longrightarrow> length buf = 256 \<Longrightarrow> store_string buf (Some (Str bs)) = ret (bs @ 0 # drop (length bs + 1) buf)"
  by (simp add: store_string_def wr_def)

lemma store_num_uint [simp]: "store_num old (Some (Num (uint x))) = x"
  by (simp add: store_num_def)

lemma fetch_row_serves:
  assumes "rs = column_set h (answer_columns nl vl)"
    and "SQLGetData (rv_odbc rv) h 1 SQL_C_SLONG 0 w0 = ((SQL_SUCCESS, Some (Num (ar_ttl r))), w1)"
    and "SQLGetData (rv_odbc rv) h 2 SQL_C_CHAR (nl + 1) w1 = ((SQL_SUCCESS, Some (Str (ar_name r))), w2)"
    and "SQLGetData (rv_odbc rv) h 3 SQL_C_CHAR (vl + 1) w2 = ((SQL_SUCCESS, Some (Str (ar_value r))), w3)"
    and "SQLGetData (rv_odbc rv) h 4 SQL_C_USHORT 0 w3 = ((SQL_SUCCESS, Some (Num (uint (ar_type r)))), w4)"
    and "SQLGetData (rv_odbc rv) h 5 SQL_C_USHORT 0 w4 = ((SQL_SUCCESS, Some (Num (uint (ar_class r)))), w5)"
    and "length (ar_name r) < 256" and "length (ar_value r) < 256"
    and "length (v_nameBuf v) = 256" and "length (v_valueBuf v) = 256" and "rs_world s = w0"
  shows "fetch_row rv rs v s = Some (Inr (v\<lparr>v_ttlBuf := word_of_int (ar_ttl r),
      v_nameBuf := ar_name r @ 0 # drop (length (ar_name r) + 1) (v_nameBuf v),
      v_valueBuf := ar_value r @ 0 # drop (length (ar_value r) + 1) (v_valueBuf v),
      v_typeBuf := ar_type r, v_classBuf := ar_class r\<rparr>), s\<lparr>rs_world := w5\<rparr>)"
proof -
  let ?drv = "rv_odbc rv" and ?junk = "rv_junk rv"
  have h: "rs_hstmt rs = h" using assms(1) by simp
  have 1: "getLong_name ?drv ?junk rs ''TTL'' w0 = Some (Inr (Some (Num (ar_ttl r))), w1)"
    using assms(1,2) by (simp add: getLong_name_def getLong_def get_data_success)
  have 2: "getString_name ?drv ?junk rs ''NAME'' w1 = Some (Inr (Some (Str (ar_name r))), w2)"
    using assms(1,3) by (simp add: getString_name_def getString_def getColLength_def vector_at_def get_data_success)
  have 3: "getString_name ?drv ?junk rs ''VALUE'' w2 = Some (Inr (Some (Str (ar_value r))), w3)"
    using assms(1,4) by (simp add: getString_name_def getString_def getColLength_def vector_at_def get_data_success)
  have 4: "getUShort_name ?drv ?junk rs ''TYPE'' w3 = Some (Inr (Some (Num (uint (ar_type r)))), w4)"
    using assms(1,5) by (simp add: getUShort_name_def getUShort_def get_data_success)
  have 5: "getUShort_name ?drv ?junk rs ''CLASS'' w4 = Some (Inr (Some (Num (uint (ar_class r)))), w5)"
    using assms(1,6) by (simp add: getUShort_name_def getUShort_def get_data_success)
  show ?thesis
    using assms(7-11)
    by (simp add: fetch_row_def Let_def world_Inr [of _ _ _ w1] world_Inr [of _ _ _ w2] world_Inr [of _ _ _ w3]
      world_Inr [of _ _ _ w4] world_Inr [of _ _ _ w5] 1 2 3 4 5 store_string_fits) (simp add: store_num_def)
qed

subsection \<open>Writing a row\<close>

lemma scast_of_nat_int: "L < 2 ^ 31 \<Longrightarrow> (scast (of_nat L :: 32 word) :: 64 word) = of_nat L"
  by (intro word_unat_eq_iff [THEN iffD2]) (simp add: int_as_size unat_of_nat take_bit_nat_eq_self)

lemma sint_of_nat_int: "L < 2 ^ 31 \<Longrightarrow> sint (of_nat L :: 32 word) = int L"
  by (simp add: signed_of_nat signed_take_bit_int_eq_self)

lemma ucast_of_nat_64: "(ucast (of_nat k :: 64 word) :: 32 word) = of_nat k" "(ucast (of_nat k :: 64 word) :: 16 word) = of_nat k"
  by (rule bit_word_eqI, auto simp: bit_simps)+

lemma name_wire_terminated: "0 \<notin> set nm \<Longrightarrow> name_wire (nm @ 0 # t) ptrs = name_wire (nm @ [0]) ptrs"
  by (simp add: name_wire_def cstr_append_0 cong: option.case_cong)

lemma make_rdata_row:
  assumes "row_ok r" and "v_typeBuf v = ar_type r" and "v_valueBuf v = ar_value r @ 0 # t"
    and "length (ar_value r) < 256"
  obtains d where "make_rdata rv v s = Some (Inr (v\<lparr>v_rdata := Live d,
      v_numARecords := v_numARecords v + (if ar_type r = type_value TYPE_A then 1 else 0)\<rparr>), s)"
    and "rdata_ok d" and "rdata_payload d = row_payload r"
proof (cases "ar_type r = type_value TYPE_A")
  case True
  then have a: "length (row_addr r) = 4" "ar_value r = dotted_quad (row_addr r)"
    using assms(1) by (auto simp: row_ok_def)
  obtain rest where c: "DNSRDataA_ctor (rv_junk rv) ([] @ dotted_quad (row_addr r) @ 0 # t) (length ([] :: byte list)) =
      ret \<lparr>a_addr = row_addr r, a_value = dotted_quad (row_addr r) @ 0 # rest\<rparr>"
    using DNSRDataA_ctor_quad [OF a(1)] .
  have "DNSRDataA_ctor (rv_junk rv) (v_valueBuf v) 0 =
      ret \<lparr>a_addr = row_addr r, a_value = dotted_quad (row_addr r) @ 0 # rest\<rparr>"
    using c assms(3) a(2) by simp
  with True assms(2) show ?thesis
    by (intro that [of "RDataA \<lparr>a_addr = row_addr r, a_value = dotted_quad (row_addr r) @ 0 # rest\<rparr>"])
      (simp_all add: make_rdata_def a_ok_def a(1) row_payload_def)
next
  case False
  then have c: "ar_type r = type_value TYPE_CNAME" "good_name (ar_value r)"
    using assms(1) by (auto simp: row_ok_def)
  then have z: "0 \<notin> set (ar_value r)" by (simp add: good_name_def)
  let ?nm = "ar_value r @ 0 # drop (length (ar_value r) + 1) (fresh (rv_junk rv) 256)"
  have "strlen (v_valueBuf v) 0 = ret (length (ar_value r))"
    using strlen_at [OF z, of "[]" 0 t] assms(3) by simp
  then have "DNSRDataCNAME_ctor (rv_junk rv) (v_valueBuf v) 0 = ret \<lparr>c_name = ?nm\<rparr>"
    using assms(3,4) by (simp add: DNSRDataCNAME_ctor_def strcpy_s_def MAX_DNS_NAME_LENGTH_def)
  moreover have "cname_text \<lparr>c_name = ?nm\<rparr> = ar_value r"
    using z by (simp add: cname_text_def cstr_append_0)
  moreover have "\<forall>l\<in>set (split_dots (ar_value r)). length l < 256"
    using c(2) by (fastforce simp: good_name_def wire_label_def)
  ultimately show ?thesis
    using False c(1) assms(2)
    by (intro that [of "RDataCNAME \<lparr>c_name = ?nm\<rparr>"])
      (simp_all add: make_rdata_def cname_ok_def row_payload_def cname_payload_def)
qed

lemma rr_encode_row:
  assumes "row_ok r" and "rr_name rr = ar_name r @ 0 # t" and "rr_info rr = row_info r"
    and "rr_rdata rr = Live d" and "rdata_ok d" and "rdata_payload d = row_payload r"
    and "length (row_wire ptrs r) \<le> L" and "L < 2 ^ 31" and "off + length (row_wire ptrs r) \<le> length p"
  obtains rr' where "rr_encode rr p off (of_nat L) ptrs =
      ret (of_nat (length (row_wire ptrs r)), patch p off (row_wire ptrs r), rr')"
proof -
  have z: "0 \<notin> set (ar_name r)" "good_name (ar_name r)" using assms(1) by (auto simp: row_ok_def good_name_def)
  define nw where "nw = name_wire (ar_name r @ [0]) ptrs"
  have len: "length (row_wire ptrs r) = length nw + 10 + length (row_payload r)"
    by (simp add: row_wire_def nw_def)
  let ?z = "int L - int (length nw)"
  have s: "as_size (?z - 10) = nat (?z - 10)" "as_size (?z - int (length (row_payload r))) = nat (?z - int (length (row_payload r)))"
    using assms(7,8) len by (auto intro!: as_size_simps)
  have "rr_encode rr p off (of_nat L) ptrs =
    (if as_size (?z - int (length (row_payload r))) < 10 then crash Invalid_Parameter
     else ret (of_nat (length nw + 10 + length (row_payload r)), patch p off (record_wire nw (rr_info rr) (row_payload r)),
       rr\<lparr>rr_info := swap_info (rr_info rr\<lparr>fi_rdlength := of_nat (length (row_payload r))\<rparr>)\<rparr>))"
  proof (rule rr_encode_after_name [where r = d])
    show "name_ok (rr_name rr)" using good_name_ok [OF z(2)] assms(2) by simp
    show "nw = name_wire (rr_name rr) ptrs" unfolding nw_def assms(2) by (rule name_wire_terminated [OF z(1), symmetric])
    show "length (row_payload r) \<le> as_size (?z - 10)" unfolding s using assms(7) len by simp
  qed (use assms len in simp_all)
  moreover have "\<not> as_size (?z - int (length (row_payload r))) < 10" unfolding s using assms(7) len by simp
  moreover have "record_wire nw (rr_info rr) (row_payload r) = row_wire ptrs r"
    by (simp add: row_wire_def nw_def assms(3))
  ultimately show ?thesis using that len by simp
qed

definition row_loop_ok :: "row_vars \<Rightarrow> bool" where
  "row_loop_ok v \<longleftrightarrow> length (v_nameBuf v) = 256 \<and> length (v_valueBuf v) = 256"

lemma save_pointer_row:
  assumes "row_ok r" and "v_typeBuf v = ar_type r" and "v_valueBuf v = ar_value r @ 0 # t'" and "v_ptr v = off"
    and "n = length (row_wire ptrs r)" and "rs_pointers s = ptrs"
  shows "save_pointer v ptrs (of_nat n) s = Some (Inr (), s\<lparr>rs_pointers := row_pointers ptrs off r\<rparr>)"
proof -
  have same: "s\<lparr>rs_pointers := ptrs\<rparr> = s" using assms(6) by (cases s) simp
  show ?thesis
  proof (cases "ar_type r = type_value TYPE_CNAME")
    case True
    then have g: "good_name (ar_value r)" using assms(1) by (auto simp: row_ok_def)
    then have z: "0 \<notin> set (ar_value r)" by (simp add: good_name_def)
    have k: "strlen (ar_value r @ 0 # t') 0 = ret (length (ar_value r))" using strlen_at [OF z, of "[]" 0 t'] by simp
    have pl: "length (row_payload r) = length (ar_value r) + 2" using True by (simp add: row_payload_def)
    then have "length (ar_value r) + 2 \<le> off + n" using assms(5) by (simp add: row_wire_def)
    then have "(of_nat off + of_nat n - of_nat (length (ar_value r)) - 2 :: 64 word) = of_nat (off + n - (length (ar_value r) + 2))"
      by (simp add: of_nat_diff)
    then have "(ucast (of_nat off + of_nat n - of_nat (length (ar_value r)) - 2 :: 64 word) :: 16 word) =
        of_nat (off + n - length (row_payload r))"
      by (simp add: ucast_of_nat_64 pl)
    with True z k assms same show ?thesis
      by (auto simp: save_pointer_def cstr_append_0 row_pointers_def add_pointer_def)
  next
    case False
    with assms(2) same show ?thesis by (simp add: save_pointer_def row_pointers_def)
  qed
qed

text \<open>One row written at \<open>off\<close> with \<open>L\<close> bytes left, when it is read by \<open>fetch_row\<close> to \<open>v\<close>.\<close>

lemma resolveA_row_writes:
  assumes "row_ok r" and "length (ar_value r) < 256"
    and "fetch_row rv rs v0 s = Some (Inr v, s1)" and "rs_packet s1 = p" and "rs_pointers s1 = ptrs"
    and "v_nameBuf v = ar_name r @ 0 # t" and "v_valueBuf v = ar_value r @ 0 # t'"
    and "v_typeBuf v = ar_type r" and "v_classBuf v = ar_class r" and "v_ttlBuf v = word_of_int (ar_ttl r)"
    and "v_ptr v = off" and "v_remLen v = of_nat L" and "L < 2 ^ 31"
    and "n = length (row_wire ptrs r)" and "n \<le> L" and "off + n \<le> length p"
  obtains v' where "v' = v\<lparr>v_numARecords := v_numARecords v + (if ar_type r = type_value TYPE_A then 1 else 0),
      v_remLen := of_nat (L - n), v_ptr := off + n, v_rdata := Dangling,
      v_info := (v_info v)\<lparr>ri_answers := ri_answers (v_info v) + 1\<rparr>\<rparr>"
    and "resolveA_row rv st rs responseData v0 s =
     (let s' = s1\<lparr>rs_packet := patch p off (row_wire ptrs r), rs_pointers := row_pointers ptrs off r\<rparr> in
      if n < L then Some (Inr (Inl v'), s')
      else seq (world_io (commit (rv_odbc rv) (rv_junk rv) st)) (\<lambda>_. finish (Inr (of_nat (off - responseData),
        (v_info v)\<lparr>ri_truncationOccurred := True, ri_answers := ri_answers (v_info v) - 1\<rparr>))) s')"
proof -
  obtain d where d: "make_rdata rv v s1 = Some (Inr (v\<lparr>v_rdata := Live d,
      v_numARecords := v_numARecords v + (if ar_type r = type_value TYPE_A then 1 else 0)\<rparr>), s1)"
    "rdata_ok d" "rdata_payload d = row_payload r"
    using make_rdata_row [OF assms(1,8,7,2)] .
  let ?rr = "\<lparr>rr_name = ar_name r @ 0 # t,
      rr_info = \<lparr>fi_type = ar_type r, fi_rclass = ar_class r, fi_ttl = word_of_int (ar_ttl r), fi_rdlength = 0\<rparr>,
      rr_rdata = Live d, rr_decoded = False\<rparr>"
  obtain rr' where e: "rr_encode ?rr p off (of_nat L) ptrs = ret (of_nat n, patch p off (row_wire ptrs r), rr')"
    using rr_encode_row [OF assms(1), of ?rr t d ptrs L off p] d(2,3) assms(13-16) by (auto simp: row_info_def)
  have L: "(scast (of_nat L :: 32 word) :: 64 word) = of_nat L" using assms(13) by (rule scast_of_nat_int)
  have rem: "(of_nat L - ucast (of_nat n :: 64 word) :: 32 word) = of_nat (L - n)"
    using assms(15) by (simp add: ucast_of_nat_64)
  have sg: "sint (of_nat (L - n) :: 32 word) \<le> 0 \<longleftrightarrow> \<not> n < L"
    using sint_of_nat_int [of "L - n"] assms(13) by auto
  have un: "unat (of_nat n :: 64 word) = n" using assms(13,15) by (simp add: unat_of_nat take_bit_nat_eq_self)
  have ptr: "save_pointer (v\<lparr>v_rdata := Live d, v_numARecords := k\<rparr>) ptrs (of_nat n) (s1\<lparr>rs_packet := x\<rparr>) =
      Some (Inr (), s1\<lparr>rs_packet := x, rs_pointers := row_pointers ptrs off r\<rparr>)" for k x
    using assms by (intro save_pointer_row) simp_all
  define v' where "v' = v\<lparr>v_numARecords := v_numARecords v + (if ar_type r = type_value TYPE_A then 1 else 0),
      v_remLen := of_nat (L - n), v_ptr := off + n, v_rdata := Dangling,
      v_info := (v_info v)\<lparr>ri_answers := ri_answers (v_info v) + 1\<rparr>\<rparr>"
  have "resolveA_row rv st rs responseData v0 s =
     (let s' = s1\<lparr>rs_packet := patch p off (row_wire ptrs r), rs_pointers := row_pointers ptrs off r\<rparr> in
      if n < L then Some (Inr (Inl v'), s')
      else seq (world_io (commit (rv_odbc rv) (rv_junk rv) st)) (\<lambda>_. finish (Inr (of_nat (off - responseData),
        (v_info v)\<lparr>ri_truncationOccurred := True, ri_answers := ri_answers (v_info v) - 1\<rparr>))) s')"
    using assms(4-12) e L rem sg un
    by (simp add: resolveA_row_def seq_apply(1) [where m = "fetch_row rv rs v0", OF assms(3)] seq_apply(1) [where m = "make_rdata rv v", OF d(1)] Let_def seq_apply(1) [where m = "save_pointer _ _ _", OF ptr] v'_def)
  from that [OF v'_def this] show ?thesis .
qed

lemma next_success: "SQLFetch drv (rs_hstmt rs) w = (SQL_SUCCESS, w') \<Longrightarrow> SQLResultSet_next drv junk rs w = Some (Inr True, w')"
  by (simp add: SQLResultSet_next_def result_calls.seq_check)

lemma next_no_data: "SQLFetch drv (rs_hstmt rs) w = (SQL_NO_DATA, w') \<Longrightarrow> SQLResultSet_next drv junk rs w = Some (Inr False, w')"
  by (simp add: SQLResultSet_next_def result_calls.seq_check) (simp add: sql_codes)

lemma row_ok_lengths: "row_ok r \<Longrightarrow> length (ar_name r) < 256 \<and> length (ar_value r) < 256"
  using dotted_quad_facts(1) [of "row_addr r"] by (auto simp: row_ok_def good_name_def)

definition address_rows :: "answer_row list \<Rightarrow> nat" where
  "address_rows rows = length (filter (\<lambda>r. ar_type r = type_value TYPE_A) rows)"

lemma resolveA_row_served:
  assumes "serves (rv_odbc rv) h nl vl (r # rows) w w'" and "rs = column_set h (answer_columns nl vl)" and "row_ok r"
    and "row_loop_ok v" and "v_ptr v = off" and "v_remLen v = of_nat L" and "L < 2 ^ 31" and "rs_world s = w"
    and "n = length (row_wire (rs_pointers s) r)" and "n \<le> L" and "off + n \<le> length (rs_packet s)"
  obtains w0 w5 v' where "world_io (SQLResultSet_next (rv_odbc rv) (rv_junk rv) rs) s = Some (Inr True, s\<lparr>rs_world := w0\<rparr>)"
    and "serves (rv_odbc rv) h nl vl rows w5 w'"
    and "resolveA_row rv st rs responseData v (s\<lparr>rs_world := w0\<rparr>) =
     (let s' = s\<lparr>rs_world := w5, rs_packet := patch (rs_packet s) off (row_wire (rs_pointers s) r),
            rs_pointers := row_pointers (rs_pointers s) off r\<rparr> in
      if n < L then Some (Inr (Inl v'), s')
      else seq (world_io (commit (rv_odbc rv) (rv_junk rv) st)) (\<lambda>_. finish (Inr (of_nat (off - responseData),
        (v_info v)\<lparr>ri_truncationOccurred := True, ri_answers := ri_answers (v_info v) - 1\<rparr>))) s')"
    and "row_loop_ok v'" and "v_ptr v' = off + n" and "v_remLen v' = of_nat (L - n)"
    and "v_numARecords v' = v_numARecords v + address_rows [r]"
    and "v_info v' = (v_info v)\<lparr>ri_answers := ri_answers (v_info v) + 1\<rparr>"
proof -
  let ?drv = "rv_odbc rv"
  obtain w0 w1 w2 w3 w4 w5 where g: "SQLFetch ?drv h w = (SQL_SUCCESS, w0)"
    "SQLGetData ?drv h 1 SQL_C_SLONG 0 w0 = ((SQL_SUCCESS, Some (Num (ar_ttl r))), w1)"
    "SQLGetData ?drv h 2 SQL_C_CHAR (nl + 1) w1 = ((SQL_SUCCESS, Some (Str (ar_name r))), w2)"
    "SQLGetData ?drv h 3 SQL_C_CHAR (vl + 1) w2 = ((SQL_SUCCESS, Some (Str (ar_value r))), w3)"
    "SQLGetData ?drv h 4 SQL_C_USHORT 0 w3 = ((SQL_SUCCESS, Some (Num (uint (ar_type r)))), w4)"
    "SQLGetData ?drv h 5 SQL_C_USHORT 0 w4 = ((SQL_SUCCESS, Some (Num (uint (ar_class r)))), w5)"
    and rest: "serves ?drv h nl vl rows w5 w'"
    using assms(1) by auto
  note len = row_ok_lengths [OF assms(3)]
  define v1 where "v1 = v\<lparr>v_ttlBuf := word_of_int (ar_ttl r),
      v_nameBuf := ar_name r @ 0 # drop (length (ar_name r) + 1) (v_nameBuf v),
      v_valueBuf := ar_value r @ 0 # drop (length (ar_value r) + 1) (v_valueBuf v),
      v_typeBuf := ar_type r, v_classBuf := ar_class r\<rparr>"
  let ?s0 = "s\<lparr>rs_world := w0\<rparr>"
  have f: "fetch_row rv rs v ?s0 = Some (Inr v1, s\<lparr>rs_world := w5\<rparr>)"
    using fetch_row_serves [OF assms(2) g(2-6), of v ?s0] len assms(4) by (simp add: row_loop_ok_def v1_def)
  have p: "rs_packet (s\<lparr>rs_world := w5\<rparr>) = rs_packet s" "rs_pointers (s\<lparr>rs_world := w5\<rparr>) = rs_pointers s"
    "v_nameBuf v1 = ar_name r @ 0 # drop (length (ar_name r) + 1) (v_nameBuf v)"
    "v_valueBuf v1 = ar_value r @ 0 # drop (length (ar_value r) + 1) (v_valueBuf v)"
    "v_typeBuf v1 = ar_type r" "v_classBuf v1 = ar_class r" "v_ttlBuf v1 = word_of_int (ar_ttl r)"
    "v_ptr v1 = off" "v_remLen v1 = of_nat L" "off + n \<le> length (rs_packet s)"
    using assms by (simp_all add: v1_def)
  obtain v' where v': "v' = v1\<lparr>v_numARecords := v_numARecords v1 + (if ar_type r = type_value TYPE_A then 1 else 0),
      v_remLen := of_nat (L - n), v_ptr := off + n, v_rdata := Dangling,
      v_info := (v_info v1)\<lparr>ri_answers := ri_answers (v_info v1) + 1\<rparr>\<rparr>"
    and row: "resolveA_row rv st rs responseData v ?s0 =
     (let s' = s\<lparr>rs_world := w5\<rparr>\<lparr>rs_packet := patch (rs_packet s) off (row_wire (rs_pointers s) r),
            rs_pointers := row_pointers (rs_pointers s) off r\<rparr> in
      if n < L then Some (Inr (Inl v'), s')
      else seq (world_io (commit (rv_odbc rv) (rv_junk rv) st)) (\<lambda>_. finish (Inr (of_nat (off - responseData),
        (v_info v1)\<lparr>ri_truncationOccurred := True, ri_answers := ri_answers (v_info v1) - 1\<rparr>))) s')"
    using resolveA_row_writes [OF assms(3) _ f p(1-7) _ _ assms(7,9,10) p(10), of st responseData] len p(8,9) by blast
  have c: "world_io (SQLResultSet_next ?drv (rv_junk rv) rs) s = Some (Inr True, ?s0)"
    using g(1) assms(2,8) by (simp add: on_part_def next_success)
  have "length (v_nameBuf v1) = 256" "length (v_valueBuf v1) = 256"
    using assms(4) len by (simp_all add: v1_def row_loop_ok_def)
  then have "row_loop_ok v'" by (simp add: v' row_loop_ok_def)
  moreover have i: "v_info v1 = v_info v" "v_numARecords v1 = v_numARecords v" by (simp_all add: v1_def)
  moreover have "v_ptr v' = off + n" "v_remLen v' = of_nat (L - n)"
    "v_numARecords v' = v_numARecords v + address_rows [r]"
    "v_info v' = (v_info v)\<lparr>ri_answers := ri_answers (v_info v) + 1\<rparr>"
    using i by (simp_all add: v' address_rows_def)
  moreover note row [unfolded i(1)]
  ultimately show ?thesis using c rest by (intro that [of w0 w5 v']) simp_all
qed

lemma resolveA_loop:
  assumes "serves (rv_odbc rv) h nl vl rows w w'" and "rs = column_set h (answer_columns nl vl)" and "\<forall>r\<in>set rows. row_ok r"
    and "row_loop_ok v" and "v_ptr v = off" and "v_remLen v = of_nat L" and "L < 2 ^ 31" and "rs_world s = w"
    and "n = length (answer_section (rs_pointers s) off rows)" and "n < L" and "off + n \<le> length (rs_packet s)"
  shows "\<exists>v'. while_io (\<lambda>v. world_io (SQLResultSet_next (rv_odbc rv) (rv_junk rv) rs)) (resolveA_row rv st rs responseData) v s =
      Some (Inr (Inl v'), s\<lparr>rs_world := w', rs_packet := patch (rs_packet s) off (answer_section (rs_pointers s) off rows),
        rs_pointers := answer_pointers (rs_pointers s) off rows\<rparr>) \<and>
    v_ptr v' = off + n \<and> v_numARecords v' = v_numARecords v + address_rows rows \<and>
    v_info v' = (v_info v)\<lparr>ri_answers := ri_answers (v_info v) + of_nat (length rows)\<rparr>"
  using assms
proof (induction rows arbitrary: v off L w s n)
  case Nil
  have "world_io (SQLResultSet_next (rv_odbc rv) (rv_junk rv) rs) s = Some (Inr False, s\<lparr>rs_world := w'\<rparr>)"
    using Nil by (simp add: on_part_def next_no_data)
  moreover have "s\<lparr>rs_world := w', rs_packet := patch (rs_packet s) off [], rs_pointers := rs_pointers s\<rparr> = s\<lparr>rs_world := w'\<rparr>"
    by (cases s) (simp add: patch_def)
  ultimately show ?case using Nil by (simp add: while_io_end address_rows_def)
next
  case (Cons r rows)
  let ?rec = "row_wire (rs_pointers s) r" and ?ptrs = "row_pointers (rs_pointers s) off r"
  let ?rest = "answer_section ?ptrs (off + length ?rec) rows"
  have n: "n = length ?rec + length ?rest" using Cons.prems(9) by simp
  obtain w0 w5 v1 where
    c: "world_io (SQLResultSet_next (rv_odbc rv) (rv_junk rv) rs) s = Some (Inr True, s\<lparr>rs_world := w0\<rparr>)"
    and srv: "serves (rv_odbc rv) h nl vl rows w5 w'"
    and row: "resolveA_row rv st rs responseData v (s\<lparr>rs_world := w0\<rparr>) =
     (let s' = s\<lparr>rs_world := w5, rs_packet := patch (rs_packet s) off ?rec, rs_pointers := ?ptrs\<rparr> in
      if length ?rec < L then Some (Inr (Inl v1), s')
      else seq (world_io (commit (rv_odbc rv) (rv_junk rv) st)) (\<lambda>_. finish (Inr (of_nat (off - responseData),
        (v_info v)\<lparr>ri_truncationOccurred := True, ri_answers := ri_answers (v_info v) - 1\<rparr>))) s')"
    and v1: "row_loop_ok v1" "v_ptr v1 = off + length ?rec" "v_remLen v1 = of_nat (L - length ?rec)"
      "v_numARecords v1 = v_numARecords v + address_rows [r]"
      "v_info v1 = (v_info v)\<lparr>ri_answers := ri_answers (v_info v) + 1\<rparr>"
    using Cons.prems n by (rule_tac resolveA_row_served [OF Cons.prems(1,2) _ Cons.prems(4-8) refl]) auto
  let ?s = "s\<lparr>rs_world := w5, rs_packet := patch (rs_packet s) off ?rec, rs_pointers := ?ptrs\<rparr>"
  have step: "while_io (\<lambda>v. world_io (SQLResultSet_next (rv_odbc rv) (rv_junk rv) rs)) (resolveA_row rv st rs responseData) v s =
      while_io (\<lambda>v. world_io (SQLResultSet_next (rv_odbc rv) (rv_junk rv) rs)) (resolveA_row rv st rs responseData) v1 ?s"
    by (rule while_io_step [where c = "\<lambda>v. world_io (SQLResultSet_next (rv_odbc rv) (rv_junk rv) rs)", OF c])
      (use Cons.prems(10) n row in simp)
  have "\<exists>v'. while_io (\<lambda>v. world_io (SQLResultSet_next (rv_odbc rv) (rv_junk rv) rs)) (resolveA_row rv st rs responseData) v1 ?s =
      Some (Inr (Inl v'), ?s\<lparr>rs_world := w', rs_packet := patch (rs_packet ?s) (off + length ?rec) (answer_section (rs_pointers ?s) (off + length ?rec) rows),
        rs_pointers := answer_pointers (rs_pointers ?s) (off + length ?rec) rows\<rparr>) \<and>
    v_ptr v' = off + length ?rec + length ?rest \<and> v_numARecords v' = v_numARecords v1 + address_rows rows \<and>
    v_info v' = (v_info v1)\<lparr>ri_answers := ri_answers (v_info v1) + of_nat (length rows)\<rparr>"
  proof (rule Cons.IH [OF srv Cons.prems(2) _ v1(1-3)])
    show "L - length ?rec < 2 ^ 31" using Cons.prems(7) by linarith
    show "length ?rest < L - length ?rec" using Cons.prems(10) n by linarith
    show "off + length ?rec + length ?rest \<le> length (rs_packet ?s)" using Cons.prems(11) n by simp
  qed (use Cons.prems(3) in simp_all)
  moreover have "patch (patch (rs_packet s) off ?rec) (off + length ?rec) ?rest = patch (rs_packet s) off (answer_section (rs_pointers s) off (r # rows))"
    using Cons.prems(11) n by (simp add: patch_behind)
  moreover have "address_rows (r # rows) = address_rows [r] + address_rows rows" by (simp add: address_rows_def)
  ultimately show ?case unfolding step using v1 n by (auto simp: add.assoc)
qed

subsection \<open>A resolution from beginning to end\<close>

text \<open>
  The calls of a resolution, each passing, up to the end of the rows: a statement handle is
  allocated, the parameter bound, the query prepared and executed with the name as its parameter,
  the five columns described and the rows served; then the transaction is ended. \<open>w6\<close> is the
  world after the commit.
\<close>

definition answers_query :: "'w odbc \<Rightarrow> handle \<Rightarrow> byte list \<Rightarrow> answer_row list \<Rightarrow> handle \<Rightarrow> 'w \<Rightarrow> 'w \<Rightarrow> bool" where
  "answers_query drv hdbc name rows h w w6 \<longleftrightarrow> (\<exists>nl vl w1 w2 w3 w4 w5.
     SQLAllocHandle drv SQL_HANDLE_STMT hdbc w = ((SQL_SUCCESS, h), w1) \<and>
     SQLBindParameter drv h 1 SQL_C_CHAR MAX_DNS_NAME_LENGTH 0 w1 = (SQL_SUCCESS, w2) \<and>
     SQLPrepare drv h sqlQuery w2 = (SQL_SUCCESS, w3) \<and>
     SQLExecute drv h (\<lambda>_. Str name) w3 = (SQL_SUCCESS, w4) \<and>
     describes drv h (answer_columns nl vl) w4 \<and>
     serves drv h nl vl rows w4 w5 \<and>
     SQLEndTran drv hdbc w5 = (SQL_SUCCESS, w6))"

lemma with_statement_passed:
  assumes "SQLAllocHandle (rv_odbc rv) SQL_HANDLE_STMT (conn_hdbc (rv_connection rv)) (rs_world s) = ((r, h), w1)" and "passes r"
    and "body \<lparr>st_hstmt = h, st_hdbc = conn_hdbc (rv_connection rv)\<rparr> (s\<lparr>rs_world := w1\<rparr>) = Some (Inr x, s2)"
  shows "with_statement rv body s =
    Some (Inr x, s2\<lparr>rs_world := snd (SQLFreeHandle (rv_odbc rv) SQL_HANDLE_STMT h (rs_world s2))\<rparr>)"
proof -
  let ?st = "\<lparr>st_hstmt = h, st_hdbc = conn_hdbc (rv_connection rv)\<rparr>"
  have c: "SQLStatement_ctor (rv_odbc rv) (rv_junk rv) (rv_connection rv) (rs_world s) = Some (Inr ?st, w1)"
    using assms(1,2) by (simp add: SQLStatement_ctor_def Let_def statement_calls.seq_check)
  have d: "SQLStatement_dtor (rv_odbc rv) ?st w = Some (Inr (), snd (SQLFreeHandle (rv_odbc rv) SQL_HANDLE_STMT h w))" for w
    by (simp add: SQLStatement_dtor_def)
  have "try_catch (body ?st) e (s\<lparr>rs_world := w1\<rparr>) = Some (Inr x, s2)" for e
    using assms(3) by (rule try_catch_apply)
  then show ?thesis
    by (simp add: with_statement_def world_Inr [where m = "SQLStatement_ctor _ _ _", OF c] world_Inr [where m = "SQLStatement_dtor _ _", OF d] seq_def [of "try_catch _ _"])
qed

lemmas with_statement_done = with_statement_passed [OF _ passes_success(1)]

text \<open>The calls up to the loop, and what the loop and the end of the function make of its result.\<close>

lemma resolveA_around_loop:
  fixes rv :: "'w resolver"
  assumes "SQLAllocHandle (rv_odbc rv) SQL_HANDLE_STMT (conn_hdbc (rv_connection rv)) (rs_world s) = ((SQL_SUCCESS, h), w1)"
    and "SQLBindParameter (rv_odbc rv) h 1 SQL_C_CHAR MAX_DNS_NAME_LENGTH 0 w1 = (SQL_SUCCESS, w2)"
    and "SQLPrepare (rv_odbc rv) h sqlQuery w2 = (SQL_SUCCESS, w3)"
    and "SQLExecute (rv_odbc rv) h (\<lambda>_. Str nm) w3 = (SQL_SUCCESS, w4)"
    and "describes (rv_odbc rv) h (answer_columns nl vl) w4"
    and "q_qname q = nm @ 0 # t" and "0 \<notin> set nm" and "length nm < 255"
    and "st = \<lparr>st_hstmt = h, st_hdbc = conn_hdbc (rv_connection rv)\<rparr>" and "rs = column_set h (answer_columns nl vl)"
    and "while_io (\<lambda>v. world_io (SQLResultSet_next (rv_odbc rv) (rv_junk rv) rs)) (resolveA_row rv st rs off)
      (resolveA_start rv off info) (s\<lparr>rs_world := w4\<rparr>) = Some (Inr r, s5)"
    and "resolveA_end rv st off packetLen r s5 = Some (Inr x, s2)"
  shows "resolveA rv q off info packetLen s =
    Some (Inr x, s2\<lparr>rs_world := snd (SQLFreeHandle (rv_odbc rv) SQL_HANDLE_STMT h (rs_world s2))\<rparr>)"
proof -
  let ?drv = "rv_odbc rv" and ?junk = "rv_junk rv"
  have "strlen (q_qname q) 0 = ret (length nm)" using strlen_at [OF assms(7), of "[]" 0 t] assms(6) by simp
  then obtain u where cp: "strcpy_s (fresh ?junk MAX_DNS_NAME_LENGTH) (q_qname q) 0 = ret (nm @ 0 # u)"
    using assms(6,8) by (simp add: strcpy_s_def MAX_DNS_NAME_LENGTH_def)
  have b: "bindString ?drv ?junk st 1 MAX_DNS_NAME_LENGTH 0 w1 = Some (Inr (), w2)"
    using assms(2,9) by (simp add: bindString_def statement_calls.check_passes)
  have p: "prepare ?drv ?junk st sqlQuery w2 = Some (Inr (), w3)"
    using assms(3,9) by (simp add: prepare_def statement_calls.check_passes)
  have e: "executeQuery ?drv ?junk st (\<lambda>_. Str nm) False w3 = Some (Inr rs, w4)"
    using assms(4,9,10) SQLResultSet_ctor_columns [OF assms(5)]
    by (simp add: executeQuery_def execute_first_def statement_calls.seq_check seq_assoc)
  let ?body = "\<lambda>st. seq (pure_run (strcpy_s (fresh ?junk MAX_DNS_NAME_LENGTH) (q_qname q) 0)) (\<lambda>name.
      seq (world_io (bindString ?drv ?junk st 1 MAX_DNS_NAME_LENGTH 0)) (\<lambda>_.
      seq (world_io (prepare ?drv ?junk st sqlQuery)) (\<lambda>_.
      seq (world_io (executeQuery ?drv ?junk st (\<lambda>_. Str (cstr name)) False)) (\<lambda>rs.
      seq (while_io (\<lambda>v. world_io (SQLResultSet_next ?drv ?junk rs)) (resolveA_row rv st rs off)
             (resolveA_start rv off info)) (\<lambda>r.
        resolveA_end rv st off packetLen r)))))"
  have "?body st (s\<lparr>rs_world := w1\<rparr>) = Some (Inr x, s2)"
    using assms(12)
    by (simp add: cp cstr_append_0 [OF assms(7)] world_Inr [of _ _ _ w2] b [unfolded One_nat_def] world_Inr [of _ _ _ w3] p
      world_Inr [of _ _ _ w4] e seq_apply(1) [where m = "while_io _ _ _", OF assms(11)])
  then have "with_statement rv ?body s = Some (Inr x, s2\<lparr>rs_world := snd (SQLFreeHandle ?drv SQL_HANDLE_STMT h (rs_world s2))\<rparr>)"
    unfolding assms(9) by (rule with_statement_done [OF assms(1)])
  then show ?thesis unfolding resolveA_def Let_def .
qed

definition resolved :: "'w rstate \<Rightarrow> nat \<Rightarrow> answer_row list \<Rightarrow> 'w \<Rightarrow> 'w rstate" where
  "resolved s off rows w = s\<lparr>rs_world := w, rs_packet := patch (rs_packet s) off (answer_section (rs_pointers s) off rows),
     rs_pointers := answer_pointers (rs_pointers s) off rows\<rparr>"

lemma resolveA_rows:
  assumes "answers_query (rv_odbc rv) (conn_hdbc (rv_connection rv)) nm rows h (rs_world s) w6"
    and "q_qname q = nm @ 0 # t" and "0 \<notin> set nm" and "length nm < 255"
    and "\<forall>r\<in>set rows. row_ok r"
    and "n = length (answer_section (rs_pointers s) off rows)" and "n < 500" and "off + n \<le> length (rs_packet s)"
    and "12 \<le> off" and "info' = info\<lparr>ri_answers := ri_answers info + of_nat (length rows)\<rparr>"
    and "s' = resolved s off rows w6"
    and "if 0 < address_rows rows \<or> h_rd (packet_header (rs_packet s)) = 0 then r = (of_nat n, info') \<and> s2 = s'
         else recursiveResolve rv packetLen s' = Some (Inr len, s2) \<and> r = (len, info'\<lparr>ri_recursionOccurred := True\<rparr>)"
  shows "resolveA rv q off info packetLen s =
    Some (Inr r, s2\<lparr>rs_world := snd (SQLFreeHandle (rv_odbc rv) SQL_HANDLE_STMT h (rs_world s2))\<rparr>)"
proof -
  let ?drv = "rv_odbc rv" and ?junk = "rv_junk rv"
  let ?st = "\<lparr>st_hstmt = h, st_hdbc = conn_hdbc (rv_connection rv)\<rparr>"
  obtain nl vl w1 w2 w3 w4 w5 where
    a: "SQLAllocHandle ?drv SQL_HANDLE_STMT (conn_hdbc (rv_connection rv)) (rs_world s) = ((SQL_SUCCESS, h), w1)"
      "SQLBindParameter ?drv h 1 SQL_C_CHAR MAX_DNS_NAME_LENGTH 0 w1 = (SQL_SUCCESS, w2)"
      "SQLPrepare ?drv h sqlQuery w2 = (SQL_SUCCESS, w3)" "SQLExecute ?drv h (\<lambda>_. Str nm) w3 = (SQL_SUCCESS, w4)"
      "describes ?drv h (answer_columns nl vl) w4"
    and srv: "serves ?drv h nl vl rows w4 w5" "SQLEndTran ?drv (conn_hdbc (rv_connection rv)) w5 = (SQL_SUCCESS, w6)"
    using assms(1) unfolding answers_query_def by blast
  have c: "commit ?drv ?junk ?st w5 = Some (Inr (), w6)"
    using srv(2) by (simp add: commit_def statement_calls.check_passes)
  let ?v0 = "resolveA_start rv off info" and ?rs = "column_set h (answer_columns nl vl)"
  let ?s5 = "s\<lparr>rs_world := w5, rs_packet := patch (rs_packet s) off (answer_section (rs_pointers s) off rows),
        rs_pointers := answer_pointers (rs_pointers s) off rows\<rparr>"
  have v0: "row_loop_ok ?v0" "v_ptr ?v0 = off" "v_remLen ?v0 = of_nat 500"
    by (simp_all add: resolveA_start_def row_loop_ok_def MAX_DNS_PACKET_LENGTH_def sizeof_DNSHeader_def)
  obtain v where loop: "while_io (\<lambda>v. world_io (SQLResultSet_next ?drv ?junk ?rs)) (resolveA_row rv ?st ?rs off) ?v0
        (s\<lparr>rs_world := w4\<rparr>) = Some (Inr (Inl v), ?s5)"
    and v: "v_ptr v = off + n" "v_numARecords v = address_rows rows" "v_info v = info'"
    using resolveA_loop [OF srv(1) refl assms(5) v0, of "s\<lparr>rs_world := w4\<rparr>" n ?st off] assms(6-8,10)
    by (auto simp: resolveA_start_def)
  have hd: "packet_header (rs_packet ?s5) = packet_header (rs_packet s)"
    using assms(6,8,9) by (simp add: packet_header_def)
  have s': "?s5\<lparr>rs_world := w6\<rparr> = s'" using assms(11) by (simp add: resolved_def)
  have "resolveA_end rv ?st off packetLen (Inl v) ?s5 = Some (Inr r, s2)"
    using assms(12) v hd
    by (auto simp: resolveA_end_def world_Inr [of _ _ _ w6] c s'
      seq_apply(1) [where m = "recursiveResolve rv packetLen"] split: if_splits)
  from resolveA_around_loop [OF a assms(2-4) refl refl loop this] show ?thesis .
qed

subsection \<open>An answer that fills the space\<close>

lemma row_wire_nonempty: "0 < length (row_wire ptrs r)"
  by (simp add: row_wire_def)

lemma answer_section_nonempty: "0 < length (answer_section ptrs off (rows @ [r]))"
  by (cases rows) (use row_wire_nonempty in \<open>auto simp: trans_less_add1\<close>)

lemma resolveA_loop_truncates:
  assumes "serves (rv_odbc rv) h nl vl (rows @ r # later) w w'" and "rs = column_set h (answer_columns nl vl)"
    and "\<forall>x\<in>set (rows @ [r]). row_ok x"
    and "row_loop_ok v" and "v_ptr v = off" and "v_remLen v = of_nat L" and "L < 2 ^ 31" and "rs_world s = w"
    and "L = length (answer_section (rs_pointers s) off (rows @ [r]))" and "off + L \<le> length (rs_packet s)"
    and "\<And>w. passes (fst (SQLEndTran (rv_odbc rv) (st_hdbc st) w))"
  shows "\<exists>s'. while_io (\<lambda>v. world_io (SQLResultSet_next (rv_odbc rv) (rv_junk rv) rs)) (resolveA_row rv st rs responseData) v s =
      Some (Inr (Inr (of_nat (off + length (answer_section (rs_pointers s) off rows) - responseData),
        (v_info v)\<lparr>ri_truncationOccurred := True, ri_answers := ri_answers (v_info v) + of_nat (length rows) - 1\<rparr>)), s') \<and>
    rs_packet s' = patch (rs_packet s) off (answer_section (rs_pointers s) off (rows @ [r]))"
  using assms(1,3-10)
proof (induction rows arbitrary: v off L w s)
  case Nil
  let ?rec = "row_wire (rs_pointers s) r"
  have L: "L = length ?rec" and srv0: "serves (rv_odbc rv) h nl vl (r # later) w w'" and ok: "row_ok r"
    using Nil by simp_all
  obtain w0 w5 v1 where
    c: "world_io (SQLResultSet_next (rv_odbc rv) (rv_junk rv) rs) s = Some (Inr True, s\<lparr>rs_world := w0\<rparr>)"
    and row: "resolveA_row rv st rs responseData v (s\<lparr>rs_world := w0\<rparr>) =
     (let s' = s\<lparr>rs_world := w5, rs_packet := patch (rs_packet s) off ?rec, rs_pointers := row_pointers (rs_pointers s) off r\<rparr> in
      if length ?rec < L then Some (Inr (Inl v1), s')
      else seq (world_io (commit (rv_odbc rv) (rv_junk rv) st)) (\<lambda>_. finish (Inr (of_nat (off - responseData),
        (v_info v)\<lparr>ri_truncationOccurred := True, ri_answers := ri_answers (v_info v) - 1\<rparr>))) s')"
    using Nil L by (rule_tac resolveA_row_served [OF srv0 assms(2) ok Nil(3-7) refl]) auto
  let ?s = "s\<lparr>rs_world := w5, rs_packet := patch (rs_packet s) off ?rec, rs_pointers := row_pointers (rs_pointers s) off r\<rparr>"
  have "commit (rv_odbc rv) (rv_junk rv) st w5 = Some (Inr (), snd (SQLEndTran (rv_odbc rv) (st_hdbc st) w5))"
    using assms(11) by (simp add: commit_def statement_calls.check_passes)
  then have "resolveA_row rv st rs responseData v (s\<lparr>rs_world := w0\<rparr>) = Some (Inr (Inr (of_nat (off - responseData),
      (v_info v)\<lparr>ri_truncationOccurred := True, ri_answers := ri_answers (v_info v) - 1\<rparr>)),
      ?s\<lparr>rs_world := snd (SQLEndTran (rv_odbc rv) (st_hdbc st) w5)\<rparr>)"
    unfolding row L Let_def by (simp add: world_Inr)
  from while_io_return [where c = "\<lambda>v. world_io (SQLResultSet_next (rv_odbc rv) (rv_junk rv) rs)" and
      body = "resolveA_row rv st rs responseData", OF c this]
  show ?case by auto
next
  case (Cons x rows)
  let ?rec = "row_wire (rs_pointers s) x" and ?ptrs = "row_pointers (rs_pointers s) off x"
  let ?rest = "answer_section ?ptrs (off + length ?rec) (rows @ [r])"
  have L: "L = length ?rec + length ?rest" "length ?rec < L"
    using Cons.prems(8) answer_section_nonempty [of ?ptrs "off + length ?rec" rows r] by simp_all
  have srv0: "serves (rv_odbc rv) h nl vl (x # rows @ r # later) w w'" and ok: "row_ok x"
    using Cons.prems(1,2) by simp_all
  obtain w0 w5 v1 where
    c: "world_io (SQLResultSet_next (rv_odbc rv) (rv_junk rv) rs) s = Some (Inr True, s\<lparr>rs_world := w0\<rparr>)"
    and srv: "serves (rv_odbc rv) h nl vl (rows @ r # later) w5 w'"
    and row: "resolveA_row rv st rs responseData v (s\<lparr>rs_world := w0\<rparr>) =
     (let s' = s\<lparr>rs_world := w5, rs_packet := patch (rs_packet s) off ?rec, rs_pointers := ?ptrs\<rparr> in
      if length ?rec < L then Some (Inr (Inl v1), s')
      else seq (world_io (commit (rv_odbc rv) (rv_junk rv) st)) (\<lambda>_. finish (Inr (of_nat (off - responseData),
        (v_info v)\<lparr>ri_truncationOccurred := True, ri_answers := ri_answers (v_info v) - 1\<rparr>))) s')"
    and v1: "row_loop_ok v1" "v_ptr v1 = off + length ?rec" "v_remLen v1 = of_nat (L - length ?rec)"
      "v_info v1 = (v_info v)\<lparr>ri_answers := ri_answers (v_info v) + 1\<rparr>"
    using Cons.prems L by (rule_tac resolveA_row_served [OF srv0 assms(2) ok Cons.prems(3-7) refl]) auto
  let ?s = "s\<lparr>rs_world := w5, rs_packet := patch (rs_packet s) off ?rec, rs_pointers := ?ptrs\<rparr>"
  have step: "while_io (\<lambda>v. world_io (SQLResultSet_next (rv_odbc rv) (rv_junk rv) rs)) (resolveA_row rv st rs responseData) v s =
      while_io (\<lambda>v. world_io (SQLResultSet_next (rv_odbc rv) (rv_junk rv) rs)) (resolveA_row rv st rs responseData) v1 ?s"
    by (rule while_io_step [where c = "\<lambda>v. world_io (SQLResultSet_next (rv_odbc rv) (rv_junk rv) rs)", OF c])
      (use L row in simp)
  have "\<exists>s'. while_io (\<lambda>v. world_io (SQLResultSet_next (rv_odbc rv) (rv_junk rv) rs)) (resolveA_row rv st rs responseData) v1 ?s =
      Some (Inr (Inr (of_nat (off + length ?rec + length (answer_section (rs_pointers ?s) (off + length ?rec) rows) - responseData),
        (v_info v1)\<lparr>ri_truncationOccurred := True, ri_answers := ri_answers (v_info v1) + of_nat (length rows) - 1\<rparr>)), s') \<and>
    rs_packet s' = patch (rs_packet ?s) (off + length ?rec) (answer_section (rs_pointers ?s) (off + length ?rec) (rows @ [r]))"
    by (rule Cons.IH [OF srv _ v1(1-3)]) (use Cons.prems L in simp_all)
  moreover have "patch (patch (rs_packet s) off ?rec) (off + length ?rec) ?rest =
      patch (rs_packet s) off (answer_section (rs_pointers s) off ((x # rows) @ [r]))"
    using Cons.prems(9) L by (simp add: patch_behind)
  ultimately show ?case unfolding step using v1(4) by (auto simp: add.assoc)
qed

subsection \<open>A driver that serves a list of rows\<close>

definition list_driver :: "(answer_row list \<times> answer_row) odbc" where
  "list_driver = silent\<lparr>
     SQLDescribeCol := \<lambda>h i w. if 1 \<le> i \<and> i \<le> 5 then ((SQL_SUCCESS, answer_columns 255 255 ! (i - 1)), w) else ((SQL_ERROR, [], 0, 0), w),
     SQLFetch := \<lambda>h w. case fst w of [] \<Rightarrow> (SQL_NO_DATA, w) | r # rows \<Rightarrow> (SQL_SUCCESS, (rows, r)),
     SQLGetData := \<lambda>h i t l w. ((SQL_SUCCESS, Some (
        if i = 1 then Num (ar_ttl (snd w)) else if i = 2 then Str (ar_name (snd w)) else if i = 3 then Str (ar_value (snd w))
        else if i = 4 then Num (uint (ar_type (snd w))) else Num (uint (ar_class (snd w))))), w)\<rparr>"

lemma serves_list_driver: "serves list_driver h nl vl rows (rows, c) ([], last (c # rows))"
  by (induction rows arbitrary: c) (simp_all add: list_driver_def)

lemma list_driver_answers: "answers_query list_driver hdbc nm rows 7 (rows, c) ([], last (c # rows))"
proof -
  have "describes list_driver 7 (answer_columns 255 255) (rows, c)"
    by (simp add: describes_def list_driver_def answer_columns_def)
  moreover have "SQLAllocHandle list_driver SQL_HANDLE_STMT hdbc w = ((SQL_SUCCESS, 7), w)"
    "SQLBindParameter list_driver 7 1 SQL_C_CHAR MAX_DNS_NAME_LENGTH 0 w = (SQL_SUCCESS, w)"
    "SQLPrepare list_driver 7 sqlQuery w = (SQL_SUCCESS, w)" "SQLExecute list_driver 7 v w = (SQL_SUCCESS, w)"
    "SQLEndTran list_driver hdbc w = (SQL_SUCCESS, w)" for w v
    by (simp_all add: list_driver_def silent_def SQL_SUCCESS_def)
  ultimately show ?thesis unfolding answers_query_def using serves_list_driver by metis
qed

text \<open>A network that gives a fixed reply to every request.\<close>

definition reply_net :: "byte list \<Rightarrow> 'w winsock" where
  "reply_net reply = \<lparr>ws_sendto = \<lambda>b w. (int (length b), w), ws_select = \<lambda>w. (1, w),
     ws_recv = \<lambda>n w. ((int (length reply), reply), w), WSAGetLastError = \<lambda>w. (0, w)\<rparr>"

lemma reply_net_exchanges: "length reply \<le> 512 \<Longrightarrow> exchanges (reply_net reply) request reply w w"
  by (simp add: exchanges_def reply_net_def SOCKET_ERROR_def MAX_DNS_PACKET_LENGTH_def)

definition list_resolver :: "byte list \<Rightarrow> (answer_row list \<times> answer_row) resolver" where
  "list_resolver reply = \<lparr>rv_odbc = list_driver, rv_net = reply_net reply, rv_connection = \<lparr>conn_hdbc = 1\<rparr>,
     rv_recursiveServer = 0x08080808, rv_junk = \<lambda>_. 0, rv_stack = [], rv_info = False\<rparr>"

definition example_row :: answer_row where
  "example_row = \<lparr>ar_ttl = 60, ar_name = [97], ar_value = dotted_quad [10, 0, 0, 1], ar_type = 1, ar_class = 1\<rparr>"

lemma row_addr_quad:
  assumes "length a = 4" and "ar_value r = dotted_quad a"
  shows "row_addr r = a"
proof -
  have ne: "map (\<lambda>b. dec_digits (unat b)) a \<noteq> []" using assms(1) by auto
  have "split_dots (dotted_quad a) = map (\<lambda>b. dec_digits (unat b)) a"
    unfolding dotted_quad_def using dec_digits_part by (intro split_dots_dotted [OF ne]) auto
  then show ?thesis using assms(2) by (simp add: row_addr_def atoi_byte comp_def)
qed

lemma good_name_a: "good_name [97]"
  by (simp add: good_name_def wire_label_def)

lemma example_row_ok: "row_ok example_row"
  using row_addr_quad [of "[10, 0, 0, 1]" example_row]
  by (simp add: row_ok_def example_row_def good_name_a)

section \<open>Properties\<close>

text \<open>
  C6. A question answered from the cache: where the database gives the rows for the name, the
  resolver writes exactly the answer section those rows describe, each record under a compressed
  or full name, enters the targets of aliases in the table of names, counts one answer for each row,
  and returns the length of the section, provided the section is shorter than 500 bytes and there
  is an address among the rows or recursion is not desired.
\<close>

theorem cache_hit_answer:
  assumes "answers_query (rv_odbc rv) (conn_hdbc (rv_connection rv)) nm rows h (rs_world s) w6"
    and "q_qname q = nm @ 0 # t" and "0 \<notin> set nm" and "length nm < 255" and "\<forall>r\<in>set rows. row_ok r"
    and "n = length (answer_section (rs_pointers s) off rows)" and "n < 500" and "off + n \<le> length (rs_packet s)"
    and "12 \<le> off" and "0 < address_rows rows \<or> h_rd (packet_header (rs_packet s)) = 0"
  shows "\<exists>s2. resolveA rv q off info packetLen s = Some (Inr (of_nat n, info\<lparr>ri_answers := ri_answers info + of_nat (length rows)\<rparr>), s2) \<and>
    rs_packet s2 = patch (rs_packet s) off (answer_section (rs_pointers s) off rows) \<and>
    rs_pointers s2 = answer_pointers (rs_pointers s) off rows"
  using resolveA_rows [OF assms(1-9) refl refl, of "(of_nat n, info\<lparr>ri_answers := ri_answers info + of_nat (length rows)\<rparr>)" info
    "resolved s off rows w6" packetLen 0] assms(10) by (simp add: resolved_def)

theorem cache_hit_answer_witness:
  "\<exists>s2. resolveA (list_resolver []) \<lparr>q_qname = [97] @ 0 # [], q_qtype = 1, q_qclass = 1, q_length = 7\<rparr> 19 new_ResponseInfo 19
      \<lparr>rs_world = ([example_row], example_row), rs_packet = replicate 1024 0, rs_pointers = [[97] \<mapsto> 12], rs_queries = []\<rparr> =
      Some (Inr (of_nat (length (answer_section [[97] \<mapsto> 12] 19 [example_row])),
        new_ResponseInfo\<lparr>ri_answers := ri_answers new_ResponseInfo + of_nat (length [example_row])\<rparr>), s2) \<and>
    rs_packet s2 = patch (replicate 1024 0) 19 (answer_section [[97] \<mapsto> 12] 19 [example_row]) \<and>
    rs_pointers s2 = answer_pointers [[97] \<mapsto> 12] 19 [example_row]"
proof -
  let ?s = "\<lparr>rs_world = ([example_row], example_row), rs_packet = replicate 1024 0, rs_pointers = [[97] \<mapsto> 12], rs_queries = []\<rparr>"
  have a: "answers_query (rv_odbc (list_resolver [])) (conn_hdbc (rv_connection (list_resolver []))) [97] [example_row] 7 (rs_world ?s)
      ([], last (example_row # [example_row]))"
    using list_driver_answers [of 1 "[97]" "[example_row]" example_row] by (simp add: list_resolver_def)
  have len: "length (answer_section [[97] \<mapsto> 12] 19 [example_row]) = 16"
    using row_addr_quad [of "[10, 0, 0, 1]" example_row]
    by (simp add: row_wire_def row_payload_def name_wire_def cstr_def example_row_def)
  show ?thesis
    using cache_hit_answer [OF a, of "\<lparr>q_qname = [97] @ 0 # [], q_qtype = 1, q_qclass = 1, q_length = 7\<rparr>" "[]" _ 19 new_ResponseInfo 19] len example_row_ok
    by (simp add: address_rows_def) (simp add: example_row_def)
qed

text \<open>
  C17. A question with no address in the cache and recursion desired: the bytes of the request that the caller
  gives the length of go to the recursive server unchanged, a reply with the identifier of the request replaces the packet from its first byte, and the returned length
  is the number of bytes by which the reply exceeds the request, in \<open>size_t\<close> arithmetic.
\<close>

theorem cache_miss_recursion:
  assumes "answers_query (rv_odbc rv) (conn_hdbc (rv_connection rv)) nm rows h (rs_world s) w6"
    and "q_qname q = nm @ 0 # t" and "0 \<notin> set nm" and "length nm < 255" and "\<forall>r\<in>set rows. row_ok r"
    and "length (answer_section (rs_pointers s) off rows) < 500"
    and "off + length (answer_section (rs_pointers s) off rows) \<le> length (rs_packet s)"
    and "12 \<le> off" and "address_rows rows = 0" and "h_rd (packet_header (rs_packet s)) \<noteq> 0"
    and "rv_recursiveServer rv \<noteq> 4294967295" and "unat packetLen \<le> off" and "512 \<le> length (rs_packet s)"
    and "exchanges (rv_net rv) (take (unat packetLen) (rs_packet s)) reply w6 w7" and "12 \<le> length reply"
    and "h_id (header_of_bytes (take 12 reply)) = h_id (packet_header (rs_packet s))"
  shows "\<exists>s2 info'. resolveA rv q off info packetLen s = Some (Inr (of_nat (length reply) - packetLen, info'), s2) \<and>
    ri_recursionOccurred info' \<and> take (length reply) (rs_packet s2) = reply"
proof -
  let ?s' = "resolved s off rows w6"
  let ?info = "info\<lparr>ri_answers := ri_answers info + of_nat (length rows)\<rparr>"
  have p: "rs_packet ?s' = patch (rs_packet s) off (answer_section (rs_pointers s) off rows)" "rs_world ?s' = w6"
    by (simp_all add: resolved_def)
  have len: "length (rs_packet ?s') = length (rs_packet s)" using p assms(7) by simp
  have t: "take (unat packetLen) (rs_packet ?s') = take (unat packetLen) (rs_packet s)"
    using p(1) assms(7,12) by simp
  have hd: "packet_header (rs_packet ?s') = packet_header (rs_packet s)"
    using p(1) assms(7,8) by (simp add: packet_header_def)
  have r: "length reply \<le> 512" using assms(14) by (auto simp: exchanges_def MAX_DNS_PACKET_LENGTH_def)
  let ?s2 = "?s'\<lparr>rs_world := w7, rs_packet := patch (rs_packet ?s') 0 reply\<rparr>"
  have "recursiveResolve rv packetLen ?s' = Some (Inr (of_nat (length reply) - packetLen), ?s2)"
    using recursiveResolve_exchange [of rv packetLen ?s' reply w7] assms(7,11,12,13,14,15,16) len hd p(2) t by simp
  then have "resolveA rv q off info packetLen s = Some (Inr (of_nat (length reply) - packetLen, ?info\<lparr>ri_recursionOccurred := True\<rparr>),
      ?s2\<lparr>rs_world := snd (SQLFreeHandle (rv_odbc rv) SQL_HANDLE_STMT h (rs_world ?s2))\<rparr>)"
    using assms(9,10) by (intro resolveA_rows [OF assms(1-5) refl assms(6,7,8) refl refl]) simp
  moreover have "take (length reply) (patch (rs_packet ?s') 0 reply) = reply"
    using r assms(13) len by (simp add: patch_def)
  ultimately show ?thesis by simp
qed

theorem cache_miss_recursion_witness:
  "\<exists>s2 info'. resolveA (list_resolver (header_bytes (header_of_bytes (replicate 12 0xFF)) @ [1, 2, 3]))
      \<lparr>q_qname = [97] @ 0 # [], q_qtype = 1, q_qclass = 1, q_length = 7\<rparr> 19 new_ResponseInfo 19
      \<lparr>rs_world = ([], example_row), rs_packet = replicate 1024 0xFF, rs_pointers = [[97] \<mapsto> 12], rs_queries = []\<rparr> =
      Some (Inr (of_nat (length (header_bytes (header_of_bytes (replicate 12 0xFF)) @ [1, 2, 3])) - 19, info'), s2) \<and>
    ri_recursionOccurred info' \<and> take (length (header_bytes (header_of_bytes (replicate 12 0xFF)) @ [1, 2, 3])) (rs_packet s2) =
      header_bytes (header_of_bytes (replicate 12 0xFF)) @ [1, 2, 3]"
proof -
  let ?reply = "header_bytes (header_of_bytes (replicate 12 0xFF)) @ [1, 2, 3]"
  let ?s = "\<lparr>rs_world = ([], example_row), rs_packet = replicate 1024 0xFF, rs_pointers = [[97] \<mapsto> 12], rs_queries = []\<rparr>"
  have a: "answers_query (rv_odbc (list_resolver ?reply)) (conn_hdbc (rv_connection (list_resolver ?reply))) [97] [] 7 (rs_world ?s)
      ([], last [example_row])"
    using list_driver_answers [of 1 "[97]" "[]" example_row] by (simp add: list_resolver_def)
  have x: "exchanges (rv_net (list_resolver ?reply)) (take (unat (19 :: 64 word)) (rs_packet ?s)) ?reply ([], last [example_row]) ([], last [example_row])"
    by (simp add: list_resolver_def reply_net_exchanges)
  have h: "packet_header (replicate 1024 0xFF) = header_of_bytes (replicate 12 0xFF)" "take 12 ?reply = replicate 12 0xFF"
    by (simp_all add: packet_header_def hdr.enc_dec)
  have rd1: "h_rd (header_of_bytes (replicate 12 0xFF)) \<noteq> 0"
    by (simp add: header_of_bytes_def header_of_units_def of_le32_def)
  show ?thesis
    by (rule cache_miss_recursion [OF a _ _ _ _ _ _ _ _ _ _ _ _ x])
      (use h rd1 in \<open>simp_all add: address_rows_def list_resolver_def\<close>)
qed

text \<open>
  C29. An answer section of exactly 500 bytes fits the block of 1024 bytes that holds the packet, and all of it is written; the last
  record is nevertheless treated as truncated: it is not part of the returned length, and the
  number of answers is decremented instead of kept, so it is one less than the number of records
  in the length that is returned.
\<close>

theorem exact_fit_is_truncated:
  assumes "serves (rv_odbc rv) h nl vl (rows @ r # later) w4 w'"
    and "SQLAllocHandle (rv_odbc rv) SQL_HANDLE_STMT (conn_hdbc (rv_connection rv)) (rs_world s) = ((SQL_SUCCESS, h), w1)"
    and "SQLBindParameter (rv_odbc rv) h 1 SQL_C_CHAR MAX_DNS_NAME_LENGTH 0 w1 = (SQL_SUCCESS, w2)"
    and "SQLPrepare (rv_odbc rv) h sqlQuery w2 = (SQL_SUCCESS, w3)"
    and "SQLExecute (rv_odbc rv) h (\<lambda>_. Str nm) w3 = (SQL_SUCCESS, w4)"
    and "describes (rv_odbc rv) h (answer_columns nl vl) w4"
    and "\<And>w. passes (fst (SQLEndTran (rv_odbc rv) (conn_hdbc (rv_connection rv)) w))"
    and "q_qname q = nm @ 0 # t" and "0 \<notin> set nm" and "length nm < 255"
    and "\<forall>x\<in>set (rows @ [r]). row_ok x"
    and "length (answer_section (rs_pointers s) off (rows @ [r])) = 500" and "off + 500 \<le> length (rs_packet s)"
  shows "\<exists>s2. resolveA rv q off info packetLen s =
      Some (Inr (of_nat (length (answer_section (rs_pointers s) off rows)),
        info\<lparr>ri_truncationOccurred := True, ri_answers := ri_answers info + of_nat (length rows) - 1\<rparr>), s2) \<and>
    rs_packet s2 = patch (rs_packet s) off (answer_section (rs_pointers s) off (rows @ [r]))"
proof -
  let ?st = "\<lparr>st_hstmt = h, st_hdbc = conn_hdbc (rv_connection rv)\<rparr>" and ?rs = "column_set h (answer_columns nl vl)"
  let ?v0 = "resolveA_start rv off info"
  have v0: "row_loop_ok ?v0" "v_ptr ?v0 = off" "v_remLen ?v0 = of_nat 500" "v_info ?v0 = info"
    by (simp_all add: resolveA_start_def row_loop_ok_def MAX_DNS_PACKET_LENGTH_def sizeof_DNSHeader_def)
  have e: "rs_pointers (s\<lparr>rs_world := w4\<rparr>) = rs_pointers s" "rs_packet (s\<lparr>rs_world := w4\<rparr>) = rs_packet s" by simp_all
  have "\<exists>s'. while_io (\<lambda>v. world_io (SQLResultSet_next (rv_odbc rv) (rv_junk rv) ?rs)) (resolveA_row rv ?st ?rs off) ?v0
        (s\<lparr>rs_world := w4\<rparr>) = Some (Inr (Inr (of_nat (off + length (answer_section (rs_pointers (s\<lparr>rs_world := w4\<rparr>)) off rows) - off),
        (v_info ?v0)\<lparr>ri_truncationOccurred := True, ri_answers := ri_answers (v_info ?v0) + of_nat (length rows) - 1\<rparr>)), s') \<and>
      rs_packet s' = patch (rs_packet (s\<lparr>rs_world := w4\<rparr>)) off (answer_section (rs_pointers (s\<lparr>rs_world := w4\<rparr>)) off (rows @ [r]))"
  proof (rule resolveA_loop_truncates [OF assms(1) refl assms(11) v0(1-3)])
    show "passes (fst (SQLEndTran (rv_odbc rv) (st_hdbc ?st) w))" for w using assms(7) by simp
  qed (use assms(12,13) in simp_all)
  then obtain s5 where l: "while_io (\<lambda>v. world_io (SQLResultSet_next (rv_odbc rv) (rv_junk rv) ?rs)) (resolveA_row rv ?st ?rs off) ?v0
        (s\<lparr>rs_world := w4\<rparr>) = Some (Inr (Inr (of_nat (length (answer_section (rs_pointers s) off rows)),
        info\<lparr>ri_truncationOccurred := True, ri_answers := ri_answers info + of_nat (length rows) - 1\<rparr>)), s5)"
    and p: "rs_packet s5 = patch (rs_packet s) off (answer_section (rs_pointers s) off (rows @ [r]))"
    unfolding e v0(4) add_diff_cancel_left' by blast
  have "resolveA_end rv ?st off packetLen (Inr (of_nat (length (answer_section (rs_pointers s) off rows)),
        info\<lparr>ri_truncationOccurred := True, ri_answers := ri_answers info + of_nat (length rows) - 1\<rparr>)) s5 =
      Some (Inr (of_nat (length (answer_section (rs_pointers s) off rows)),
        info\<lparr>ri_truncationOccurred := True, ri_answers := ri_answers info + of_nat (length rows) - 1\<rparr>), s5)"
    by (simp add: resolveA_end_def)
  from resolveA_around_loop [OF assms(2-6,8-10) refl refl l this] p show ?thesis by auto
qed

definition long_row :: answer_row where
  "long_row = example_row\<lparr>ar_name := [97, 97, 97, 97]\<rparr>"

lemma length_example_rows:
  assumes "ps [97] = Some 12" and "ps [97, 97, 97, 97] = None"
  shows "length (answer_section ps off (replicate n example_row @ [long_row])) = 16 * n + 20"
proof (induction n arbitrary: off)
  case 0
  show ?case
    using row_addr_quad [of "[10, 0, 0, 1]" long_row] assms
    by (simp add: row_wire_def row_payload_def name_wire_def cstr_def long_row_def example_row_def)
next
  case (Suc n)
  have "length (row_wire ps example_row) = 16"
    using row_addr_quad [of "[10, 0, 0, 1]" example_row] assms
    by (simp add: row_wire_def row_payload_def name_wire_def cstr_def example_row_def)
  moreover have "row_pointers ps off example_row = ps"
    using assms by (simp add: row_pointers_def example_row_def)
  ultimately show ?case using Suc.IH by simp
qed

theorem exact_fit_is_truncated_witness:
  "\<exists>s2. resolveA (list_resolver []) \<lparr>q_qname = [97] @ 0 # [], q_qtype = 1, q_qclass = 1, q_length = 7\<rparr> 19 new_ResponseInfo 19
      \<lparr>rs_world = (replicate 30 example_row @ long_row # [], example_row), rs_packet = replicate 1024 0,
        rs_pointers = [[97] \<mapsto> 12], rs_queries = []\<rparr> =
      Some (Inr (of_nat (length (answer_section [[97] \<mapsto> 12] 19 (replicate 30 example_row))),
        new_ResponseInfo\<lparr>ri_truncationOccurred := True,
          ri_answers := ri_answers new_ResponseInfo + of_nat (length (replicate 30 example_row)) - 1\<rparr>), s2) \<and>
    rs_packet s2 = patch (replicate 1024 0) 19 (answer_section [[97] \<mapsto> 12] 19 (replicate 30 example_row @ [long_row]))"
proof -
  let ?rv = "list_resolver []" and ?q = "\<lparr>q_qname = [97] @ 0 # [], q_qtype = 1, q_qclass = 1, q_length = 7\<rparr>"
  let ?rows = "replicate 30 example_row @ long_row # []"
  let ?s = "\<lparr>rs_world = (?rows, example_row), rs_packet = replicate 1024 0, rs_pointers = [[97] \<mapsto> 12], rs_queries = []\<rparr>"
  have rv: "rv_odbc ?rv = list_driver" by (simp add: list_resolver_def)
  have "row_ok long_row"
    using row_addr_quad [of "[10, 0, 0, 1]" long_row]
    by (simp add: row_ok_def long_row_def example_row_def good_name_def wire_label_def)
  then have ok: "\<forall>x\<in>set (replicate 30 example_row @ [long_row]). row_ok x" using example_row_ok by simp
  have "describes list_driver 7 (answer_columns 255 255) (?rows, example_row)"
    by (simp add: describes_def list_driver_def answer_columns_def)
  then have "describes (rv_odbc ?rv) 7 (answer_columns 255 255) (?rows, example_row)" unfolding rv .
  moreover have "serves (rv_odbc ?rv) 7 255 255 ?rows (?rows, example_row) ([], last (example_row # ?rows))"
    unfolding rv by (rule serves_list_driver)
  ultimately have "\<exists>s2. resolveA ?rv ?q 19 new_ResponseInfo 19 ?s =
      Some (Inr (of_nat (length (answer_section (rs_pointers ?s) 19 (replicate 30 example_row))),
        new_ResponseInfo\<lparr>ri_truncationOccurred := True,
          ri_answers := ri_answers new_ResponseInfo + of_nat (length (replicate 30 example_row)) - 1\<rparr>), s2) \<and>
    rs_packet s2 = patch (rs_packet ?s) 19 (answer_section (rs_pointers ?s) 19 (replicate 30 example_row @ [long_row]))"
  proof (rule_tac exact_fit_is_truncated [where nm = "[97]" and t = "[]" and later = "[]"])
    show "\<forall>x\<in>set (replicate 30 example_row @ [long_row]). row_ok x" by (rule ok)
    show "length (answer_section (rs_pointers ?s) 19 (replicate 30 example_row @ [long_row])) = 500"
      by (subst length_example_rows) simp_all
    show "19 + 500 \<le> length (rs_packet ?s)" by simp
  qed (simp_all add: rv list_driver_def silent_def SQL_SUCCESS_def passes_def SQL_ERROR_def SQL_INVALID_HANDLE_def)
  then show ?thesis by simp
qed

end
