(* ===== verification/Worker.thy ===== *)
theory Worker
  imports Answers
begin

text \<open>
  \<open>DNSServer::serviceRequests\<close> of \<open>src/ODBCDNS/DNSServer.cpp\<close>: what a worker thread does with a request
  it has taken from the queue. The worker's resolver and the send function of the server's socket
  are its configuration; its variables are a record that is passed along, and the packet of the
  request is the packet of the resolver's state. The queue, the wait functions and the other
  threads are in the theory \<open>Server\<close>.
\<close>

section \<open>A worker\<close>

record 'w worker =
  wk_resolver :: "'w resolver"
  wk_sendto :: "byte list \<Rightarrow> byte list \<Rightarrow> 'w \<Rightarrow> int \<times> 'w"

text \<open>A request: the memory of its packet, twice the length of a packet, and its sender.\<close>

record DNSRequest =
  req_packet :: "byte list"
  req_from :: "byte list"

record worker_vars =
  wv_responseInfo :: ResponseInfo
  wv_error :: bool
  wv_e :: string
  wv_totalBytes :: "64 word"
  wv_queryBytes :: "64 word"
  wv_from :: "byte list"

text \<open>The value of a variable of type \<open>size_t\<close> that has not been assigned.\<close>

definition unset_size :: "(nat \<Rightarrow> byte) \<Rightarrow> 64 word" where
  "unset_size junk = ucast (of_le32 (junk 0) (junk 1) (junk 2) (junk 3)) OR
     push_bit 32 (ucast (of_le32 (junk 4) (junk 5) (junk 6) (junk 7)))"

definition start_vars :: "(nat \<Rightarrow> byte) \<Rightarrow> worker_vars" where
  "start_vars junk = \<lparr>wv_responseInfo = new_ResponseInfo, wv_error = False, wv_e = '''',
     wv_totalBytes = unset_size junk, wv_queryBytes = unset_size junk, wv_from = []\<rparr>"

text \<open>The start of the thread: a resolver that cannot connect ends the process.\<close>

definition ERR_CONNECT_ODBC :: int where
  "ERR_CONNECT_ODBC = 10"

definition worker_start :: "'w odbc \<Rightarrow> (nat \<Rightarrow> byte) \<Rightarrow> SQLEnvironment \<Rightarrow> string \<Rightarrow> ('w, SQLConnection) io" where
  "worker_start drv junk environment connectionString =
     try_catch (resolver_ctor drv junk environment connectionString)
       (\<lambda>e. case e of Exception m \<Rightarrow> fail (Exit ERR_CONNECT_ODBC) | _ \<Rightarrow> fail e)"

section \<open>Before the wait\<close>

definition update_header :: "(DNSHeader \<Rightarrow> DNSHeader) \<Rightarrow> ('w rstate, unit) io" where
  "update_header f = seq get_packet (\<lambda>p. set_packet (set_header p (f (packet_header p))))"

text \<open>The response of a request that went to the recursive server is cached once it has been sent.\<close>

definition cache_phase :: "'w worker \<Rightarrow> worker_vars \<Rightarrow> ('w rstate, unit) io" where
  "cache_phase wk v =
     (if \<not> wv_error v \<and> ri_recursionOccurred (wv_responseInfo v) then
        seq get_packet (\<lambda>p.
          cacheResponse (wk_resolver wk) (sizeof_DNSHeader + unat (wv_queryBytes v))
            (unat (ntohs (h_ancount (packet_header p)))))
      else finish ())"

text \<open>An exception while caching is logged and leads back to this place with \<open>error\<close> set.\<close>

definition prepare_phase :: "'w worker \<Rightarrow> worker_vars \<Rightarrow> ('w rstate, worker_vars) io" where
  "prepare_phase wk v =
     seq (try_catch (cache_phase wk v) (\<lambda>e. finish ())) (\<lambda>_.
     seq (modify (\<lambda>s. s\<lparr>rs_queries := []\<rparr>)) (\<lambda>_.
     seq clean (\<lambda>_. finish (v\<lparr>wv_error := False\<rparr>))))"

section \<open>A request\<close>

definition set_rcode :: "RCODE \<Rightarrow> ('w rstate, unit) io" where
  "set_rcode r = update_header (h_rcode_update (\<lambda>_. ucast (rcode_value r)))"

text \<open>The text of the exception that is kept, by the handlers of the two inner \<open>try\<close> blocks.\<close>

definition extract_phase :: "'w worker \<Rightarrow> worker_vars \<Rightarrow> ('w rstate, worker_vars) io" where
  "extract_phase wk v =
     try_catch (seq (extractQueries (wk_resolver wk)) (\<lambda>n.
         finish (v\<lparr>wv_queryBytes := of_nat n, wv_totalBytes := of_nat n\<rparr>)))
       (\<lambda>e. seq (set_rcode RCODE_FORMAT_ERROR) (\<lambda>_.
         finish (v\<lparr>wv_error := True, wv_e := (case e of Exception m \<Rightarrow> m | _ \<Rightarrow> ''Unknown'')\<rparr>)))"

definition set_response :: "'w resolver \<Rightarrow> ResponseInfo \<Rightarrow> DNSHeader \<Rightarrow> DNSHeader" where
  "set_response rv info h = h\<lparr>h_qr := 1, h_ra := (if rv_recursiveServer rv \<noteq> 4294967295 then 1 else 0),
     h_ancount := htons (ri_answers info), h_nscount := htons (ri_authAnswers info),
     h_arcount := htons (ri_otherAnswers info), h_rcode := ucast (rcode_value (ri_rcode info))\<rparr>"

text \<open>\<open>_itoa_s(ex, error, 6, 10)\<close> for a thrown error code: its text with a sign.\<close>

definition int_text :: "int \<Rightarrow> byte list" where
  "int_text i = (if i < 0 then 0x2D # dec_digits (nat (- i)) else dec_digits (nat i))"

definition int_message :: "int \<Rightarrow> string run" where
  "int_message i = (if 6 < length (int_text i) + 1 then crash Invalid_Parameter
     else ret (map (\<lambda>b. char_of (unat b)) (int_text i)))"

definition resolve_phase :: "'w worker \<Rightarrow> worker_vars \<Rightarrow> ('w rstate, worker_vars) io" where
  "resolve_phase wk v =
     try_catch
       (seq get_state (\<lambda>s.
        seq (resolve (wk_resolver wk) (rs_queries s) (sizeof_DNSHeader + unat (wv_totalBytes v))
              (of_nat sizeof_DNSHeader + wv_totalBytes v)) (\<lambda>info.
        seq (if ri_truncationOccurred info then update_header (h_tc_update (\<lambda>_. 1)) else finish ()) (\<lambda>_.
        seq (if \<not> ri_recursionOccurred info then update_header (set_response (wk_resolver wk) info)
             else finish ()) (\<lambda>_.
          finish (v\<lparr>wv_responseInfo := info, wv_totalBytes := wv_totalBytes v +
            (case ri_length info of Some n \<Rightarrow> n | None \<Rightarrow> unset_size (rv_junk (wk_resolver wk)))\<rparr>))))))
       (\<lambda>e. seq (set_rcode RCODE_SERVER_FAILURE) (\<lambda>_.
         case e of
           Exception m \<Rightarrow> finish (v\<lparr>wv_error := True, wv_e := m\<rparr>)
         | Int_Thrown i \<Rightarrow> seq (pure_run (int_message i)) (\<lambda>m. finish (v\<lparr>wv_error := True, wv_e := m\<rparr>))
         | _ \<Rightarrow> finish (v\<lparr>wv_error := True, wv_e := ''Unknown''\<rparr>)))"

text \<open>Sending; an error of an earlier phase is thrown again for the log.\<close>

definition send_phase :: "'w worker \<Rightarrow> worker_vars \<Rightarrow> ('w rstate, worker_vars) io" where
  "send_phase wk v =
     seq get_packet (\<lambda>p.
     seq (pure_run (rdn p 0 (unat (min (of_nat sizeof_DNSHeader + wv_totalBytes v) (of_nat MAX_DNS_PACKET_LENGTH))))) (\<lambda>bytes.
     seq (world_io (call (wk_sendto wk bytes (wv_from v)))) (\<lambda>retval.
     if retval = SOCKET_ERROR then finish (v\<lparr>wv_error := True\<rparr>)
     else if wv_error v then fail (Exception (wv_e v))
     else finish v)))"

definition handle_request :: "'w worker \<Rightarrow> worker_vars \<Rightarrow> DNSRequest \<Rightarrow> ('w rstate, worker_vars) io" where
  "handle_request wk v request =
     seq (set_packet (req_packet request)) (\<lambda>_.
     seq (extract_phase wk (v\<lparr>wv_from := req_from request\<rparr>)) (\<lambda>v.
     seq (resolve_phase wk v) (\<lambda>v.
       try_catch (send_phase wk v) (\<lambda>e. finish (v\<lparr>wv_error := True\<rparr>)))))"

text \<open>The passes of the thread's loop over the requests it takes, up to the wait that ends it.\<close>

fun service_loop :: "'w worker \<Rightarrow> worker_vars \<Rightarrow> DNSRequest list \<Rightarrow> ('w rstate, worker_vars) io" where
  "service_loop wk v [] = prepare_phase wk v"
| "service_loop wk v (request # requests) =
     seq (prepare_phase wk v) (\<lambda>v.
     seq (handle_request wk v request) (\<lambda>v. service_loop wk v requests))"

section \<open>Evaluation\<close>

lemma update_header_simps [simp]:
  "update_header f s = Some (Inr (), s\<lparr>rs_packet := set_header (rs_packet s) (f (packet_header (rs_packet s)))\<rparr>)"
  "seq (update_header f) g s = g () (s\<lparr>rs_packet := set_header (rs_packet s) (f (packet_header (rs_packet s)))\<rparr>)"
  by (simp_all add: update_header_def seq_assoc) (simp add: set_packet_def)

lemma set_packet_simp [simp]: "set_packet p s = Some (Inr (), s\<lparr>rs_packet := p\<rparr>)"
  by (simp add: set_packet_def)

text \<open>A packet that starts with a header and one question.\<close>

lemma extractQueries_one:
  assumes "rs_packet s = header_bytes hd0 @ question_wire nm t c @ post" and "good_name nm"
    and "ntohs (h_qdcount hd0) = 1"
  shows "extractQueries rv s = Some (Inr (length nm + 6),
    s\<lparr>rs_queries := rs_queries s @ [parsed (rv_junk rv) (nm, t, c)], rs_pointers := (rs_pointers s)(nm \<mapsto> 12)\<rparr>)"
proof -
  have "extract_loop rv (length [(nm, t, c)]) (length (header_bytes hd0)) 0 s =
      Some (Inr (0 + length (questions_wire [(nm, t, c)])),
        s\<lparr>rs_queries := rs_queries s @ map (parsed (rv_junk rv)) [(nm, t, c)],
          rs_pointers := with_names (rs_pointers s) [(nm, t, c)]\<rparr>)"
    using assms by (intro extract_loop_questions [where post = post]) simp_all
  moreover have "with_names (rs_pointers s) [(nm, t, c)] = (rs_pointers s)(nm \<mapsto> 12)"
    by (auto simp: with_names_def)
  moreover have "packet_header (rs_packet s) = hd0"
    using assms(1) by (simp add: packet_header_def hdr.dec_enc)
  ultimately show ?thesis
    using assms(3) by (simp add: extractQueries_def sizeof_DNSHeader_def)
qed

lemma resolve_one_address:
  assumes "resolveA rv q off new_ResponseInfo packetLen s = Some (Inr (len, info), s2)" and "q_qtype q = type_value TYPE_A"
  shows "resolve rv [q] off packetLen s = Some (Inr (info\<lparr>ri_length := Some len\<rparr>), s2)"
  using assms by (simp add: resolve_def seq_def)

lemma parsed_fields:
  "q_qname (parsed junk (nm, t, c)) = nm @ 0 # dot # drop (length nm + 2) (fresh junk 256)"
  "t < 0x80 \<Longrightarrow> q_qtype (parsed junk (nm, t, c)) = t"
  by (simp_all add: parsed_def sext16_wire)

text \<open>The phases in the cases in which none of them raises an error.\<close>

lemma extract_phase_done:
  assumes "extractQueries (wk_resolver wk) s = Some (Inr n, s')"
  shows "extract_phase wk v s = Some (Inr (v\<lparr>wv_queryBytes := of_nat n, wv_totalBytes := of_nat n\<rparr>), s')"
  using assms by (simp add: extract_phase_def try_catch_def seq_def)

definition responded :: "'w resolver \<Rightarrow> ResponseInfo \<Rightarrow> byte list \<Rightarrow> byte list" where
  "responded rv info p =
     (let p = (if ri_truncationOccurred info then set_header p ((packet_header p)\<lparr>h_tc := 1\<rparr>) else p) in
      if ri_recursionOccurred info then p else set_header p (set_response rv info (packet_header p)))"

lemma resolve_phase_done:
  assumes "resolve (wk_resolver wk) (rs_queries s) (12 + unat (wv_totalBytes v)) (12 + wv_totalBytes v) s = Some (Inr info, s')"
    and "ri_length info = Some n"
  shows "resolve_phase wk v s = Some (Inr (v\<lparr>wv_responseInfo := info, wv_totalBytes := wv_totalBytes v + n\<rparr>),
    s'\<lparr>rs_packet := responded (wk_resolver wk) info (rs_packet s')\<rparr>)"
proof -
  have "seq (resolve (wk_resolver wk) (rs_queries s) (sizeof_DNSHeader + unat (wv_totalBytes v))
      (of_nat sizeof_DNSHeader + wv_totalBytes v)) f s = f info s'" for f :: "ResponseInfo \<Rightarrow> ('a rstate, worker_vars) io"
    using assms(1) by (simp add: seq_def sizeof_DNSHeader_def)
  then show ?thesis
    using assms(2) by (simp add: resolve_phase_def try_catch_def responded_def Let_def)
qed

lemma send_phase_done:
  assumes "unat (min (12 + wv_totalBytes v) 512) \<le> length (rs_packet s)"
    and "wk_sendto wk (take (unat (min (12 + wv_totalBytes v) 512)) (rs_packet s)) (wv_from v) (rs_world s) = (k, w')"
    and "k \<noteq> SOCKET_ERROR" and "\<not> wv_error v"
  shows "try_catch (send_phase wk v) h s = Some (Inr v, s\<lparr>rs_world := w'\<rparr>)"
  using assms by (simp add: send_phase_def try_catch_def rdn_def sizeof_DNSHeader_def MAX_DNS_PACKET_LENGTH_def)

lemma one_question_offsets:
  assumes "req_packet r = header_bytes h @ question_wire nm t c @ post" and "length (req_packet r) = 1024"
    and "n = length nm + 6" and "good_name nm"
  shows "take (12 + n) (req_packet r) = header_bytes h @ question_wire nm t c" and "unat (of_nat n :: 64 word) = n"
    and "n \<le> 259"
proof -
  show "take (12 + n) (req_packet r) = header_bytes h @ question_wire nm t c" using assms by simp
  show "n \<le> 259" using assms(3,4) by (simp add: good_name_def)
  then show "unat (of_nat n :: 64 word) = n" by (simp add: unat_of_nat)
qed

text \<open>The packet after a response of its own: the new header, the question and the answers.\<close>

lemma responded_prefix:
  assumes "length p = 1024" and "take k p = header_bytes h @ q" and "length q + 12 = k" and "k + length ans \<le> 1024"
    and "\<not> ri_recursionOccurred info" and "\<not> ri_truncationOccurred info"
  shows "take (k + length ans) (responded rv info (patch p k ans)) = header_bytes (set_response rv info h) @ q @ ans"
proof -
  have t: "take (k + length ans) (patch p k ans) = take k p @ ans" using assms(1,4) by (simp add: patch_def)
  have h: "packet_header (patch p k ans) = h"
  proof -
    have "take 12 (patch p k ans) = take 12 (take k p)" using assms(1,3,4) by (simp add: min_def)
    also have "\<dots> = header_bytes h" using assms(2) by simp
    finally show ?thesis by (simp add: packet_header_def hdr.dec_enc)
  qed
  have "take (k + length ans) (set_header (patch p k ans) h') = header_bytes h' @ drop 12 (take (k + length ans) (patch p k ans))" for h'
    using assms(1,3,4) by (simp add: set_header_def patch_def)
  then show ?thesis using t h assms(2,5,6) by (simp add: responded_def)
qed

lemma min_size: "unat (min (12 + of_nat m) 512 :: 64 word) = min (12 + m) 512" if "m < 2 ^ 32"
proof -
  have "unat (12 + of_nat m :: 64 word) = 12 + m" using that by (simp add: unat_word_ariths unat_of_nat)
  then show ?thesis by (simp add: min_def word_le_nat_alt)
qed

text \<open>A request with one address question, in terms of what \<open>resolveA\<close> does with it.\<close>

definition asked :: "'w resolver \<Rightarrow> byte list \<Rightarrow> 16 word \<Rightarrow> DNSRequest \<Rightarrow> 'w rstate \<Rightarrow> 'w rstate" where
  "asked rv nm c r s = s\<lparr>rs_packet := req_packet r, rs_queries := [parsed (rv_junk rv) (nm, type_value TYPE_A, c)],
     rs_pointers := [nm \<mapsto> 12]\<rparr>"

lemma handle_one_question:
  assumes "req_packet r = header_bytes h @ question_wire nm (type_value TYPE_A) c @ post" and "length (req_packet r) = 1024"
    and "good_name nm" and "ntohs (h_qdcount h) = 1" and "rs_queries s = []" and "rs_pointers s = Map.empty"
    and "rv = wk_resolver wk" and "n = length nm + 6"
    and "resolveA rv (parsed (rv_junk rv) (nm, type_value TYPE_A, c)) (12 + n) new_ResponseInfo (12 + of_nat n) (asked rv nm c r s) =
      Some (Inr (len, info), s4)"
    and "info' = info\<lparr>ri_length := Some len\<rparr>" and "p = responded rv info' (rs_packet s4)" and "length p = 1024"
    and "wk_sendto wk (take (unat (min (12 + (of_nat n + len)) 512)) p) (req_from r) (rs_world s4) = (k, w')"
    and "k \<noteq> SOCKET_ERROR" and "\<not> wv_error v"
  shows "handle_request wk v r s = Some (Inr (v\<lparr>wv_from := req_from r, wv_queryBytes := of_nat n, wv_responseInfo := info',
      wv_totalBytes := of_nat n + len\<rparr>), s4\<lparr>rs_world := w', rs_packet := p\<rparr>)"
proof -
  note o = one_question_offsets [OF assms(1,2,8,3)]
  let ?s1 = "s\<lparr>rs_packet := req_packet r\<rparr>" and ?s2 = "asked rv nm c r s" and ?v1 = "v\<lparr>wv_from := req_from r\<rparr>"
  let ?v2 = "?v1\<lparr>wv_queryBytes := of_nat n, wv_totalBytes := of_nat n\<rparr>"
  have e: "extract_phase wk ?v1 ?s1 = Some (Inr ?v2, ?s2)"
    using extractQueries_one [of ?s1 h nm "type_value TYPE_A" c post rv] assms(1,3-8)
    by (intro extract_phase_done) (simp add: asked_def)
  have res: "resolve rv [parsed (rv_junk rv) (nm, type_value TYPE_A, c)] (12 + n) (12 + of_nat n) ?s2 = Some (Inr info', s4)"
    unfolding assms(10) by (rule resolve_one_address [OF assms(9)]) (simp add: parsed_fields)
  let ?v3 = "?v2\<lparr>wv_responseInfo := info', wv_totalBytes := of_nat n + len\<rparr>"
  let ?s5 = "s4\<lparr>rs_packet := p\<rparr>"
  have rp: "resolve_phase wk ?v2 ?s2 = Some (Inr ?v3, ?s5)"
    using res o(2) assms(7,10,11) resolve_phase_done [of wk ?s2 ?v2 info' s4 len] by (simp add: asked_def)
  have "try_catch (send_phase wk ?v3) (\<lambda>e. finish (?v3\<lparr>wv_error := True\<rparr>)) ?s5 = Some (Inr ?v3, ?s5\<lparr>rs_world := w'\<rparr>)"
    using assms(12-15) by (intro send_phase_done) (simp_all add: min_def word_le_nat_alt)
  then show ?thesis using e rp by (simp add: handle_request_def seq_def)
qed

section \<open>Properties\<close>

text \<open>
  C1. A request with one address question that is answered from the cache, since there is an address among
  the cached rows or recursion is not desired, with an answer section of less than 500 bytes: the datagram
  sent back to the sender is the header of the request with the response flag, the number of answers and the
  code for no error, then the question as it was asked, then the answer section of the cached rows, cut at
  512 bytes. The worker is left without an error and will not cache anything.
\<close>

theorem served_from_cache:
  assumes "req_packet r = header_bytes h @ question_wire nm (type_value TYPE_A) c @ post" and "length (req_packet r) = 1024"
    and "good_name nm" and "ntohs (h_qdcount h) = 1" and "rs_queries s = []" and "rs_pointers s = Map.empty"
    and "rv = wk_resolver wk" and "answers_query (rv_odbc rv) (conn_hdbc (rv_connection rv)) nm rows hst (rs_world s) w6"
    and "\<forall>r\<in>set rows. row_ok r" and "ans = answer_section [nm \<mapsto> 12] (length nm + 18) rows" and "length ans < 500"
    and "0 < address_rows rows \<or> h_rd h = 0" and "\<not> wv_error v"
    and "sent = take 512 (header_bytes (set_response rv (new_ResponseInfo\<lparr>ri_answers := of_nat (length rows)\<rparr>) h) @
      question_wire nm (type_value TYPE_A) c @ ans)"
    and "wk_sendto wk sent (req_from r) (snd (SQLFreeHandle (rv_odbc rv) SQL_HANDLE_STMT hst w6)) = (k, w')" and "k \<noteq> SOCKET_ERROR"
  shows "\<exists>v' s'. handle_request wk v r s = Some (Inr v', s') \<and> rs_world s' = w' \<and>
    \<not> wv_error v' \<and> \<not> ri_recursionOccurred (wv_responseInfo v')"
proof -
  define n where "n = length nm + 6"
  define info where "info = new_ResponseInfo\<lparr>ri_answers := of_nat (length rows)\<rparr>"
  let ?off = "12 + n" and ?q = "parsed (rv_junk rv) (nm, type_value TYPE_A, c)" and ?s2 = "asked rv nm c r s"
  note o = one_question_offsets [OF assms(1,2) n_def assms(3)]
  have nm: "0 \<notin> set nm" "length nm < 255" using assms(3) by (simp_all add: good_name_def)
  have ans: "ans = answer_section [nm \<mapsto> 12] ?off rows" using assms(10) by (simp add: n_def add.commute)
  have a: "answers_query (rv_odbc rv) (conn_hdbc (rv_connection rv)) nm rows hst (rs_world ?s2) w6" using assms(8) by (simp add: asked_def)
  let ?s3 = "resolved ?s2 ?off rows w6"
  let ?s4 = "?s3\<lparr>rs_world := snd (SQLFreeHandle (rv_odbc rv) SQL_HANDLE_STMT hst (rs_world ?s3))\<rparr>"
  have hd: "packet_header (req_packet r) = h" using assms(1) by (simp add: packet_header_def hdr.dec_enc)
  have r: "resolveA rv ?q ?off new_ResponseInfo (12 + of_nat n) ?s2 = Some (Inr (of_nat (length ans), info), ?s4)"
  proof (rule resolveA_rows [OF a parsed_fields(1) nm assms(9) _ assms(11) _ _ _ refl])
    show "length ans = length (answer_section (rs_pointers ?s2) ?off rows)" by (simp add: ans asked_def)
    show "?off + length ans \<le> length (rs_packet ?s2)" using assms(2,11) o(3) by (simp add: asked_def)
    show "if 0 < address_rows rows \<or> h_rd (packet_header (rs_packet ?s2)) = 0
      then (of_nat (length ans), info) = (of_nat (length ans), info) \<and> ?s3 = ?s3
      else recursiveResolve rv (12 + of_nat n) ?s3 = Some (Inr undefined, ?s3) \<and> (of_nat (length ans), info) = (undefined, info\<lparr>ri_recursionOccurred := True\<rparr>)"
      using assms(12) hd by (simp add: asked_def)
  qed (simp_all add: info_def new_ResponseInfo_def)
  let ?info = "info\<lparr>ri_length := Some (of_nat (length ans))\<rparr>"
  have p4: "rs_packet ?s4 = patch (req_packet r) ?off ans" by (simp add: resolved_def asked_def ans)
  let ?p = "responded rv ?info (rs_packet ?s4)"
  have p: "take (?off + length ans) ?p = header_bytes (set_response rv info h) @ question_wire nm (type_value TYPE_A) c @ ans"
    using responded_prefix [of "req_packet r" ?off h "question_wire nm (type_value TYPE_A) c" ans ?info rv] assms(2,11) o
    unfolding p4 by (simp add: info_def new_ResponseInfo_def n_def set_response_def)
  have len: "length ?p = 1024"
    using assms(2,11) o(3) unfolding p4 by (simp add: responded_def info_def new_ResponseInfo_def Let_def)
  have tot: "unat (min (12 + (of_nat n + of_nat (length ans))) 512 :: 64 word) = min (?off + length ans) 512"
    using min_size [of "n + length ans"] assms(11) o(3) by (simp add: add.assoc)
  have "take (min (?off + length ans) 512) ?p = sent"
    unfolding assms(14) info_def [symmetric] p [symmetric] take_take by (simp only: min.commute)
  then have "wk_sendto wk (take (unat (min (12 + (of_nat n + of_nat (length ans))) 512 :: 64 word)) ?p) (req_from r) (rs_world ?s4) = (k, w')"
    using assms(15) unfolding tot by (simp add: resolved_def)
  from handle_one_question [OF assms(1-7) n_def r refl refl len this assms(16,13)]
  show ?thesis using assms(13) by (simp add: info_def new_ResponseInfo_def)
qed

text \<open>A worker whose database gives a list of rows and whose recursive server a fixed reply.\<close>

definition example_worker :: "byte list \<Rightarrow> (answer_row list \<times> answer_row) worker" where
  "example_worker reply = \<lparr>wk_resolver = list_resolver reply, wk_sendto = \<lambda>b a w. (int (length b), w)\<rparr>"

definition example_header :: DNSHeader where
  "example_header = (header_of_bytes (replicate 12 0))\<lparr>h_qdcount := htons 1, h_rd := 1\<rparr>"

definition example_request :: DNSRequest where
  "example_request = \<lparr>req_packet = header_bytes example_header @ question_wire [97] 1 1 @ replicate 1005 0, req_from = []\<rparr>"

definition example_state :: "answer_row list \<Rightarrow> (answer_row list \<times> answer_row) rstate" where
  "example_state rows = \<lparr>rs_world = (rows, example_row), rs_packet = [], rs_pointers = Map.empty, rs_queries = []\<rparr>"

lemma example_facts:
  "req_packet example_request = header_bytes example_header @ question_wire [97] (type_value TYPE_A) 1 @ replicate 1005 0"
  "length (req_packet example_request) = 1024" "ntohs (h_qdcount example_header) = 1"
  "rs_queries (example_state rows) = []" "rs_pointers (example_state rows) = Map.empty"
  "list_resolver reply = wk_resolver (example_worker reply)" "\<not> wv_error (start_vars junk)" "h_rd example_header \<noteq> 0"
  "wk_sendto (example_worker reply) b a w = (int (length b), w)" "int (length (b :: byte list)) \<noteq> SOCKET_ERROR"
  by (simp_all add: example_request_def example_header_def example_state_def example_worker_def start_vars_def
    SOCKET_ERROR_def)

lemma example_answers:
  "answers_query (rv_odbc (list_resolver reply)) (conn_hdbc (rv_connection (list_resolver reply))) [97] rows 7
     (rs_world (example_state rows)) ([], last (example_row # rows))"
  using list_driver_answers [of 1 "[97]" rows example_row] by (simp add: list_resolver_def example_state_def)

theorem served_from_cache_witness:
  "\<exists>v' s'. handle_request (example_worker []) (start_vars (\<lambda>_. 0)) example_request (example_state [example_row]) =
      Some (Inr v', s') \<and> rs_world s' = ([], example_row) \<and> \<not> wv_error v' \<and> \<not> ri_recursionOccurred (wv_responseInfo v')"
proof (rule served_from_cache [OF example_facts(1,2) good_name_a example_facts(3-6) example_answers _ refl _ _ example_facts(7) refl])
  have "length (row_wire [[97] \<mapsto> 12] example_row) = 16"
    using row_addr_quad [of "[10, 0, 0, 1]" example_row]
    by (simp add: row_wire_def row_payload_def name_wire_def cstr_def example_row_def)
  then show "length (answer_section [[97] \<mapsto> 12] (length [97 :: byte] + 18) [example_row]) < 500" by simp
  show "0 < address_rows [example_row] \<or> h_rd example_header = 0" by (simp add: address_rows_def example_row_def)
  show "wk_sendto (example_worker []) sent (req_from example_request)
      (snd (SQLFreeHandle (rv_odbc (list_resolver [])) SQL_HANDLE_STMT 7 ([], last (example_row # [example_row])))) =
      (int (length sent), ([], example_row))" for sent
    by (simp add: example_worker_def list_resolver_def list_driver_def silent_def)
qed (simp add: example_row_ok, rule example_facts(10))

lemma recursion_length: "12 + (of_nat n + (of_nat m - (12 + of_nat n))) = (of_nat m :: 64 word)"
  by simp

text \<open>
  C2. A request with one address question that the cache has no address for, with recursion desired, and a
  recursive server that is configured and replies with the identifier of the request: what is forwarded to
  it is the header and the question of the request as received, without anything behind the question,
  even where the counts in the header announce more; the datagram sent back is exactly the reply, and
  the worker is left ready to cache it, from the end of the question on. The rows that were found, aliases
  only, make less than 500 bytes.
\<close>

theorem served_by_recursion:
  assumes "req_packet r = header_bytes h @ question_wire nm (type_value TYPE_A) c @ post" and "length (req_packet r) = 1024"
    and "good_name nm" and "ntohs (h_qdcount h) = 1" and "rs_queries s = []" and "rs_pointers s = Map.empty"
    and "rv = wk_resolver wk" and "answers_query (rv_odbc rv) (conn_hdbc (rv_connection rv)) nm rows hst (rs_world s) w6"
    and "\<forall>r\<in>set rows. row_ok r" and "length (answer_section [nm \<mapsto> 12] (length nm + 18) rows) < 500"
    and "address_rows rows = 0" and "h_rd h \<noteq> 0" and "rv_recursiveServer rv \<noteq> 4294967295"
    and "exchanges (rv_net rv) (header_bytes h @ question_wire nm (type_value TYPE_A) c) reply w6 w7"
    and "12 \<le> length reply" and "h_id (header_of_bytes (take 12 reply)) = h_id h" and "\<not> wv_error v"
    and "wk_sendto wk reply (req_from r) (snd (SQLFreeHandle (rv_odbc rv) SQL_HANDLE_STMT hst w7)) = (k, w')" and "k \<noteq> SOCKET_ERROR"
  shows "\<exists>v' s'. handle_request wk v r s = Some (Inr v', s') \<and> rs_world s' = w' \<and> \<not> wv_error v' \<and>
    ri_recursionOccurred (wv_responseInfo v') \<and> wv_queryBytes v' = of_nat (length nm + 6) \<and>
    take (length reply) (rs_packet s') = reply"
proof -
  define n where "n = length nm + 6"
  let ?off = "12 + n" and ?q = "parsed (rv_junk rv) (nm, type_value TYPE_A, c)" and ?s2 = "asked rv nm c r s"
  note o = one_question_offsets [OF assms(1,2) n_def assms(3)]
  have nm: "0 \<notin> set nm" "length nm < 255" using assms(3) by (simp_all add: good_name_def)
  let ?ans = "answer_section (rs_pointers ?s2) ?off rows"
  have ans: "length ?ans < 500" using assms(10) by (simp add: n_def add.commute asked_def)
  have a: "answers_query (rv_odbc rv) (conn_hdbc (rv_connection rv)) nm rows hst (rs_world ?s2) w6" using assms(8) by (simp add: asked_def)
  let ?s3 = "resolved ?s2 ?off rows w6"
  have hd: "packet_header (rs_packet ?s2) = h" using assms(1) by (simp add: packet_header_def hdr.dec_enc asked_def)
  have p3: "rs_packet ?s3 = patch (req_packet r) ?off ?ans" "rs_world ?s3 = w6" by (simp_all add: resolved_def asked_def)
  have l3: "length (rs_packet ?s3) = 1024" using ans assms(2) o(3) unfolding p3 by simp
  have t3: "take ?off (rs_packet ?s3) = header_bytes h @ question_wire nm (type_value TYPE_A) c"
    using assms(2) o unfolding p3 by simp
  then have h3: "packet_header (rs_packet ?s3) = h"
    unfolding packet_header_def drop_0 by (metis hdr.dec_enc append_eq_conv_conj length_header_bytes take_take min.absorb1 le_add1)
  have u: "unat (12 + of_nat n :: 64 word) = ?off" using o(3) by (simp add: unat_word_ariths unat_of_nat)
  let ?s4 = "?s3\<lparr>rs_world := w7, rs_packet := patch (rs_packet ?s3) 0 reply\<rparr>"
  have rl: "length reply \<le> 512" using assms(14) by (auto simp: exchanges_def MAX_DNS_PACKET_LENGTH_def)
  have rec: "recursiveResolve rv (12 + of_nat n) ?s3 = Some (Inr (of_nat (length reply) - (12 + of_nat n)), ?s4)"
    using recursiveResolve_exchange [OF assms(13), of "12 + of_nat n" ?s3 reply w7] assms(14-16) u l3 o(3) t3 h3 p3(2) by simp
  define info where "info = (new_ResponseInfo\<lparr>ri_answers := of_nat (length rows)\<rparr>)\<lparr>ri_recursionOccurred := True\<rparr>"
  let ?len = "of_nat (length reply) - (12 + of_nat n) :: 64 word"
  let ?s5 = "?s4\<lparr>rs_world := snd (SQLFreeHandle (rv_odbc rv) SQL_HANDLE_STMT hst (rs_world ?s4))\<rparr>"
  have r: "resolveA rv ?q ?off new_ResponseInfo (12 + of_nat n) ?s2 = Some (Inr (?len, info), ?s5)"
  proof (rule resolveA_rows [OF a parsed_fields(1) nm assms(9) refl ans _ _ refl refl])
    show "?off + length ?ans \<le> length (rs_packet ?s2)" using assms(2) ans o(3) by (simp add: asked_def)
    show "if 0 < address_rows rows \<or> h_rd (packet_header (rs_packet ?s2)) = 0
      then (?len, info) = (of_nat (length ?ans), new_ResponseInfo\<lparr>ri_answers := ri_answers new_ResponseInfo + of_nat (length rows)\<rparr>) \<and> ?s4 = ?s3
      else recursiveResolve rv (12 + of_nat n) ?s3 = Some (Inr ?len, ?s4) \<and>
        (?len, info) = (?len, new_ResponseInfo\<lparr>ri_answers := ri_answers new_ResponseInfo + of_nat (length rows)\<rparr>\<lparr>ri_recursionOccurred := True\<rparr>)"
      using assms(11,12) hd rec by (simp add: info_def new_ResponseInfo_def)
  qed simp
  let ?info = "info\<lparr>ri_length := Some ?len\<rparr>"
  have p: "responded rv ?info (rs_packet ?s5) = patch (rs_packet ?s3) 0 reply"
    by (simp add: responded_def info_def new_ResponseInfo_def)
  have len: "length (responded rv ?info (rs_packet ?s5)) = 1024" using rl l3 unfolding p by simp
  have m: "unat (min (of_nat (length reply)) 512 :: 64 word) = length reply"
    using rl by (simp add: min_def word_le_nat_alt unat_of_nat)
  have tk: "take (length reply) (patch (rs_packet ?s3) 0 reply) = reply" by (simp add: patch_def)
  have "wk_sendto wk (take (unat (min (12 + (of_nat n + ?len)) 512)) (responded rv ?info (rs_packet ?s5))) (req_from r) (rs_world ?s5) = (k, w')"
    unfolding recursion_length m p tk using assms(18) by simp
  from handle_one_question [OF assms(1-7) n_def r refl refl len this assms(19,17)]
  show ?thesis using assms(17) p tk by (simp add: info_def new_ResponseInfo_def n_def)
qed

theorem served_by_recursion_witness:
  "\<exists>v' s'. handle_request (example_worker (replicate 12 0 @ [1, 2, 3])) (start_vars (\<lambda>_. 0)) example_request (example_state []) =
      Some (Inr v', s') \<and> rs_world s' = ([], example_row) \<and> \<not> wv_error v' \<and> ri_recursionOccurred (wv_responseInfo v') \<and>
    wv_queryBytes v' = of_nat (length [97 :: byte] + 6) \<and>
    take (length (replicate 12 (0 :: byte) @ [1, 2, 3])) (rs_packet s') = replicate 12 0 @ [1, 2, 3]"
proof (rule served_by_recursion [OF example_facts(1,2) good_name_a example_facts(3-6) example_answers _ _ _ example_facts(8) _ _ _ _
    example_facts(7)])
  show "h_id (header_of_bytes (take 12 (replicate 12 0 @ [1, 2, 3]))) = h_id example_header"
    by (simp add: example_header_def)
  show "exchanges (rv_net (list_resolver (replicate 12 0 @ [1, 2, 3]))) (header_bytes example_header @ question_wire [97] (type_value TYPE_A) 1)
      (replicate 12 0 @ [1, 2, 3]) ([], last (example_row # [])) ([], example_row)"
    by (simp add: list_resolver_def reply_net_exchanges)
  show "wk_sendto (example_worker (replicate 12 0 @ [1, 2, 3])) (replicate 12 0 @ [1, 2, 3]) (req_from example_request)
      (snd (SQLFreeHandle (rv_odbc (list_resolver (replicate 12 0 @ [1, 2, 3]))) SQL_HANDLE_STMT 7 ([], example_row))) = (15, ([], example_row))"
    by (simp add: example_worker_def list_resolver_def list_driver_def silent_def)
qed (simp_all add: address_rows_def list_resolver_def SOCKET_ERROR_def)

text \<open>
  Without a recursive server, a request with one address question that the cache has nothing for
  and with recursion desired is sent back as it is, not marked as a response, followed by as many bytes of
  the packet's uninitialised memory as the request is long, up to 512 bytes in all: the length of the
  request is added to itself.
\<close>

theorem echoed_without_server:
  assumes "req_packet r = header_bytes h @ question_wire nm (type_value TYPE_A) c @ post" and "length (req_packet r) = 1024"
    and "good_name nm" and "ntohs (h_qdcount h) = 1" and "rs_queries s = []" and "rs_pointers s = Map.empty"
    and "rv = wk_resolver wk" and "answers_query (rv_odbc rv) (conn_hdbc (rv_connection rv)) nm [] hst (rs_world s) w6"
    and "h_rd h \<noteq> 0" and "rv_recursiveServer rv = 4294967295" and "\<not> wv_error v"
    and "wk_sendto wk (take (min (2 * (length nm + 18)) 512) (req_packet r)) (req_from r)
      (snd (SQLFreeHandle (rv_odbc rv) SQL_HANDLE_STMT hst w6)) = (k, w')" and "k \<noteq> SOCKET_ERROR"
  shows "\<exists>v' s'. handle_request wk v r s = Some (Inr v', s') \<and> rs_world s' = w' \<and> rs_packet s' = req_packet r"
proof -
  define n where "n = length nm + 6"
  let ?off = "12 + n" and ?q = "parsed (rv_junk rv) (nm, type_value TYPE_A, c)" and ?s2 = "asked rv nm c r s"
  note o = one_question_offsets [OF assms(1,2) n_def assms(3)]
  have nm: "0 \<notin> set nm" "length nm < 255" using assms(3) by (simp_all add: good_name_def)
  have a: "answers_query (rv_odbc rv) (conn_hdbc (rv_connection rv)) nm [] hst (rs_world ?s2) w6" using assms(8) by (simp add: asked_def)
  let ?s3 = "resolved ?s2 ?off [] w6" and ?len = "12 + of_nat n :: 64 word"
  have hd: "packet_header (rs_packet ?s2) = h" using assms(1) by (simp add: packet_header_def hdr.dec_enc asked_def)
  have p3: "rs_packet ?s3 = req_packet r" "rs_world ?s3 = w6" by (simp_all add: resolved_def asked_def patch_def)
  define info where "info = new_ResponseInfo\<lparr>ri_recursionOccurred := True\<rparr>"
  let ?s5 = "?s3\<lparr>rs_world := snd (SQLFreeHandle (rv_odbc rv) SQL_HANDLE_STMT hst (rs_world ?s3))\<rparr>"
  have r: "resolveA rv ?q ?off new_ResponseInfo (12 + of_nat n) ?s2 = Some (Inr (?len, info), ?s5)"
  proof (rule resolveA_rows [OF a parsed_fields(1) nm _ refl _ _ _ refl refl])
    show "?off + length (answer_section (rs_pointers ?s2) ?off []) \<le> length (rs_packet ?s2)"
      using assms(2) o(3) by (simp add: asked_def)
    show "if 0 < address_rows [] \<or> h_rd (packet_header (rs_packet ?s2)) = 0
      then (?len, info) = (of_nat (length (answer_section (rs_pointers ?s2) ?off [])),
          new_ResponseInfo\<lparr>ri_answers := ri_answers new_ResponseInfo + of_nat (length ([] :: answer_row list))\<rparr>) \<and> ?s3 = ?s3
      else recursiveResolve rv (12 + of_nat n) ?s3 = Some (Inr ?len, ?s3) \<and>
        (?len, info) = (?len, new_ResponseInfo\<lparr>ri_answers := ri_answers new_ResponseInfo + of_nat (length ([] :: answer_row list))\<rparr>
          \<lparr>ri_recursionOccurred := True\<rparr>)"
      using assms(9,10) hd by (simp add: info_def new_ResponseInfo_def recursiveResolve_def address_rows_def)
  qed simp_all
  let ?info = "info\<lparr>ri_length := Some ?len\<rparr>"
  have p: "responded rv ?info (rs_packet ?s5) = req_packet r"
    using p3(1) by (simp add: responded_def info_def new_ResponseInfo_def)
  have m: "unat (min (12 + (of_nat n + ?len)) 512) = min (2 * (length nm + 18)) 512"
    using min_size [of "n + (12 + n)"] o(3) by (simp add: n_def)
  have "wk_sendto wk (take (unat (min (12 + (of_nat n + ?len)) 512)) (responded rv ?info (rs_packet ?s5))) (req_from r) (rs_world ?s5) = (k, w')"
    unfolding m p using assms(12) p3(2) by simp
  from handle_one_question [OF assms(1-7) n_def r refl refl _ this assms(13,11)]
  show ?thesis using p assms(2) by simp
qed

theorem echoed_without_server_witness:
  "\<exists>v' s'. handle_request ((example_worker [])\<lparr>wk_resolver := (list_resolver [])\<lparr>rv_recursiveServer := 4294967295\<rparr>\<rparr>) (start_vars (\<lambda>_. 0))
      example_request (example_state []) = Some (Inr v', s') \<and> rs_world s' = ([], example_row) \<and> rs_packet s' = req_packet example_request"
proof (rule echoed_without_server [OF example_facts(1,2) good_name_a example_facts(3-5) _ _ example_facts(8) _ example_facts(7)])
  show "answers_query (rv_odbc ((list_resolver [])\<lparr>rv_recursiveServer := 4294967295\<rparr>)) (conn_hdbc (rv_connection ((list_resolver [])\<lparr>rv_recursiveServer := 4294967295\<rparr>)))
      [97] [] 7 (rs_world (example_state [])) ([], example_row)"
    using example_answers [of "[]" "[]"] by simp
  show "wk_sendto ((example_worker [])\<lparr>wk_resolver := (list_resolver [])\<lparr>rv_recursiveServer := 4294967295\<rparr>\<rparr>)
      (take (min (2 * (length [97 :: byte] + 18)) 512) (req_packet example_request)) (req_from example_request)
      (snd (SQLFreeHandle (rv_odbc ((list_resolver [])\<lparr>rv_recursiveServer := 4294967295\<rparr>)) SQL_HANDLE_STMT 7 ([], example_row))) =
      (38, ([], example_row))"
    by (simp add: example_worker_def list_resolver_def list_driver_def silent_def example_facts(2))
qed (simp_all add: example_worker_def list_resolver_def list_driver_def silent_def SOCKET_ERROR_def example_facts(2))

text \<open>
  C32. A packet whose first question cannot be read is answered with the code for no error: the code for a
  format error that the first handler stores is overwritten with the code of an empty resolution. The
  length of what is sent is computed from the length kept of an earlier request and an uninitialised
  variable.
\<close>

theorem format_error_overwritten:
  assumes "rv = wk_resolver wk" and "extractQueries rv (s\<lparr>rs_packet := req_packet r\<rparr>) = Some (Inl e, s2)" and "catchable e"
    and "rs_queries s2 = []" and "length (rs_packet s2) = 1024"
    and "\<And>bytes w. fst (wk_sendto wk bytes (req_from r) w) \<noteq> SOCKET_ERROR"
    and "m = unat (min (12 + (wv_totalBytes v + unset_size (rv_junk rv))) 512)"
  shows "\<exists>v' s'. handle_request wk v r s = Some (Inr v', s') \<and> wv_error v' \<and>
    h_rcode (packet_header (rs_packet s')) = ucast (rcode_value RCODE_NO_ERROR) \<and>
    h_qr (packet_header (rs_packet s')) = 1 \<and> h_ancount (packet_header (rs_packet s')) = 0 \<and>
    rs_world s' = snd (wk_sendto wk (take m (rs_packet s')) (req_from r) (rs_world s2))"
proof -
  let ?v1 = "v\<lparr>wv_from := req_from r\<rparr>"
  let ?v2 = "?v1\<lparr>wv_error := True, wv_e := (case e of Exception m \<Rightarrow> m | _ \<Rightarrow> ''Unknown'')\<rparr>"
  let ?p2 = "set_header (rs_packet s2) ((packet_header (rs_packet s2))\<lparr>h_rcode := ucast (rcode_value RCODE_FORMAT_ERROR)\<rparr>)"
  let ?s3 = "s2\<lparr>rs_packet := ?p2\<rparr>"
  have e: "extract_phase wk ?v1 (s\<lparr>rs_packet := req_packet r\<rparr>) = Some (Inr ?v2, ?s3)"
    using assms(1-3) by (simp add: extract_phase_def try_catch_def seq_def [of "extractQueries (wk_resolver wk)"] set_rcode_def)
  let ?h = "set_response rv new_ResponseInfo (packet_header ?p2)"
  let ?s4 = "?s3\<lparr>rs_packet := set_header ?p2 ?h\<rparr>"
  let ?v3 = "?v2\<lparr>wv_responseInfo := new_ResponseInfo, wv_totalBytes := wv_totalBytes v + unset_size (rv_junk rv)\<rparr>"
  have r: "resolve_phase wk ?v2 ?s3 = Some (Inr ?v3, ?s4)"
    using assms(1,4) by (simp add: resolve_phase_def try_catch_def resolve_def new_ResponseInfo_def)
  have m: "m \<le> length (rs_packet ?s4)" using assms(5,7) by (simp add: min_def word_le_nat_alt)
  let ?w = "snd (wk_sendto wk (take m (rs_packet ?s4)) (req_from r) (rs_world s2))"
  have "send_phase wk ?v3 ?s4 = Some (Inl (Exception (wv_e ?v3)), ?s4\<lparr>rs_world := ?w\<rparr>)"
    using m assms(6,7) by (simp add: send_phase_def rdn_def sizeof_DNSHeader_def MAX_DNS_PACKET_LENGTH_def)
  then have "try_catch (send_phase wk ?v3) (\<lambda>e. finish (?v3\<lparr>wv_error := True\<rparr>)) ?s4 =
      Some (Inr (?v3\<lparr>wv_error := True\<rparr>), ?s4\<lparr>rs_world := ?w\<rparr>)" by (simp add: try_catch_def)
  then have "handle_request wk v r s = Some (Inr (?v3\<lparr>wv_error := True\<rparr>), ?s4\<lparr>rs_world := ?w\<rparr>)"
    using e r by (simp add: handle_request_def seq_def)
  then show ?thesis using assms(5) by (simp add: set_response_def new_ResponseInfo_def htons_def)
qed

theorem format_error_overwritten_witness:
  "\<exists>v' s'. handle_request (example_worker []) (start_vars (\<lambda>_. 0))
        \<lparr>req_packet = header_bytes example_header @ 64 # replicate 1011 0, req_from = []\<rparr> (example_state []) = Some (Inr v', s') \<and> wv_error v' \<and>
    h_rcode (packet_header (rs_packet s')) = ucast (rcode_value RCODE_NO_ERROR) \<and>
    h_qr (packet_header (rs_packet s')) = 1 \<and> h_ancount (packet_header (rs_packet s')) = 0 \<and>
    rs_world s' = snd (wk_sendto (example_worker []) (take 12 (rs_packet s')) [] ([], example_row))"
proof -
  let ?p = "header_bytes example_header @ 64 # replicate 1011 0"
  let ?s = "example_state []\<lparr>rs_packet := ?p\<rparr>"
  have p: "drop 12 ?p = 64 # replicate 1011 0" "?p ! 12 = 64" "length ?p = 1024" by (simp_all add: nth_append)
  have "strlen_list (64 # replicate 1011 0) = Some 1" using replicate_Suc [of 1010 "0 :: byte"] by simp
  then have "strlen ?p 12 = ret 1" using p(1) by (simp add: strlen_def)
  then have "decodeName ?p 12 [] (fresh (\<lambda>_. 0) 256) 256 = raise (Exception ''Label length longer than maximum of 63'')"
    using p(2,3) unfolding decodeName_def
    by (subst decode_loop.simps) (simp add: is_pointer_def decode_label_def sext32_def raise_def)
  then have "DNSQuery_ctor (rv_junk (list_resolver [])) ?p 12 (rv_stack (list_resolver [])) =
      raise (Exception ''Label length longer than maximum of 63'')"
    using p(2,3) by (simp add: DNSQuery_ctor_def rd_def is_pointer_def sext32_def list_resolver_def MAX_DNS_NAME_LENGTH_def)
  moreover have "packet_header ?p = example_header" by (simp add: packet_header_def hdr.dec_enc)
  ultimately have x: "extractQueries (wk_resolver (example_worker [])) ?s = Some (Inl (Exception ''Label length longer than maximum of 63''), ?s)"
    using example_facts(3) by (simp add: extractQueries_def sizeof_DNSHeader_def example_worker_def)
  let ?r = "\<lparr>req_packet = ?p, req_from = []\<rparr>"
  have w: "rs_world ?s = ([], example_row)" by (simp add: example_state_def)
  show ?thesis
    unfolding w [symmetric]
  proof (rule format_error_overwritten [OF refl, where wk = "example_worker []" and r = ?r and e = "Exception ''Label length longer than maximum of 63''" and m = 12,
      unfolded DNSRequest.simps])
    show "extractQueries (wk_resolver (example_worker [])) ?s = Some (Inl (Exception ''Label length longer than maximum of 63''), ?s)"
      by (rule x)
    show "rs_queries ?s = []" by (simp add: example_state_def)
    show "fst (wk_sendto (example_worker []) b [] w) \<noteq> SOCKET_ERROR" for b w by (simp add: example_worker_def SOCKET_ERROR_def)
    show "12 = unat (min (12 + (wv_totalBytes (start_vars (\<lambda>_. 0)) + unset_size (rv_junk (wk_resolver (example_worker []))))) 512)"
      by (simp add: start_vars_def unset_size_def of_le32_def example_worker_def list_resolver_def)
  qed simp_all
qed

end
