(* ===== verification/Server.thy ===== *)
theory Server
  imports Worker
begin

text \<open>
  The rest of \<open>src/ODBCDNS/DNSServer.cpp\<close>: construction and destruction of the server, the receiving
  loop of the main thread, shutdown, and the interleaving of the main thread with the worker threads
  over the request queue, its semaphore and the quit event.
\<close>

section \<open>Construction\<close>

definition ERR_SOCKET_CREATE :: int where "ERR_SOCKET_CREATE = 2"
definition ERR_BIND :: int where "ERR_BIND = 5"
definition ERR_SOCKET_CLOSE :: int where "ERR_SOCKET_CLOSE = 9"
definition INVALID_SOCKET :: int where "INVALID_SOCKET = - 1"
definition MAXIMUM_WAIT_OBJECTS :: nat where "MAXIMUM_WAIT_OBJECTS = 64"

text \<open>The operating system functions the server calls, as functions of the world.\<close>

record 'w winapi =
  inet_pton :: "byte list \<Rightarrow> 32 word option"
  CreateThread :: "'w \<Rightarrow> nat \<times> 'w"
  ws_socket :: "'w \<Rightarrow> int \<times> 'w"
  ws_bind :: "int \<Rightarrow> 16 word \<Rightarrow> 'w \<Rightarrow> int \<times> 'w"
  WSAEventSelect :: "int \<Rightarrow> 'w \<Rightarrow> int \<times> 'w"
  WaitForThreads :: "nat list \<Rightarrow> 'w \<Rightarrow> int \<times> 'w"
  ws_recvfrom :: "int \<Rightarrow> 'w \<Rightarrow> (int \<times> byte list \<times> byte list) \<times> 'w"
  ws_closesocket :: "int \<Rightarrow> 'w \<Rightarrow> int \<times> 'w"

record DNSServer =
  sv_numThreads :: nat
  sv_threads :: "nat list"
  sv_sock :: int
  sv_environment :: SQLEnvironment
  sv_port :: "16 word"
  sv_recursiveServer :: "32 word"
  sv_connectionString :: string

fun create_threads :: "'w winapi \<Rightarrow> nat \<Rightarrow> ('w, nat list) io" where
  "create_threads os 0 = finish []"
| "create_threads os (Suc n) =
     seq (call (CreateThread os)) (\<lambda>t. seq (create_threads os n) (\<lambda>ts. finish (t # ts)))"

text \<open>
  The constructor: first the member \<open>environment\<close>, then the body. \<open>htons(port)\<close> keeps sixteen bits of the
  port; an address \<open>inet_pton\<close> does not accept leaves the field as it was; an array of a negative number
  of handles cannot be allocated. The failure of the last call is only logged.
\<close>

definition DNSServer_body :: "'w winapi \<Rightarrow> (nat \<Rightarrow> byte) \<Rightarrow> SQLEnvironment \<Rightarrow> int \<Rightarrow> int \<Rightarrow> byte list \<Rightarrow> string \<Rightarrow> ('w, DNSServer) io" where
  "DNSServer_body os junk environment port numThreads recursiveServer connectionString =
     (let server = (case inet_pton os recursiveServer of Some a \<Rightarrow> a
            | None \<Rightarrow> of_le32 (junk 0) (junk 1) (junk 2) (junk 3)) in
      if numThreads < 0 then fail (Exception ''bad allocation'') else
      seq (create_threads os (nat numThreads)) (\<lambda>threads.
      seq (call (ws_socket os)) (\<lambda>sock.
      if sock = INVALID_SOCKET then fail (Int_Thrown ERR_SOCKET_CREATE) else
      seq (call (ws_bind os sock (htons (word_of_int port)))) (\<lambda>retval.
      if retval = SOCKET_ERROR then fail (Int_Thrown ERR_BIND) else
      seq (call (WSAEventSelect os sock)) (\<lambda>retval.
        finish \<lparr>sv_numThreads = nat numThreads, sv_threads = threads, sv_sock = sock, sv_environment = environment,
          sv_port = htons (word_of_int port), sv_recursiveServer = server,
          sv_connectionString = connectionString\<rparr>)))))"

text \<open>The environment is destroyed again when the body throws; no other member has an effect when it is destroyed.\<close>

definition DNSServer_ctor :: "'w winapi \<Rightarrow> 'w odbc \<Rightarrow> (nat \<Rightarrow> byte) \<Rightarrow> int \<Rightarrow> int \<Rightarrow> byte list \<Rightarrow> string \<Rightarrow> ('w, DNSServer) io" where
  "DNSServer_ctor os drv junk port numThreads recursiveServer connectionString =
     seq (SQLEnvironment_ctor drv) (\<lambda>environment.
       try_catch (DNSServer_body os junk environment port numThreads recursiveServer connectionString)
         (\<lambda>e. seq (SQLEnvironment_dtor drv environment) (\<lambda>_. fail e)))"

section \<open>Destruction\<close>

text \<open>
  The loop that waits for the threads, 64 at a time. The address of the first handle is computed as
  \<open>&threads[threadsWaiting - numThreads]\<close>, with an index that is zero or negative.
\<close>

function wait_loop :: "'w winapi \<Rightarrow> DNSServer \<Rightarrow> nat \<Rightarrow> ('w, unit) io" where
  "wait_loop os sv threadsWaiting =
     (if threadsWaiting = 0 then finish ()
      else
        let numWait = min threadsWaiting MAXIMUM_WAIT_OBJECTS in
        if threadsWaiting < sv_numThreads sv then fail (Crash Read_Out_Of_Bounds)
        else seq (call (WaitForThreads os (take numWait (drop (threadsWaiting - sv_numThreads sv) (sv_threads sv))))) (\<lambda>_.
          wait_loop os sv (threadsWaiting - numWait)))"
  by pat_completeness auto
termination
  by (relation "measure (\<lambda>(os, sv, n). n)") (auto simp: MAXIMUM_WAIT_OBJECTS_def)

declare wait_loop.simps [simp del]

definition DNSServer_dtor_body :: "'w winapi \<Rightarrow> DNSServer \<Rightarrow> ('w, unit) io" where
  "DNSServer_dtor_body os sv =
     seq (wait_loop os sv (sv_numThreads sv)) (\<lambda>_.
     seq (call (ws_closesocket os (sv_sock sv))) (\<lambda>retval.
     if retval = SOCKET_ERROR then fail (Int_Thrown ERR_SOCKET_CLOSE) else finish ()))"

text \<open>The member \<open>environment\<close> is destroyed after the body of the destructor, also when it throws.\<close>

definition DNSServer_dtor :: "'w winapi \<Rightarrow> 'w odbc \<Rightarrow> DNSServer \<Rightarrow> ('w, unit) io" where
  "DNSServer_dtor os drv sv =
     seq (try_catch (DNSServer_dtor_body os sv)
       (\<lambda>e. seq (SQLEnvironment_dtor drv (sv_environment sv)) (\<lambda>_. fail e))) (\<lambda>_.
     SQLEnvironment_dtor drv (sv_environment sv))"

section \<open>Receiving\<close>

text \<open>
  A pass of \<open>run\<close> after the wait: a datagram becomes a request whose packet is a new block of twice the
  packet length with the datagram at its start; an error of \<open>recvfrom\<close> gives no request.
\<close>

definition receive :: "'w winapi \<Rightarrow> (nat \<Rightarrow> byte) \<Rightarrow> DNSServer \<Rightarrow> ('w, DNSRequest option) io" where
  "receive os junk sv =
     seq (call (ws_recvfrom os (sv_sock sv))) (\<lambda>(retval, bytes, from).
     if retval = SOCKET_ERROR then finish None
     else seq (pure_run (memcpy_s (fresh junk (MAX_DNS_PACKET_LENGTH * 2)) 0 (of_nat MAX_DNS_PACKET_LENGTH) bytes)) (\<lambda>p.
       finish (Some \<lparr>req_packet = p, req_from = from\<rparr>)))"

lemma receive_request:
  assumes "ws_recvfrom os (sv_sock sv) w = ((int (length bytes), bytes, from), w')" and "length bytes \<le> 512"
  shows "receive os junk sv w = Some (Inr (Some \<lparr>req_packet = bytes @ drop (length bytes) (fresh junk 1024), req_from = from\<rparr>), w')"
  using assms by (simp add: receive_def SOCKET_ERROR_def MAX_DNS_PACKET_LENGTH_def memcpy_s_patch patch_def)

section \<open>The destructor's wait\<close>

lemma wait_loop_end [simp]: "wait_loop os sv 0 = finish ()"
  by (simp add: wait_loop.simps)

text \<open>
  The destructor waits for all worker threads at once when there are at most 64 of them, then closes the
  socket and frees the environment; with more than 64 it reads thread handles from before the start of
  the array.
\<close>

theorem destructor_waits:
  assumes "length (sv_threads sv) = sv_numThreads sv" and "0 < sv_numThreads sv"
    and "fst (ws_closesocket os (sv_sock sv) (snd (WaitForThreads os (sv_threads sv) w))) \<noteq> SOCKET_ERROR"
  shows "DNSServer_dtor os drv sv w =
    (if sv_numThreads sv \<le> 64 then Some (Inr (), snd (SQLFreeHandle drv SQL_HANDLE_ENV (henv (sv_environment sv))
       (snd (ws_closesocket os (sv_sock sv) (snd (WaitForThreads os (sv_threads sv) w))))))
     else Some (Inl (Crash Read_Out_Of_Bounds), snd (WaitForThreads os (take 64 (sv_threads sv)) w)))"
proof (cases "sv_numThreads sv \<le> 64")
  case True
  then have "wait_loop os sv (sv_numThreads sv) w = Some (Inr (), snd (WaitForThreads os (sv_threads sv) w))"
    using assms(1,2) by (subst wait_loop.simps) (simp add: MAXIMUM_WAIT_OBJECTS_def min_def Let_def)
  then have "DNSServer_dtor_body os sv w = Some (Inr (), snd (ws_closesocket os (sv_sock sv) (snd (WaitForThreads os (sv_threads sv) w))))"
    using assms(3) by (simp add: DNSServer_dtor_body_def seq_def [of "wait_loop os sv _"])
  from try_catch_apply(1) [where m = "DNSServer_dtor_body os sv", OF this] show ?thesis
    unfolding DNSServer_dtor_def using True by (simp add: seq_apply(1) SQLEnvironment_dtor_def)
next
  case False
  then have "wait_loop os sv (sv_numThreads sv) w =
      Some (Inl (Crash Read_Out_Of_Bounds), snd (WaitForThreads os (take 64 (sv_threads sv)) w))"
    using assms(1) by (subst wait_loop.simps, subst wait_loop.simps) (simp add: MAXIMUM_WAIT_OBJECTS_def min_def Let_def)
  then show ?thesis using False by (simp add: DNSServer_dtor_def DNSServer_dtor_body_def try_catch_def seq_def)
qed

definition quiet_os :: "'w winapi" where
  "quiet_os = \<lparr>inet_pton = \<lambda>_. None, CreateThread = \<lambda>w. (1, w), ws_socket = \<lambda>w. (3, w), ws_bind = \<lambda>s p w. (0, w),
     WSAEventSelect = \<lambda>s w. (0, w), WaitForThreads = \<lambda>ts w. (0, w), ws_recvfrom = \<lambda>s w. ((0, [], []), w),
     ws_closesocket = \<lambda>s w. (0, w)\<rparr>"

theorem destructor_waits_witness:
  "DNSServer_dtor quiet_os silent \<lparr>sv_numThreads = 65, sv_threads = replicate 65 1, sv_sock = 3, sv_environment = \<lparr>henv = 1\<rparr>,
     sv_port = 0, sv_recursiveServer = 0, sv_connectionString = []\<rparr> () = Some (Inl (Crash Read_Out_Of_Bounds), ())"
  by (subst destructor_waits) (simp_all add: quiet_os_def SOCKET_ERROR_def)

section \<open>The queue of requests\<close>

text \<open>\<open>queue<DNSRequest>\<close>: \<open>push\<close>, and \<open>front\<close> with \<open>pop\<close>, which are undefined on an empty queue.\<close>

definition push_request :: "DNSRequest list \<Rightarrow> DNSRequest \<Rightarrow> DNSRequest list" where
  "push_request q r = q @ [r]"

definition pop_request :: "DNSRequest list \<Rightarrow> (DNSRequest \<times> DNSRequest list) option" where
  "pop_request q = (case q of [] \<Rightarrow> None | r # q' \<Rightarrow> Some (r, q'))"

locale request_fifo =
  fixes push :: "'q \<Rightarrow> 'a \<Rightarrow> 'q"
    and pop :: "'q \<Rightarrow> ('a \<times> 'q) option"
    and items :: "'q \<Rightarrow> 'a list"
  assumes items_push: "items (push q x) = items q @ [x]"
    and pop_None: "pop q = None \<longleftrightarrow> items q = []"
    and pop_Some: "pop q = Some (x, q') \<Longrightarrow> items q = x # items q'"
begin

text \<open>What has been pushed, in order, is what has been popped followed by what is still there.\<close>

definition history :: "'a list \<Rightarrow> 'a list \<Rightarrow> 'q \<Rightarrow> bool" where
  "history pushed popped q \<longleftrightarrow> pushed = popped @ items q"

lemma history_push: "history pushed popped q \<Longrightarrow> history (pushed @ [x]) popped (push q x)"
  by (simp add: history_def items_push)

lemma history_pop: "history pushed popped q \<Longrightarrow> pop q = Some (x, q') \<Longrightarrow> history pushed (popped @ [x]) q'"
  by (simp add: history_def pop_Some)

lemma length_push: "length (items (push q x)) = length (items q) + 1"
  by (simp add: items_push)

lemma length_pop: "pop q = Some (x, q') \<Longrightarrow> length (items q) = length (items q') + 1"
  by (simp add: pop_Some)

end

interpretation rq: request_fifo push_request pop_request "\<lambda>q. q"
  by unfold_locales (auto simp: push_request_def pop_request_def split: list.splits)

section \<open>Threads\<close>

text \<open>
  Where a worker is in its loop: at the loop condition, in the wait, behind the wait, behind the test
  for the end, with a request, or out of the loop. The truth value says whether the wait took a unit of
  the semaphore. \<open>Undefined\<close> is a worker that has taken the front of an empty queue, \<open>Blocked\<close> one that
  waits for ever while it serves a request, as \<open>select\<close> without a time limit in \<open>recursiveResolve\<close> can.
\<close>

datatype worker_pc = At_Loop | At_Wait | Woken bool | Ready bool | Serving DNSRequest | Blocked DNSRequest | Exited | Undefined

datatype main_pc = Main_Loop | Main_Wait | Main_Received DNSRequest | Main_Pushed | Main_Exited

text \<open>\<open>received\<close>, \<open>taken\<close> and \<open>lost\<close> record the requests pushed and popped and the releases that failed.\<close>

record threads =
  isRunning :: bool
  requestQueue :: "DNSRequest list"
  requestSemaphore :: nat
  quitEvent :: bool
  workers :: "worker_pc list"
  main_at :: main_pc
  received :: "DNSRequest list"
  taken :: "DNSRequest list"
  lost :: nat

definition move :: "nat \<Rightarrow> worker_pc \<Rightarrow> threads \<Rightarrow> threads" where
  "move i pc s = s\<lparr>workers := (workers s)[i := pc]\<rparr>"

text \<open>The condition of the worker's loop and of its test behind the wait.\<close>

definition more_work :: "threads \<Rightarrow> bool" where
  "more_work s \<longleftrightarrow> isRunning s \<or> requestQueue s \<noteq> []"

text \<open>
  The steps of worker \<open>i\<close>. \<open>WaitForMultipleObjects\<close> on the semaphore and the event returns for the
  first of them that is signalled; the event stays signalled.
\<close>

inductive worker_step :: "nat \<Rightarrow> threads \<Rightarrow> threads \<Rightarrow> bool" for i where
  enter: "workers s ! i = At_Loop \<Longrightarrow> more_work s \<Longrightarrow> worker_step i s (move i At_Wait s)"
| leave: "workers s ! i = At_Loop \<Longrightarrow> \<not> more_work s \<Longrightarrow> worker_step i s (move i Exited s)"
| wake: "workers s ! i = At_Wait \<Longrightarrow> 0 < requestSemaphore s \<Longrightarrow>
    worker_step i s (move i (Woken True) (s\<lparr>requestSemaphore := requestSemaphore s - 1\<rparr>))"
| wake_quit: "workers s ! i = At_Wait \<Longrightarrow> requestSemaphore s = 0 \<Longrightarrow> quitEvent s \<Longrightarrow>
    worker_step i s (move i (Woken False) s)"
| go: "workers s ! i = Woken b \<Longrightarrow> more_work s \<Longrightarrow> worker_step i s (move i (Ready b) s)"
| quit: "workers s ! i = Woken b \<Longrightarrow> \<not> more_work s \<Longrightarrow> worker_step i s (move i Exited s)"
| pop: "workers s ! i = Ready b \<Longrightarrow> pop_request (requestQueue s) = Some (r, q) \<Longrightarrow>
    worker_step i s (move i (Serving r) (s\<lparr>requestQueue := q, taken := taken s @ [r]\<rparr>))"
| pop_empty: "workers s ! i = Ready b \<Longrightarrow> pop_request (requestQueue s) = None \<Longrightarrow>
    worker_step i s (move i Undefined s)"
| served: "workers s ! i = Serving r \<Longrightarrow> worker_step i s (move i At_Loop s)"
| block: "workers s ! i = Serving r \<Longrightarrow> worker_step i s (move i (Blocked r) s)"

text \<open>The steps of the main thread in \<open>run\<close>; \<open>maxCount\<close> is the maximum of the semaphore.\<close>

inductive main_step :: "nat \<Rightarrow> threads \<Rightarrow> threads \<Rightarrow> bool" for maxCount where
  main_enter: "main_at s = Main_Loop \<Longrightarrow> isRunning s \<Longrightarrow> main_step maxCount s (s\<lparr>main_at := Main_Wait\<rparr>)"
| main_leave: "main_at s = Main_Loop \<Longrightarrow> \<not> isRunning s \<Longrightarrow> main_step maxCount s (s\<lparr>main_at := Main_Exited\<rparr>)"
| main_break: "main_at s = Main_Wait \<Longrightarrow> \<not> isRunning s \<Longrightarrow> main_step maxCount s (s\<lparr>main_at := Main_Exited\<rparr>)"
| main_error: "main_at s = Main_Wait \<Longrightarrow> isRunning s \<Longrightarrow> main_step maxCount s (s\<lparr>main_at := Main_Loop\<rparr>)"
| main_receive: "main_at s = Main_Wait \<Longrightarrow> isRunning s \<Longrightarrow> main_step maxCount s (s\<lparr>main_at := Main_Received r\<rparr>)"
| main_push: "main_at s = Main_Received r \<Longrightarrow>
    main_step maxCount s (s\<lparr>main_at := Main_Pushed, requestQueue := push_request (requestQueue s) r, received := received s @ [r]\<rparr>)"
| main_release: "main_at s = Main_Pushed \<Longrightarrow> requestSemaphore s < maxCount \<Longrightarrow>
    main_step maxCount s (s\<lparr>main_at := Main_Loop, requestSemaphore := requestSemaphore s + 1\<rparr>)"
| main_release_fails: "main_at s = Main_Pushed \<Longrightarrow> maxCount \<le> requestSemaphore s \<Longrightarrow>
    main_step maxCount s (s\<lparr>main_at := Main_Loop, lost := lost s + 1\<rparr>)"

text \<open>\<open>shutdown\<close>, called by the console handler's thread: the flag first, then the event.\<close>

inductive shutdown_step :: "threads \<Rightarrow> threads \<Rightarrow> bool" where
  shutdown_flag: "shutdown_step s (s\<lparr>isRunning := False\<rparr>)"
| shutdown_event: "\<not> isRunning s \<Longrightarrow> shutdown_step s (s\<lparr>quitEvent := True\<rparr>)"

definition start_threads :: "nat \<Rightarrow> threads" where
  "start_threads n = \<lparr>isRunning = True, requestQueue = [], requestSemaphore = 0, quitEvent = False,
     workers = replicate n At_Loop, main_at = Main_Loop, received = [], taken = [], lost = 0\<rparr>"

inductive reachable :: "nat \<Rightarrow> nat \<Rightarrow> threads \<Rightarrow> bool" for maxCount n where
  start: "reachable maxCount n (start_threads n)"
| worker: "reachable maxCount n s \<Longrightarrow> i < length (workers s) \<Longrightarrow> worker_step i s s' \<Longrightarrow> reachable maxCount n s'"
| main: "reachable maxCount n s \<Longrightarrow> main_step maxCount s s' \<Longrightarrow> reachable maxCount n s'"
| shutdown: "reachable maxCount n s \<Longrightarrow> shutdown_step s s' \<Longrightarrow> reachable maxCount n s'"

text \<open>The same steps as functions, driven by a schedule.\<close>

definition worker_act :: "bool \<Rightarrow> nat \<Rightarrow> threads \<Rightarrow> threads option" where
  "worker_act blocks i s = (case workers s ! i of
       At_Loop \<Rightarrow> Some (move i (if more_work s then At_Wait else Exited) s)
     | At_Wait \<Rightarrow> if 0 < requestSemaphore s
         then Some (move i (Woken True) (s\<lparr>requestSemaphore := requestSemaphore s - 1\<rparr>))
         else if quitEvent s then Some (move i (Woken False) s) else None
     | Woken b \<Rightarrow> Some (move i (if more_work s then Ready b else Exited) s)
     | Ready b \<Rightarrow> (case pop_request (requestQueue s) of
           Some (r, q) \<Rightarrow> Some (move i (Serving r) (s\<lparr>requestQueue := q, taken := taken s @ [r]\<rparr>))
         | None \<Rightarrow> Some (move i Undefined s))
     | Serving r \<Rightarrow> Some (move i (if blocks then Blocked r else At_Loop) s)
     | Blocked r \<Rightarrow> None
     | Exited \<Rightarrow> None
     | Undefined \<Rightarrow> None)"

definition main_act :: "nat \<Rightarrow> DNSRequest option \<Rightarrow> threads \<Rightarrow> threads option" where
  "main_act maxCount arrived s = (case main_at s of
       Main_Loop \<Rightarrow> Some (s\<lparr>main_at := if isRunning s then Main_Wait else Main_Exited\<rparr>)
     | Main_Wait \<Rightarrow> if \<not> isRunning s then Some (s\<lparr>main_at := Main_Exited\<rparr>)
         else (case arrived of None \<Rightarrow> Some (s\<lparr>main_at := Main_Loop\<rparr>) | Some r \<Rightarrow> Some (s\<lparr>main_at := Main_Received r\<rparr>))
     | Main_Received r \<Rightarrow>
         Some (s\<lparr>main_at := Main_Pushed, requestQueue := push_request (requestQueue s) r, received := received s @ [r]\<rparr>)
     | Main_Pushed \<Rightarrow> if requestSemaphore s < maxCount
         then Some (s\<lparr>main_at := Main_Loop, requestSemaphore := requestSemaphore s + 1\<rparr>)
         else Some (s\<lparr>main_at := Main_Loop, lost := lost s + 1\<rparr>)
     | Main_Exited \<Rightarrow> None)"

datatype actor = Worker nat | Main "DNSRequest option" | Flag | Event

fun schedule :: "nat \<Rightarrow> actor list \<Rightarrow> threads \<Rightarrow> threads option" where
  "schedule maxCount [] s = Some s"
| "schedule maxCount (Worker i # plan) s =
     (if i < length (workers s) then Option.bind (worker_act False i s) (schedule maxCount plan) else None)"
| "schedule maxCount (Main r # plan) s = Option.bind (main_act maxCount r s) (schedule maxCount plan)"
| "schedule maxCount (Flag # plan) s = schedule maxCount plan (s\<lparr>isRunning := False\<rparr>)"
| "schedule maxCount (Event # plan) s = (if isRunning s then None else schedule maxCount plan (s\<lparr>quitEvent := True\<rparr>))"

lemma worker_step_iff: "worker_step i s s' \<longleftrightarrow> (\<exists>blocks. worker_act blocks i s = Some s')"
proof
  show "worker_step i s s' \<Longrightarrow> \<exists>blocks. worker_act blocks i s = Some s'"
  proof (induction rule: worker_step.induct)
    case (block s r)
    then show ?case by (intro exI [of _ True]) (simp add: worker_act_def)
  qed (rule exI [of _ False], simp add: worker_act_def)+
  assume "\<exists>blocks. worker_act blocks i s = Some s'"
  then obtain blocks where act: "worker_act blocks i s = Some s'" ..
  show "worker_step i s s'"
  proof (cases "workers s ! i")
    case (Serving r)
    then show ?thesis using act by (cases blocks) (auto simp: worker_act_def intro: worker_step.intros)
  qed (use act in \<open>auto simp: worker_act_def split: if_splits option.splits
    intro: worker_step.intros worker_step.wake [unfolded One_nat_def]\<close>)
qed

lemma main_step_iff: "main_step maxCount s s' \<longleftrightarrow> (\<exists>r. main_act maxCount r s = Some s')"
proof
  show "main_step maxCount s s' \<Longrightarrow> \<exists>r. main_act maxCount r s = Some s'"
  proof (induction rule: main_step.induct)
    case (main_receive s r)
    then show ?case by (intro exI [of _ "Some r"]) (simp add: main_act_def)
  qed (rule exI [of _ None], simp add: main_act_def)+
  show "\<exists>r. main_act maxCount r s = Some s' \<Longrightarrow> main_step maxCount s s'"
    by (cases "main_at s"; cases "isRunning s") (auto simp: main_act_def not_less split: if_splits option.splits
      intro: main_step.intros main_step.intros [unfolded add_Suc_right add_0_right One_nat_def])
qed

lemma schedule_reachable:
  "schedule maxCount plan s = Some s' \<Longrightarrow> reachable maxCount n s \<Longrightarrow> reachable maxCount n s'"
proof (induction maxCount plan s rule: schedule.induct)
  case (2 maxCount i plan s)
  then obtain t where t: "i < length (workers s)" "worker_act False i s = Some t" "schedule maxCount plan t = Some s'"
    by (auto simp: bind_eq_Some_conv split: if_splits)
  then have "worker_step i s t" using worker_step_iff by blast
  then have "reachable maxCount n t" using 2(3) t(1) by (rule_tac reachable.worker)
  then show ?case using 2(1) t by blast
next
  case (3 maxCount r plan s)
  then obtain t where t: "main_act maxCount r s = Some t" "schedule maxCount plan t = Some s'"
    by (auto simp: bind_eq_Some_conv)
  then have "main_step maxCount s t" using main_step_iff by blast
  then have "reachable maxCount n t" using 3(3) by (rule_tac reachable.main)
  then show ?case using 3(1) t by blast
next
  case (4 maxCount plan s)
  then show ?case using reachable.shutdown [OF _ shutdown_step.shutdown_flag] by auto
next
  case (5 maxCount plan s)
  then show ?case using reachable.shutdown [OF _ shutdown_step.shutdown_event] by (auto split: if_splits)
qed simp

section \<open>Invariants\<close>

lemma move_simps [simp]:
  "isRunning (move i pc s) = isRunning s" "requestQueue (move i pc s) = requestQueue s"
  "requestSemaphore (move i pc s) = requestSemaphore s" "quitEvent (move i pc s) = quitEvent s"
  "workers (move i pc s) = (workers s)[i := pc]" "main_at (move i pc s) = main_at s"
  "received (move i pc s) = received s" "taken (move i pc s) = taken s" "lost (move i pc s) = lost s"
  by (simp_all add: move_def)

text \<open>Units of the semaphore that a worker has taken for a request still in the queue.\<close>

fun claim :: "worker_pc \<Rightarrow> nat" where
  "claim (Woken b) = (if b then 1 else 0)"
| "claim (Ready b) = (if b then 1 else 0)"
| "claim pc = 0"

lemma claim_zero: "pc \<noteq> Woken True \<Longrightarrow> pc \<noteq> Ready True \<Longrightarrow> claim pc = 0"
  by (cases pc) auto

definition claims :: "threads \<Rightarrow> nat" where
  "claims s = sum_list (map claim (workers s))"

definition unreleased :: "threads \<Rightarrow> nat" where
  "unreleased s = (if main_at s = Main_Pushed then 1 else 0)"

fun normal :: "worker_pc \<Rightarrow> bool" where
  "normal (Woken b) = b"
| "normal (Ready b) = b"
| "normal Exited = False"
| "normal Undefined = False"
| "normal pc = True"

lemma claims_move: "i < length (workers s) \<Longrightarrow> claims (move i pc s) + claim (workers s ! i) = claims s + claim pc"
  using elem_le_sum_list [of i "map claim (workers s)"] by (simp add: claims_def map_update sum_list_update)

lemma claims_cong: "workers s = workers s' \<Longrightarrow> claims s = claims s'"
  by (simp add: claims_def)

definition in_order :: "threads \<Rightarrow> bool" where
  "in_order s \<longleftrightarrow> rq.history (received s) (taken s) (requestQueue s)"

definition balanced :: "threads \<Rightarrow> bool" where
  "balanced s \<longleftrightarrow> \<not> quitEvent s \<and> (\<forall>pc\<in>set (workers s). normal pc) \<and>
     requestSemaphore s + claims s + unreleased s + lost s = length (requestQueue s)"

lemma in_order_reachable: "reachable maxCount n s \<Longrightarrow> in_order s"
proof (induction rule: reachable.induct)
  case start
  then show ?case by (simp add: in_order_def rq.history_def start_threads_def)
next
  case (worker s i s')
  from worker(3) worker(4) show ?case
    by (cases rule: worker_step.cases) (auto simp: in_order_def intro: rq.history_pop)
next
  case (main s s')
  from main(2) main(3) show ?case
    by (cases rule: main_step.cases) (auto simp: in_order_def intro: rq.history_push)
next
  case (shutdown s s')
  from shutdown(2) shutdown(3) show ?case
    by (cases rule: shutdown_step.cases) (auto simp: in_order_def)
qed

lemma balanced_move:
  assumes "balanced s" and "i < length (workers s)" and "workers t = workers s" and "normal pc" and "\<not> quitEvent t"
    and "requestSemaphore t + claim pc + unreleased t + lost t + length (requestQueue s) =
      requestSemaphore s + claim (workers s ! i) + unreleased s + lost s + length (requestQueue t)"
  shows "balanced (move i pc t)"
proof -
  have "\<forall>x\<in>set ((workers s)[i := pc]). normal x"
    using assms(1,4) set_update_subset_insert [of "workers s" i pc] by (auto simp: balanced_def)
  moreover have "claims (move i pc t) + claim (workers s ! i) = claims s + claim pc"
    using claims_move [of i t pc] claims_cong [of t s] assms(2,3) by simp
  ultimately show ?thesis using assms by (simp add: balanced_def unreleased_def)
qed

lemma ready_nonempty:
  assumes "balanced s" and "i < length (workers s)" and "workers s ! i = Ready True"
  shows "requestQueue s \<noteq> []"
proof -
  have "claim (workers s ! i) \<le> claims s"
    using elem_le_sum_list [of i "map claim (workers s)"] assms(2) by (simp add: claims_def)
  moreover have "claims s \<le> length (requestQueue s)" using assms(1) by (simp add: balanced_def)
  ultimately show ?thesis using assms(3) by auto
qed

lemma balanced_worker:
  assumes "worker_step i s s'" and "i < length (workers s)" and "balanced s" and "isRunning s"
  shows "balanced s'"
proof -
  have nm: "normal (workers s ! i)" using assms(2,3) by (simp add: balanced_def)
  note q = ready_nonempty [OF assms(3,2)]
  from assms(1) show ?thesis
  proof cases
    case (pop b r q)
    then show ?thesis
      using nm assms(2-4) rq.length_pop [of "requestQueue s" r q]
      by (auto simp: unreleased_def balanced_def [of s] intro!: balanced_move [OF assms(3)])
  qed (use nm assms(2-4) q in \<open>auto simp: more_work_def unreleased_def balanced_def [of s] rq.pop_None
    intro!: balanced_move [OF assms(3)]\<close>)
qed

lemma worker_step_running: "worker_step i s s' \<Longrightarrow> isRunning s' = isRunning s"
  by (induction rule: worker_step.induct) simp_all

lemma main_step_keeps:
  "main_step maxCount s s' \<Longrightarrow> workers s' = workers s" "main_step maxCount s s' \<Longrightarrow> isRunning s' = isRunning s"
  by (induction rule: main_step.induct) simp_all

lemma balanced_main:
  assumes "main_step maxCount s s'" and "balanced s"
  shows "balanced s'"
proof -
  have c: "claims s' = claims s" using main_step_keeps(1) [OF assms(1)] by (rule claims_cong)
  from assms(1) c assms(2) show ?thesis
    by (induction rule: main_step.induct) (auto simp: balanced_def unreleased_def rq.length_push)
qed

lemma balanced_reachable: "reachable maxCount n s \<Longrightarrow> isRunning s \<Longrightarrow> balanced s"
proof (induction rule: reachable.induct)
  case start
  show ?case by (simp add: balanced_def start_threads_def claims_def unreleased_def sum_list_replicate)
next
  case (worker s i s')
  then show ?case using balanced_worker worker_step_running by blast
next
  case (main s s')
  then show ?case using balanced_main main_step_keeps(2) by blast
next
  case (shutdown s s')
  from shutdown(2,4) shutdown(3) show ?case by (induction rule: shutdown_step.induct) (simp_all add: balanced_def)
qed

text \<open>A release fails only when the semaphore is at its maximum, so after more requests than that.\<close>

lemma lost_reachable: "reachable maxCount n s \<Longrightarrow> isRunning s \<Longrightarrow> lost s = 0 \<or> maxCount < length (received s)"
proof (induction rule: reachable.induct)
  case start
  show ?case by (simp add: start_threads_def)
next
  case (worker s i s')
  from worker(3) show ?case using worker(4,5) by cases auto
next
  case (main s s')
  have run: "isRunning s" using main(2,4) main_step_keeps(2) by blast
  have b: "requestSemaphore s + unreleased s \<le> length (requestQueue s)"
    using balanced_reachable [OF main(1) run] by (simp add: balanced_def)
  have q: "length (requestQueue s) \<le> length (received s)"
    using in_order_reachable [OF main(1)] by (simp add: in_order_def rq.history_def)
  from main(2) show ?case using main(3) run b q by cases (auto simp: unreleased_def)
next
  case (shutdown s s')
  from shutdown(2) show ?case using shutdown(3,4) by cases auto
qed

section \<open>The end\<close>













section \<open>Properties of the threads\<close>

text \<open>A worker about to take the only request.\<close>

definition example_threads :: threads where
  "example_threads = \<lparr>isRunning = True, requestQueue = [\<lparr>req_packet = [], req_from = []\<rparr>], requestSemaphore = 0, quitEvent = False,
     workers = [Ready True], main_at = Main_Loop, received = [\<lparr>req_packet = [], req_from = []\<rparr>], taken = [], lost = 0\<rparr>"

lemma example_threads_reachable: "reachable 5 1 example_threads"
proof (rule schedule_reachable [OF _ reachable.start])
  show "schedule 5 [Worker 0, Main None, Main (Some \<lparr>req_packet = [], req_from = []\<rparr>), Main None, Main None, Worker 0, Worker 0]
      (start_threads 1) = Some example_threads"
    by (simp add: start_threads_def worker_act_def main_act_def more_work_def move_def push_request_def example_threads_def)
qed

text \<open>
  C10. Requests are taken from the queue in the order in which they were received, each of them once:
  in every reachable state the requests received are those taken followed by those in the queue.
\<close>

theorem requests_in_order:
  assumes "reachable maxCount n s"
  shows "received s = taken s @ requestQueue s"
  using in_order_reachable [OF assms] by (simp add: in_order_def rq.history_def)

theorem requests_in_order_witness:
  "reachable 5 1 example_threads \<and> received example_threads = taken example_threads @ requestQueue example_threads"
  using example_threads_reachable requests_in_order [OF example_threads_reachable] by (rule conjI)

text \<open>
  C4. As long as the server runs, no worker takes the front of an empty queue, and none leaves its
  loop, whatever the interleaving of the threads.
\<close>

theorem queue_never_underflows:
  assumes "reachable maxCount n s" and "isRunning s" and "pc \<in> set (workers s)"
  shows "pc \<noteq> Undefined \<and> pc \<noteq> Exited \<and> (pc = Ready b \<longrightarrow> requestQueue s \<noteq> [])"
proof -
  have b: "balanced s" using balanced_reachable [OF assms(1,2)] .
  then have nm: "normal pc" using assms(3) by (simp add: balanced_def)
  obtain i where "i < length (workers s)" "workers s ! i = pc" using assms(3) by (auto simp: in_set_conv_nth)
  then show ?thesis using ready_nonempty [OF b, of i] nm by auto
qed

theorem queue_never_underflows_witness:
  "Ready True \<in> set (workers example_threads) \<and> requestQueue example_threads \<noteq> []"
  using queue_never_underflows [OF example_threads_reachable, where pc = "Ready True" and b = True]
  by (simp add: example_threads_def)

text \<open>
  C11. A request in the queue does not wait for nothing: while the server runs and fewer requests than the
  semaphore can count have been received, a queue that is not empty has a worker on its way to it, or
  a signalled semaphore, or a release still to come from the main thread.
\<close>

theorem request_has_taker:
  assumes "reachable maxCount n s" and "isRunning s" and "length (received s) \<le> maxCount" and "requestQueue s \<noteq> []"
  shows "0 < requestSemaphore s \<or> main_at s = Main_Pushed \<or> Woken True \<in> set (workers s) \<or> Ready True \<in> set (workers s)"
proof (rule ccontr)
  assume no: "\<not> ?thesis"
  have b: "balanced s" using balanced_reachable [OF assms(1,2)] .
  have l: "lost s = 0" using lost_reachable [OF assms(1,2)] assms(3) by auto
  have "\<forall>pc\<in>set (workers s). claim pc = 0"
  proof
    fix pc
    assume "pc \<in> set (workers s)"
    then have "pc \<noteq> Woken True" "pc \<noteq> Ready True" using no by auto
    then show "claim pc = 0" by (rule claim_zero)
  qed
  then have "claims s = 0" by (simp add: claims_def)
  with b l no have "length (requestQueue s) = 0" by (simp add: balanced_def unreleased_def)
  with assms(4) show False by simp
qed

theorem request_has_taker_witness:
  "0 < requestSemaphore example_threads \<or> main_at example_threads = Main_Pushed \<or>
     Woken True \<in> set (workers example_threads) \<or> Ready True \<in> set (workers example_threads)"
  by (rule request_has_taker [OF example_threads_reachable]) (simp_all add: example_threads_def)




text \<open>
  C31. After a shutdown a worker can take the front of an empty queue: the event that ends the waits
  stays signalled, so a worker passes its wait without a unit of the semaphore, finds the one request
  that is left in the queue, and a second worker removes it first. This is so for every positive maximum
  of the semaphore.
\<close>

theorem shutdown_race:
  "\<exists>s. reachable (Suc m) 2 s \<and> length (received s) = 1 \<and> Undefined \<in> set (workers s)"
proof -
  let ?r = "\<lparr>req_packet = [], req_from = []\<rparr>"
  let ?plan = "[Worker 0, Worker 1, Main None, Main (Some ?r), Main None, Main None, Flag, Event,
    Worker 0, Worker 1, Worker 0, Worker 1, Worker 0, Worker 1]"
  have "case schedule (Suc m) ?plan (start_threads 2) of None \<Rightarrow> False
      | Some s \<Rightarrow> length (received s) = 1 \<and> Undefined \<in> set (workers s)"
    by (simp add: start_threads_def numeral_2_eq_2 worker_act_def main_act_def more_work_def move_def push_request_def pop_request_def)
  then obtain s where "schedule (Suc m) ?plan (start_threads 2) = Some s" "length (received s) = 1" "Undefined \<in> set (workers s)"
    by (auto split: option.splits)
  then show ?thesis using schedule_reachable [OF _ reachable.start] by blast
qed

end
