(* ===== verification/MainProgram.thy ===== *)
theory MainProgram
  imports Server "HOL-Library.Sublist"
begin

text \<open>
  \<open>src/ODBCDNS/main.cpp\<close>: the command line and the life of the process. What is printed is not
  modelled; \<open>exit(0)\<close> in \<open>printUsage\<close> is an error no handler catches.
\<close>

section \<open>Arguments\<close>

record args =
  connectionString :: "byte list"
  logPropertiesPath :: "byte list option"
  recursiveServer :: "byte list"
  port :: int
  numThreads :: int

text \<open>The global variables at the start of the program.\<close>

definition start_args :: args where
  "start_args = \<lparr>connectionString = [], logPropertiesPath = None, recursiveServer = replicate 16 0, port = 53, numThreads = 64\<rparr>"

definition printUsage :: "'a run" where
  "printUsage = raise (Exit 0)"

text \<open>\<open>strncmp(s1, s2, n) == 0\<close> on two C strings.\<close>

fun strncmp_eq :: "byte list \<Rightarrow> byte list \<Rightarrow> nat \<Rightarrow> bool run" where
  "strncmp_eq s t 0 = ret True"
| "strncmp_eq [] t (Suc n) = crash Read_Out_Of_Bounds"
| "strncmp_eq s [] (Suc n) = crash Read_Out_Of_Bounds"
| "strncmp_eq (a # s) (b # t) (Suc n) =
     (if a \<noteq> b then ret False else if a = 0 then ret True else strncmp_eq s t n)"

definition c_string :: "string \<Rightarrow> byte list" where
  "c_string s = bytes_of s @ [0]"

text \<open>
  One argument, as the region of its C string. \<open>numChars\<close> is negative for an argument that starts with
  the equals sign and becomes a very large count.
\<close>

definition parse_option :: "args \<Rightarrow> byte list \<Rightarrow> args run" where
  "parse_option a arg =
     bind_run (strchr arg 0 0x2D) (\<lambda>dash.
     bind_run (strchr arg 0 0x3D) (\<lambda>equals.
     case (dash, equals) of
       (Some d, Some e) \<Rightarrow>
         let option = drop 1 arg;
             numChars = unat (of_nat e - 1 :: 64 word);
             val = drop (e + 1) arg in
         bind_run (strncmp_eq (c_string ''recursiveserver'') option numChars) (\<lambda>eq.
         if eq then bind_run (strcpy_s (recursiveServer a) val 0) (\<lambda>s. ret (a\<lparr>recursiveServer := s\<rparr>))
         else
         bind_run (strncmp_eq (c_string ''port'') option numChars) (\<lambda>eq.
         if eq then
           let p = atoi (cstr val) in
           if p \<le> 0 then printUsage else ret (a\<lparr>port := p\<rparr>)
         else
         bind_run (strncmp_eq (c_string ''threads'') option numChars) (\<lambda>eq.
         if eq then
           let a = a\<lparr>numThreads := atoi (cstr val)\<rparr> in
           if port a \<le> 0 then printUsage else ret a
         else
         bind_run (strncmp_eq (c_string ''logproperties'') option numChars) (\<lambda>eq.
         if eq then ret (a\<lparr>logPropertiesPath := Some (cstr val)\<rparr>)
         else printUsage))))
     | _ \<Rightarrow> printUsage))"

fun parse_options :: "args \<Rightarrow> byte list list \<Rightarrow> args run" where
  "parse_options a [] = ret a"
| "parse_options a (arg # rest) = bind_run (parse_option a arg) (\<lambda>a. parse_options a rest)"

definition parseArgs :: "byte list list \<Rightarrow> args run" where
  "parseArgs argv = (if length argv < 2 then printUsage
     else parse_options (start_args\<lparr>connectionString := cstr (argv ! 1)\<rparr>) (drop 2 argv))"

section \<open>The process\<close>

definition ERR_WSASTARTUP :: int where
  "ERR_WSASTARTUP = 1"

text \<open>
  \<open>main\<close>, with the configuration of the log, \<open>WSAStartup\<close> and the server's \<open>run\<close> as parameters: a
  thrown \<open>int\<close> is the exit code, any other exception gives \<open>-1\<close>.
\<close>

definition main_process :: "(byte list option \<Rightarrow> ('w, unit) io) \<Rightarrow> ('w \<Rightarrow> int \<times> 'w) \<Rightarrow> (DNSServer \<Rightarrow> ('w, unit) io) \<Rightarrow>
    'w winapi \<Rightarrow> 'w odbc \<Rightarrow> (nat \<Rightarrow> byte) \<Rightarrow> byte list list \<Rightarrow> ('w, int) io" where
  "main_process configure startup run os drv junk argv =
     try_catch
       (seq (pure_run (parseArgs argv)) (\<lambda>a.
        seq (configure (logPropertiesPath a)) (\<lambda>_.
        seq (call startup) (\<lambda>retval.
        if retval \<noteq> 0 then finish ERR_WSASTARTUP else
        seq (DNSServer_ctor os drv junk (port a) (numThreads a) (recursiveServer a)
               (map (\<lambda>b. char_of (unat b)) (connectionString a))) (\<lambda>server.
        seq (run server) (\<lambda>_.
        seq (DNSServer_dtor os drv server) (\<lambda>_. finish 0)))))))
       (\<lambda>e. case e of Int_Thrown i \<Rightarrow> finish i | _ \<Rightarrow> finish (- 1))"

section \<open>Recognising an option\<close>

lemma strncmp_eq_prefix:
  "0 \<notin> set kw \<Longrightarrow> 0 \<notin> set k \<Longrightarrow> strncmp_eq (kw @ [0]) (k @ t) (length k) = ret (prefix k kw)"
proof (induction k arbitrary: kw)
  case (Cons b k)
  then show ?case by (cases kw) auto
qed simp

lemma strncmp_eq_option:
  assumes "0 \<notin> set k"
  shows "strncmp_eq (c_string ''recursiveserver'') (k @ t) (length k) = ret (prefix k (bytes_of ''recursiveserver''))"
    and "strncmp_eq (c_string ''port'') (k @ t) (length k) = ret (prefix k (bytes_of ''port''))"
    and "strncmp_eq (c_string ''threads'') (k @ t) (length k) = ret (prefix k (bytes_of ''threads''))"
    and "strncmp_eq (c_string ''logproperties'') (k @ t) (length k) = ret (prefix k (bytes_of ''logproperties''))"
  unfolding c_string_def using assms by (intro strncmp_eq_prefix; simp add: bytes_of_def)+

lemma strcpy_s_string:
  "0 \<notin> set v \<Longrightarrow> strcpy_s d (v @ [0]) 0 =
     (if length v < length d then ret (v @ 0 # drop (length v + 1) d) else crash Invalid_Parameter)"
  by (simp add: strcpy_s_def strlen_def strlen_list_eq cstr_append_0)

text \<open>The port is positive throughout, so the test behind the number of threads never fires.\<close>

lemma parse_option_port: "parse_option a arg = ret a' \<Longrightarrow> 0 < port a \<Longrightarrow> 0 < port a'"
  by (auto simp: parse_option_def printUsage_def bind_run_ret_iff Let_def split: option.splits if_splits)

lemma parse_options_port: "parse_options a argv = ret a' \<Longrightarrow> 0 < port a \<Longrightarrow> 0 < port a'"
  by (induction a argv rule: parse_options.induct) (auto simp: bind_run_ret_iff dest: parse_option_port)

section \<open>Properties\<close>

text \<open>
  C20. What an option \<open>-name=value\<close> does: the name is accepted when it is a prefix, even an empty one, of
  one of the four option names, tried in the order of the code. A server address longer than fifteen
  characters ends the process, a port that is not positive prints the usage, and the number of threads is
  taken as it is.
\<close>

theorem option_effect:
  assumes "0 \<notin> set k" and "0x3D \<notin> set k" and "0 \<notin> set v" and "length k < 2 ^ 32" and "length (recursiveServer a) = 16" and "0 < port a"
  shows "parse_option a (0x2D # k @ 0x3D # v @ [0]) =
    (if prefix k (bytes_of ''recursiveserver'') then
       (if length v \<le> 15 then ret (a\<lparr>recursiveServer := v @ 0 # drop (length v + 1) (recursiveServer a)\<rparr>) else crash Invalid_Parameter)
     else if prefix k (bytes_of ''port'') then (if 0 < atoi v then ret (a\<lparr>port := atoi v\<rparr>) else raise (Exit 0))
     else if prefix k (bytes_of ''threads'') then ret (a\<lparr>numThreads := atoi v\<rparr>)
     else if prefix k (bytes_of ''logproperties'') then ret (a\<lparr>logPropertiesPath := Some v\<rparr>)
     else raise (Exit 0))"
proof -
  let ?arg = "0x2D # k @ 0x3D # v @ [0]"
  have d: "strchr ?arg 0 0x2D = ret (Some 0)" by (simp add: strchr_def)
  have "strchr_list 0x3D ((0x2D # k) @ 0x3D # v @ [0]) = ret (Some (length (0x2D # k)))"
    using assms(1,2) by (intro strchr_list_found) simp_all
  then have e: "strchr ?arg 0 0x3D = ret (Some (length k + 1))" by (simp add: strchr_def)
  have n: "unat (of_nat (length k + 1) - 1 :: 64 word) = length k" using assms(4) by (simp add: unat_of_nat)
  have c: "cstr (v @ [0]) = v" using assms(3) by (simp add: cstr_append_0)
  show ?thesis
    unfolding parse_option_def d e bind_run_simps prod.case option.case Let_def n
    using assms(3,5,6) by (simp add: strncmp_eq_option [OF assms(1)] strcpy_s_string c printUsage_def)
qed

theorem option_effect_witness:
  "parse_option start_args (0x2D # bytes_of ''t'' @ 0x3D # bytes_of ''-7'' @ [0]) = ret (start_args\<lparr>numThreads := - 7\<rparr>)"
proof -
  have "atoi (bytes_of ''-7'') = - 7" by code_simp
  then show ?thesis
    using option_effect [of "bytes_of ''t''" "bytes_of ''-7''" start_args] by (simp add: bytes_of_def start_args_def)
qed

text \<open>A command line that is accepted leaves a positive port, whatever options it has.\<close>

theorem parseArgs_port:
  assumes "parseArgs argv = ret a"
  shows "0 < port a"
  using assms parse_options_port by (auto simp: parseArgs_def printUsage_def start_args_def split: if_splits)

theorem parseArgs_port_witness: "0 < port (start_args\<lparr>connectionString := [97]\<rparr>)"
  by (rule parseArgs_port [of "[[98, 0], [97, 0]]"]) (simp add: parseArgs_def cstr_def)

text \<open>
  C27. The exit code of the process when the server cannot be constructed, and what has happened to the world
  by then. When the ODBC environment cannot be set up, the code is -1 and no thread has been started. When
  the worker threads have been started and the socket is not created or the address is not bound, the
  code is 2 or 5, and after the failed call the environment is freed and nothing else is done: the process
  ends without the threads being waited for and without the socket being closed.
\<close>

theorem exit_code_of_construction:
  assumes "parseArgs argv = ret a" and "configure (logPropertiesPath a) w = Some (Inr (), w1)" and "startup w1 = (0, w2)"
  shows "(\<forall>msg w3. SQLEnvironment_ctor drv w2 = Some (Inl (Exception msg), w3) \<longrightarrow>
      main_process configure startup run os drv junk argv w = Some (Inr (- 1), w3)) \<and>
    (\<forall>env w3 ts w4 sock w5 w6. SQLEnvironment_ctor drv w2 = Some (Inr env, w3) \<longrightarrow> 0 \<le> numThreads a \<longrightarrow>
      create_threads os (nat (numThreads a)) w3 = Some (Inr ts, w4) \<longrightarrow> ws_socket os w4 = (sock, w5) \<longrightarrow>
      (if sock = INVALID_SOCKET then w6 = w5 else ws_bind os sock (htons (word_of_int (port a))) w5 = (SOCKET_ERROR, w6)) \<longrightarrow>
      main_process configure startup run os drv junk argv w =
        Some (Inr (if sock = INVALID_SOCKET then 2 else 5), snd (SQLFreeHandle drv SQL_HANDLE_ENV (henv env) w6)))"
proof (intro conjI allI impI)
  let ?ctor = "DNSServer_ctor os drv junk (port a) (numThreads a) (recursiveServer a) (map (\<lambda>b. char_of (unat b)) (connectionString a))"
  have conf: "seq (configure (logPropertiesPath a)) f w = f () w1" for f :: "unit \<Rightarrow> ('a, int) io"
    using assms(2) by (simp add: seq_def)
  have main: "main_process configure startup run os drv junk argv w = Some (Inr (case e of Int_Thrown i \<Rightarrow> i | _ \<Rightarrow> - 1), w')"
    if "?ctor w2 = Some (Inl e, w')" "catchable e" for e w'
    using that assms(1,3) conf by (simp add: main_process_def try_catch_def seq_def [of ?ctor] split: error.split)
  show "main_process configure startup run os drv junk argv w = Some (Inr (- 1), w3)"
    if "SQLEnvironment_ctor drv w2 = Some (Inl (Exception msg), w3)" for msg w3
  proof -
    have "?ctor w2 = Some (Inl (Exception msg), w3)" using that by (simp add: DNSServer_ctor_def seq_def)
    from main [OF this] show ?thesis by simp
  qed
  fix env w3 ts w4 sock w5 w6
  assume env: "SQLEnvironment_ctor drv w2 = Some (Inr env, w3)" and ctx: "0 \<le> numThreads a"
    "create_threads os (nat (numThreads a)) w3 = Some (Inr ts, w4)" "ws_socket os w4 = (sock, w5)"
    "if sock = INVALID_SOCKET then w6 = w5 else ws_bind os sock (htons (word_of_int (port a))) w5 = (SOCKET_ERROR, w6)"
  let ?body = "DNSServer_body os junk env (port a) (numThreads a) (recursiveServer a) (map (\<lambda>b. char_of (unat b)) (connectionString a))"
  have "?body w3 = Some (Inl (Int_Thrown (if sock = INVALID_SOCKET then 2 else 5)), w6)"
    using ctx by (auto simp: DNSServer_body_def Let_def seq_def [of "create_threads os _"] ERR_SOCKET_CREATE_def ERR_BIND_def)
  then have "?ctor w2 = Some (Inl (Int_Thrown (if sock = INVALID_SOCKET then 2 else 5)), snd (SQLFreeHandle drv SQL_HANDLE_ENV (henv env) w6))"
    unfolding DNSServer_ctor_def seq_apply(1) [where m = "SQLEnvironment_ctor drv", OF env]
    by (subst try_catch_apply(2)) (simp_all add: SQLEnvironment_dtor_def seq_assoc)
  from main [OF this] show "main_process configure startup run os drv junk argv w =
      Some (Inr (if sock = INVALID_SOCKET then 2 else 5), snd (SQLFreeHandle drv SQL_HANDLE_ENV (henv env) w6))" by simp
qed

text \<open>An operating system and a driver that record the calls that concern threads, sockets and handles.\<close>

definition recording_os :: "string list winapi" where
  "recording_os = quiet_os\<lparr>CreateThread := \<lambda>w. (1, w @ [''thread'']), ws_bind := \<lambda>s p w. (SOCKET_ERROR, w @ [''bind'']),
     WaitForThreads := \<lambda>ts w. (0, w @ [''wait'']), ws_closesocket := \<lambda>s w. (0, w @ [''close''])\<rparr>"

definition recording_driver :: "string list odbc" where
  "recording_driver = silent\<lparr>SQLFreeHandle := \<lambda>t h w. (0, w @ [''free''])\<rparr>"

theorem exit_code_of_construction_witness:
  "\<exists>a. parseArgs [[98, 0], [97, 0], [0x2D, 116, 0x3D, 50, 0]] = ret a \<and> numThreads a = 2 \<and>
    main_process (\<lambda>_. finish ()) (\<lambda>w. (0, w)) (\<lambda>_. finish ()) recording_os recording_driver (\<lambda>_. 0)
      [[98, 0], [97, 0], [0x2D, 116, 0x3D, 50, 0]] [] = Some (Inr 5, [''thread'', ''thread'', ''bind'', ''free''])"
proof -
  define a where "a = start_args\<lparr>connectionString := [97], numThreads := 2\<rparr>"
  have "parseArgs [[98, 0], [97, 0], [0x2D, 116, 0x3D, 50, 0]] = ret a" unfolding a_def ret_def by code_simp
  moreover have n: "numThreads a = 2" "nat 2 = Suc (Suc 0)" by (simp_all add: a_def)
  moreover have "SQLEnvironment_ctor recording_driver [] = Some (Inr \<lparr>henv = 7\<rparr>, [])"
    by (simp add: SQLEnvironment_ctor_def recording_driver_def silent_def sql_codes)
  moreover have "create_threads recording_os (nat (numThreads a)) [] = Some (Inr [1, 1], [''thread'', ''thread''])"
    unfolding n by (simp add: recording_os_def seq_def call_def)
  moreover have "ws_socket recording_os [''thread'', ''thread''] = (3, [''thread'', ''thread''])"
    by (simp add: recording_os_def quiet_os_def)
  moreover have "ws_bind recording_os 3 p [''thread'', ''thread''] = (SOCKET_ERROR, [''thread'', ''thread'', ''bind''])" for p
    by (simp add: recording_os_def)
  moreover have "(3 :: int) \<noteq> INVALID_SOCKET" by (simp add: INVALID_SOCKET_def)
  moreover have "snd (SQLFreeHandle recording_driver SQL_HANDLE_ENV (henv \<lparr>henv = 7\<rparr>) [''thread'', ''thread'', ''bind'']) =
      [''thread'', ''thread'', ''bind'', ''free'']" by (simp add: recording_driver_def)
  ultimately show ?thesis
    using exit_code_of_construction [where a = a and configure = "\<lambda>_. finish ()" and startup = "\<lambda>w. (0, w)" and w = "[]" and ?w1.0 = "[]"
      and ?w2.0 = "[]" and argv = "[[98, 0], [97, 0], [0x2D, 116, 0x3D, 50, 0]]" and drv = recording_driver and os = recording_os
      and run = "\<lambda>_. finish ()" and junk = "\<lambda>_. 0"] by auto
qed

end
