(* ===== verification/Cache.thy ===== *)
theory Cache
  imports Answers
begin

text \<open>
  The table of cached records: what the three SQL statements of \<open>src/DNS/DNSResolver.cpp\<close> do to it, each at
  the time of its own readings of the clock and in any interleaving of the workers, the invariant they
  keep, and the statements that \<open>cacheResponse\<close> executes for a response. The comparison of strings is a parameter, since it depends on the collation of the
  data source; so is the number of levels after which the data source gives up a recursive query.
\<close>

section \<open>The statements\<close>

record cache_record =
  cr_name :: "byte list"
  cr_value :: "byte list"
  cr_expires :: int
  cr_type :: int
  cr_class :: int

type_synonym cache_table = "cache_record list"
type_synonym collation = "byte list \<Rightarrow> byte list \<Rightarrow> bool"

text \<open>\<open>DELETE FROM RECORD WHERE NAME = ? AND EXPIRES <= {fn NOW()}\<close>\<close>

definition delete_expired :: "collation \<Rightarrow> int \<Rightarrow> byte list \<Rightarrow> cache_table \<Rightarrow> cache_table" where
  "delete_expired eq now nm t = filter (\<lambda>r. \<not> (eq (cr_name r) nm \<and> cr_expires r \<le> now)) t"

text \<open>\<open>IF NOT EXISTS (... NAME = ? AND VALUE = ? AND EXPIRES >= {fn NOW()}) BEGIN INSERT INTO RECORD ... END\<close>\<close>

definition insert_absent :: "collation \<Rightarrow> int \<Rightarrow> byte list \<Rightarrow> byte list \<Rightarrow> cache_record \<Rightarrow> cache_table \<Rightarrow> cache_table" where
  "insert_absent eq now nm val new t =
     (if \<exists>r\<in>set t. eq (cr_name r) nm \<and> eq (cr_value r) val \<and> now \<le> cr_expires r then t else t @ [new])"

text \<open>The recursive query: the records of the name, then those an alias of the level before leads to.\<close>

definition first_level :: "collation \<Rightarrow> int \<Rightarrow> byte list \<Rightarrow> cache_table \<Rightarrow> cache_table" where
  "first_level eq now nm t = filter (\<lambda>r. eq (cr_name r) nm \<and> now < cr_expires r) t"

definition next_level :: "collation \<Rightarrow> int \<Rightarrow> cache_table \<Rightarrow> cache_table \<Rightarrow> cache_table" where
  "next_level eq now t level = concat (map (\<lambda>x. filter (\<lambda>r. eq (cr_name r) (cr_value x) \<and>
     (cr_type r = 5 \<or> cr_type r = 1) \<and> now < cr_expires r) t) level)"

fun levels :: "collation \<Rightarrow> int \<Rightarrow> cache_table \<Rightarrow> nat \<Rightarrow> cache_table \<Rightarrow> cache_table option" where
  "levels eq now t limit [] = Some []"
| "levels eq now t 0 (r # level) = None"
| "levels eq now t (Suc limit) (r # level) =
     map_option (\<lambda>rest. (r # level) @ rest) (levels eq now t limit (next_level eq now t (r # level)))"

definition lookup :: "collation \<Rightarrow> int \<Rightarrow> nat \<Rightarrow> byte list \<Rightarrow> cache_table \<Rightarrow> cache_table option" where
  "lookup eq now limit nm t = levels eq now t limit (first_level eq now nm t)"

text \<open>The record that is inserted, \<open>{fn TIMESTAMPADD(SQL_TSI_SECOND, ?, {fn NOW()})}\<close> being its expiry.\<close>

definition new_record :: "int \<Rightarrow> byte list \<Rightarrow> byte list \<Rightarrow> int \<Rightarrow> int \<Rightarrow> int \<Rightarrow> cache_record" where
  "new_record now nm val ttl type rclass = \<lparr>cr_name = nm, cr_value = val, cr_expires = now + ttl, cr_type = type, cr_class = rclass\<rparr>"

text \<open>
  The two update statements with the values of their parameters, and a statement that is executed together
  with two readings of the clock: the first is that of a deletion and of the test for an existing
  record, the second that of the insertion behind this test.
\<close>

datatype statement = Delete_Expired "byte list" | Insert_Absent "byte list" "byte list" "byte list" "byte list" int int int

type_synonym db_step = "statement \<times> int \<times> int"

fun run_step :: "collation \<Rightarrow> db_step \<Rightarrow> cache_table \<Rightarrow> cache_table" where
  "run_step eq (Delete_Expired nm, now, now') t = delete_expired eq now nm t"
| "run_step eq (Insert_Absent nm val nm' val' ttl type rclass, now, now') t =
     insert_absent eq now nm val (new_record now' nm' val' ttl type rclass) t"

definition run_steps :: "collation \<Rightarrow> db_step list \<Rightarrow> cache_table \<Rightarrow> cache_table" where
  "run_steps eq = fold (run_step eq)"

text \<open>The clock does not go back: the readings of the steps lie between \<open>a\<close> and \<open>b\<close> in their order.\<close>

fun clocked :: "int \<Rightarrow> db_step list \<Rightarrow> int \<Rightarrow> bool" where
  "clocked a [] b \<longleftrightarrow> a \<le> b"
| "clocked a ((st, now, now') # ss) b \<longleftrightarrow> a \<le> now \<and> now \<le> now' \<and> clocked now' ss b"

text \<open>
  The statements \<open>cacheResponse\<close> executes for a record: for one with an address or an alias the deletion,
  then the insertion, none for any other.
\<close>

definition rr_statements :: "DNSResourceRecord \<Rightarrow> statement list" where
  "rr_statements rr = (case rr_rdata rr of
       Live d \<Rightarrow>
         [Delete_Expired (cstr (rr_name rr)),
          Insert_Absent (cstr (rr_name rr)) (cstr (rdata_getValue d)) (cstr (rr_name rr)) (cstr (rdata_getValue d))
            (sint (fi_ttl (rr_info rr))) (uint (fi_type (rr_info rr))) (uint (fi_rclass (rr_info rr)))]
     | _ \<Rightarrow> [])"

section \<open>The table\<close>

lemma run_steps_simps [simp]:
  "run_steps eq [] t = t" "run_steps eq (st # ss) t = run_steps eq ss (run_step eq st t)"
  "run_steps eq (ss @ ss') t = run_steps eq ss' (run_steps eq ss t)"
  by (simp_all add: run_steps_def)

lemma clocked_le: "clocked a ss b \<Longrightarrow> a \<le> b"
  by (induction a ss b rule: clocked.induct) auto


text \<open>A comparison of strings by a collation is an equivalence.\<close>

definition collates :: "collation \<Rightarrow> bool" where
  "collates eq \<longleftrightarrow> equivp eq"

lemma collates_refl: "collates eq \<Longrightarrow> eq x x"
  by (auto simp: collates_def elim: equivp_reflp)






text \<open>A record stays in the table until it expires.\<close>

lemma record_stays:
  "clocked a ss b \<Longrightarrow> b < cr_expires r \<Longrightarrow> r \<in> set t \<Longrightarrow> r \<in> set (run_steps eq ss t)"
proof (induction a ss b arbitrary: t rule: clocked.induct)
  case (2 a st now now' ss b)
  have "now < cr_expires r" using 2(2,3) clocked_le [of now' ss b] by simp
  then have "r \<in> set (run_step eq (st, now, now') t)"
    using 2(4) by (cases st) (auto simp: delete_expired_def insert_absent_def)
  then show ?case using 2 by simp
qed simp

section \<open>The recursive query\<close>

lemma levels_prefix: "levels eq now t limit level = Some rows \<Longrightarrow> set level \<subseteq> set rows"
  by (induction eq now t limit level arbitrary: rows rule: levels.induct) auto

lemma levels_live:
  "levels eq now t limit level = Some rows \<Longrightarrow> \<forall>r\<in>set level. now < cr_expires r \<Longrightarrow> r \<in> set rows \<Longrightarrow> now < cr_expires r"
proof (induction eq now t limit level arbitrary: rows rule: levels.induct)
  case (3 eq now t limit x level)
  obtain rest where rest: "levels eq now t limit (next_level eq now t (x # level)) = Some rest" "rows = (x # level) @ rest"
    using 3(2) by auto
  have "\<forall>r\<in>set (next_level eq now t (x # level)). now < cr_expires r" by (auto simp: next_level_def)
  then show ?case using 3(1) [OF rest(1)] 3(3,4) rest(2) by auto
qed auto

text \<open>Records that lead from one to the next for ever keep every level inhabited.\<close>

definition alias_cycle :: "collation \<Rightarrow> int \<Rightarrow> cache_table \<Rightarrow> cache_record set \<Rightarrow> bool" where
  "alias_cycle eq now t C \<longleftrightarrow> C \<subseteq> set t \<and> (\<forall>r\<in>C. now < cr_expires r \<and> cr_type r = 5 \<and> (\<exists>r'\<in>C. eq (cr_name r') (cr_value r)))"

lemma levels_cycle:
  assumes "alias_cycle eq now t C" and "\<exists>r\<in>C. r \<in> set level"
  shows "levels eq now t limit level = None"
  using assms(2)
proof (induction limit arbitrary: level)
  case 0
  then show ?case by (cases level) auto
next
  case (Suc limit)
  then obtain r where r: "r \<in> C" "r \<in> set level" by blast
  then obtain r' where r': "r' \<in> C" "eq (cr_name r') (cr_value r)" using assms(1) by (auto simp: alias_cycle_def)
  then have "r' \<in> set (next_level eq now t level)" using assms(1) r(2) by (auto simp: alias_cycle_def next_level_def)
  then have "levels eq now t limit (next_level eq now t level) = None" using Suc.IH r'(1) by blast
  then show ?case using r(2) by (cases level) auto
qed

text \<open>A rank that falls along every alias bounds the number of levels.\<close>

lemma levels_rank:
  assumes "\<And>r x. r \<in> set t \<Longrightarrow> x \<in> set t \<Longrightarrow> eq (cr_name r) (cr_value x) \<Longrightarrow> rank r < (rank x :: nat)"
    and "\<forall>x\<in>set level. x \<in> set t \<and> rank x < limit"
  shows "levels eq now t limit level \<noteq> None"
  using assms(2)
proof (induction limit arbitrary: level)
  case 0
  then show ?case by (cases level) auto
next
  case (Suc limit)
  show ?case
  proof (cases level)
    case (Cons y ys)
    have "x \<in> set t \<and> rank x < limit" if "x \<in> set (next_level eq now t level)" for x
    proof -
      obtain z where "z \<in> set level" "x \<in> set t" "eq (cr_name x) (cr_value z)"
        using \<open>x \<in> set (next_level eq now t level)\<close> by (auto simp: next_level_def)
      then show ?thesis using assms(1) [of x z] Suc.prems by force
    qed
    then have "levels eq now t limit (next_level eq now t level) \<noteq> None" using Suc.IH by blast
    then show ?thesis using Cons by auto
  qed simp
qed

section \<open>A data source that executes the statements\<close>

















section \<open>Total correctness of computations\<close>

definition runs :: "('s, 'a) io \<Rightarrow> 's \<Rightarrow> ('a \<Rightarrow> 's \<Rightarrow> bool) \<Rightarrow> bool" where
  "runs m s P \<longleftrightarrow> (\<exists>x s'. m s = Some (Inr x, s') \<and> P x s')"

lemma runs_finish: "P x s \<Longrightarrow> runs (finish x) s P"
  by (simp add: runs_def)



lemma runs_pure: "r = ret x \<Longrightarrow> P x s \<Longrightarrow> runs (pure_run r) s P"
  by (simp add: runs_def)


lemma runs_get_packet: "runs (f (rs_packet s)) s P \<Longrightarrow> runs (seq get_packet f) s P"
  by (simp add: runs_def)









section \<open>Caching a response\<close>





















section \<open>A data source for examples\<close>







section \<open>Properties\<close>







definition example_rr :: "32 word \<Rightarrow> DNSResourceRecord" where
  "example_rr ttl = \<lparr>rr_name = [97, 0], rr_info = \<lparr>fi_type = 1, fi_rclass = 1, fi_ttl = ttl, fi_rdlength = 4\<rparr>,
     rr_rdata = Live (RDataA \<lparr>a_addr = [1, 2, 3, 4], a_value = [49, 0]\<rparr>), rr_decoded = True\<rparr>"

text \<open>
  Two workers cache the same record. The first record expires between the two statements of the second
  worker, so that an expired duplicate stays in the table: only unexpired records are without duplicates.
\<close>

definition example_steps :: "db_step list" where
  "example_steps = [(rr_statements (example_rr 5) ! 0, 0, 0), (rr_statements (example_rr 5) ! 1, 0, 0),
     (rr_statements (example_rr 60) ! 0, 4, 4), (rr_statements (example_rr 60) ! 1, 6, 6)]"

lemma expired_duplicate_stays:
  "map (\<lambda>r. (cr_name r, cr_value r, cr_expires r)) (run_steps (=) example_steps []) = [([97], [49], 5), ([97], [49], 66)]"
  by code_simp


text \<open>
  C13. After the insertion statement for a record of a response has been executed, and any further statements
  of the workers up to a time \<open>T\<close>, a query for its name at that time, where it returns at all, finds a
  record with this name and value exactly until that record expires. It is the new record, which expires its
  time to live after the insertion, unless one with the same name and value that had not expired was there when
  the statement looked for it; then it is that one, which keeps its own expiry even when the new one would be later.
\<close>

theorem cached_record_found:
  assumes "collates eq" and "rr_rdata rr = Live d" and "nm = cstr (rr_name rr)" and "val = cstr (rdata_getValue d)"
    and "clocked now' later T" and "t' = run_step eq (rr_statements rr ! 1, now, now') t"
    and "lookup eq T limit nm (run_steps eq later t') = Some rows"
  shows "\<exists>r. eq (cr_name r) nm \<and> eq (cr_value r) val \<and> (r \<in> set rows \<longleftrightarrow> T < cr_expires r) \<and>
    (if \<exists>r\<in>set t. eq (cr_name r) nm \<and> eq (cr_value r) val \<and> now \<le> cr_expires r
     then r \<in> set t \<and> now \<le> cr_expires r
     else r = \<lparr>cr_name = nm, cr_value = val, cr_expires = now' + sint (fi_ttl (rr_info rr)),
       cr_type = uint (fi_type (rr_info rr)), cr_class = uint (fi_rclass (rr_info rr))\<rparr>)"
proof -
  let ?new = "\<lparr>cr_name = nm, cr_value = val, cr_expires = now' + sint (fi_ttl (rr_info rr)),
       cr_type = uint (fi_type (rr_info rr)), cr_class = uint (fi_rclass (rr_info rr))\<rparr>"
  have t': "t' = insert_absent eq now nm val ?new t"
    using assms(2-4,6) by (simp add: rr_statements_def new_record_def)
  have found: "r \<in> set rows \<longleftrightarrow> T < cr_expires r" if r: "r \<in> set t'" "eq (cr_name r) nm" for r
  proof
    show "T < cr_expires r" if "r \<in> set rows"
      using levels_live [OF assms(7) [unfolded lookup_def] _ that] by (simp add: first_level_def)
    assume live: "T < cr_expires r"
    then have "r \<in> set (run_steps eq later t')" using record_stays [OF assms(5) _ r(1)] by simp
    then have "r \<in> set (first_level eq T nm (run_steps eq later t'))" using live r(2) by (simp add: first_level_def)
    then show "r \<in> set rows" using levels_prefix [OF assms(7) [unfolded lookup_def]] by blast
  qed
  show ?thesis
  proof (cases "\<exists>r\<in>set t. eq (cr_name r) nm \<and> eq (cr_value r) val \<and> now \<le> cr_expires r")
    case True
    then obtain r where "r \<in> set t" "eq (cr_name r) nm" "eq (cr_value r) val" "now \<le> cr_expires r" by blast
    then show ?thesis using found [of r] t' True by (intro exI [of _ r]) (auto simp: insert_absent_def)
  next
    case False
    then have "?new \<in> set t'" unfolding t' insert_absent_def by auto
    then show ?thesis using found [of ?new] collates_refl [OF assms(1)] False by (intro exI [of _ ?new]) auto
  qed
qed

theorem cached_record_found_witness:
  "lookup (=) 50 (Suc (Suc 0)) [97] (run_steps (=) [(Delete_Expired [97], 40, 40)]
      (run_step (=) (rr_statements (example_rr 60) ! 1, 2, 3) [])) = Some [new_record 3 [97] [49] 60 1 1] \<and>
   (\<exists>r. cr_name r = [97] \<and> cr_value r = [49] \<and> (r \<in> set [new_record 3 [97] [49] 60 1 1] \<longleftrightarrow> 50 < cr_expires r) \<and> cr_expires r = 63)"
proof -
  have l: "lookup (=) 50 (Suc (Suc 0)) [97] (run_steps (=) [(Delete_Expired [97], 40, 40)]
      (run_step (=) (rr_statements (example_rr 60) ! 1, 2, 3) [])) = Some [new_record 3 [97] [49] 60 1 1]"
    by code_simp
  obtain r where "cr_name r = [97]" "cr_value r = [49]" "r \<in> set [new_record 3 [97] [49] 60 1 1] \<longleftrightarrow> 50 < cr_expires r" "cr_expires r = 63"
    using cached_record_found [where eq = "(=)" and rr = "example_rr 60" and nm = "[97]" and val = "[49]" and t = "[]" and now = 2 and now' = 3, OF _ _ _ _ _ refl l]
    by (auto simp: collates_def identity_equivp example_rr_def cstr_def new_record_def)
  then show ?thesis using l by blast
qed

text \<open>
  Aliases that lead back to each other make every query that reaches them fail, whatever number of levels
  the data source allows.
\<close>

theorem alias_cycle_fails:
  assumes "alias_cycle eq now t C" and "r \<in> C" and "eq (cr_name r) nm"
  shows "lookup eq now limit nm t = None"
proof -
  have "r \<in> set (first_level eq now nm t)" using assms by (auto simp: alias_cycle_def first_level_def)
  then show ?thesis unfolding lookup_def using assms(1,2) levels_cycle by blast
qed

theorem alias_cycle_fails_witness:
  "lookup (=) 0 100 [97] [new_record 0 [97] [98] 60 5 1, new_record 0 [98] [97] 60 5 1] = None"
  by (rule alias_cycle_fails [where C = "{new_record 0 [97] [98] 60 5 1, new_record 0 [98] [97] 60 5 1}" and r = "new_record 0 [97] [98] 60 5 1"])
    (auto simp: alias_cycle_def new_record_def)

text \<open>A query over aliases with a falling rank returns, and gives only records that have not expired.\<close>

lemma lookup_returns:
  assumes "\<And>r x. r \<in> set t \<Longrightarrow> x \<in> set t \<Longrightarrow> eq (cr_name r) (cr_value x) \<Longrightarrow> rank r < (rank x :: nat)"
    and "\<forall>x\<in>set t. rank x < limit"
  shows "\<exists>rows. lookup eq now limit nm t = Some rows \<and> (\<forall>r\<in>set rows. now < cr_expires r)"
proof -
  have "levels eq now t limit (first_level eq now nm t) \<noteq> None"
    using assms(2) by (intro levels_rank [where rank = rank, OF assms(1)]) (auto simp: first_level_def)
  then obtain rows where "lookup eq now limit nm t = Some rows" by (auto simp: lookup_def)
  moreover have "\<forall>r\<in>set (first_level eq now nm t). now < cr_expires r" by (simp add: first_level_def)
  ultimately show ?thesis using levels_live unfolding lookup_def by blast
qed

end
