(* ===== verification/LogText.thy ===== *)
theory LogText
  imports Effects "HOL-Library.List_Lexorder"
begin

text \<open>
  Strings of the logging library (\<open>log4cxx\<close>): the parts of \<open>std::basic_string\<close> and \<open>std::map\<close> it
  uses, \<open>StringHelper\<close> (\<open>stringhelper.cpp\<close>), \<open>StringTokenizer\<close> (\<open>stringtokenizer.cpp\<close>) and the
  levels of log events (\<open>level.cpp\<close>). In this build \<open>logchar\<close> is \<open>wchar_t\<close>, which has 16 bits.
\<close>

section \<open>Strings\<close>

type_synonym logchar = "16 word"
type_synonym LogString = "logchar list"

text \<open>A literal \<open>LOG4CXX_STR("...")\<close> as a string, and as the array with its terminator.\<close>

definition LS :: "string \<Rightarrow> LogString" where
  "LS s = map of_char s"

definition LZ :: "string \<Rightarrow> LogString" where
  "LZ s = LS s @ [0]"

text \<open>
  Positions are natural numbers, and \<open>npos\<close> is \<open>None\<close>. A \<open>substr\<close> that starts behind the end would
  throw; no call in the modelled code does.
\<close>

definition find_str :: "'a list \<Rightarrow> 'a list \<Rightarrow> nat \<Rightarrow> nat option" where
  "find_str p s i = List.find (\<lambda>j. take (length p) (drop j s) = p) [i..<Suc (length s)]"

definition find_first_of :: "'a list \<Rightarrow> 'a list \<Rightarrow> nat \<Rightarrow> nat option" where
  "find_first_of cs s i = List.find (\<lambda>j. s ! j \<in> set cs) [i..<length s]"

definition find_first_not_of :: "'a list \<Rightarrow> 'a list \<Rightarrow> nat \<Rightarrow> nat option" where
  "find_first_not_of cs s i = List.find (\<lambda>j. s ! j \<notin> set cs) [i..<length s]"

definition find_last_of :: "'a list \<Rightarrow> 'a list \<Rightarrow> nat option \<Rightarrow> nat option" where
  "find_last_of cs s i = List.find (\<lambda>j. s ! j \<in> set cs)
     (rev [0..<(case i of None \<Rightarrow> length s | Some i \<Rightarrow> min (Suc i) (length s))])"

definition find_last_not_of :: "'a list \<Rightarrow> 'a list \<Rightarrow> nat option" where
  "find_last_not_of cs s = List.find (\<lambda>j. s ! j \<notin> set cs) (rev [0..<length s])"

definition substr :: "'a list \<Rightarrow> nat \<Rightarrow> nat \<Rightarrow> 'a list" where
  "substr s i n = take n (drop i s)"

text \<open>The position before \<open>i\<close>: the unsigned \<open>i - 1\<close> is \<open>npos\<close> for 0.\<close>

definition pos_before :: "nat \<Rightarrow> nat option" where
  "pos_before i = (if i = 0 then None else Some (i - 1))"

section \<open>std::map\<close>

text \<open>A \<open>std::map\<close> as the list of its entries in the order of the keys, which is the order of iteration.\<close>

type_synonym ('k, 'v) std_map = "('k \<times> 'v) list"

fun map_put :: "'k::linorder \<Rightarrow> 'v \<Rightarrow> ('k, 'v) std_map \<Rightarrow> ('k, 'v) std_map" where
  "map_put k v [] = [(k, v)]"
| "map_put k v ((k', v') # m) =
     (if k < k' then (k, v) # (k', v') # m else if k = k' then (k, v) # m else (k', v') # map_put k v m)"

fun map_erase :: "'k \<Rightarrow> ('k, 'v) std_map \<Rightarrow> ('k, 'v) std_map" where
  "map_erase k [] = []"
| "map_erase k ((k', v') # m) = (if k = k' then map_erase k m else (k', v') # map_erase k m)"

definition map_ok :: "('k::linorder, 'v) std_map \<Rightarrow> bool" where
  "map_ok m = sorted_wrt (<) (map fst m)"

lemma map_of_put [simp]: "map_of (map_put k v m) = (map_of m)(k \<mapsto> v)"
  by (induction k v m rule: map_put.induct) (auto simp: fun_eq_iff)

lemma map_of_erase [simp]: "map_of (map_erase k m) = (map_of m)(k := None)"
  by (induction k m rule: map_erase.induct) (auto simp: fun_eq_iff)

lemma keys_put [simp]: "fst ` set (map_put k v m) = insert k (fst ` set m)"
  by (induction k v m rule: map_put.induct) (simp_all add: insert_commute)

lemma map_erase_filter: "map_erase k m = filter (\<lambda>e. fst e \<noteq> k) m"
  by (induction k m rule: map_erase.induct) auto

lemma map_ok_empty [simp]: "map_ok []"
  by (simp add: map_ok_def)

lemma map_ok_put [simp]: "map_ok m \<Longrightarrow> map_ok (map_put k v m)"
proof (induction m)
  case (Cons e m)
  obtain k' v' where e: "e = (k', v')" by (cases e)
  have keys: "fst ` set (map_put k v m) = insert k (fst ` set m)" by simp
  from Cons have "map_ok (map_put k v m)" by (simp add: map_ok_def)
  with Cons.prems keys show ?case
    by (auto simp: e map_ok_def image_iff dest: less_trans)
qed (simp add: map_ok_def)

lemma map_ok_erase [simp]: "map_ok m \<Longrightarrow> map_ok (map_erase k m)"
  unfolding map_ok_def map_erase_filter by (induction m) auto

text \<open>
  What the clients of a dictionary rely on. A later entry for a key replaces an earlier one, so that
  after a sequence of entries the last one for the key counts.
\<close>

locale dictionary =
  fixes lookup :: "'m \<Rightarrow> 'k \<Rightarrow> 'v option"
    and put :: "'k \<Rightarrow> 'v \<Rightarrow> 'm \<Rightarrow> 'm"
  assumes lookup_put: "lookup (put k v m) k' = (if k' = k then Some v else lookup m k')"
begin

lemma lookup_puts:
  "lookup (fold (\<lambda>(k, v). put k v) kvs m) k =
     (case map_of (rev kvs) k of None \<Rightarrow> lookup m k | Some v \<Rightarrow> Some v)"
  by (induction kvs arbitrary: m) (auto simp: lookup_put map_add_def split: option.splits)

lemma lookup_puts_distinct:
  assumes "distinct (map fst kvs)" and "(k, v) \<in> set kvs"
  shows "lookup (fold (\<lambda>(k, v). put k v) kvs m) k = Some v"
proof -
  have "map_of (rev kvs) k = Some v"
    using assms by (intro map_of_is_SomeI) (simp_all add: distinct_map)
  then show ?thesis by (simp add: lookup_puts)
qed

end

interpretation std_map_dict: dictionary map_of "map_put :: 'k::linorder \<Rightarrow> 'v \<Rightarrow> ('k, 'v) std_map \<Rightarrow> _"
  by unfold_locales simp

section \<open>StringHelper\<close>

text \<open>
  The first overload of \<open>equalsIgnoreCase\<close> walks over two arrays, which are given with their
  terminators; reading behind an array is undefined.
\<close>

fun equalsIgnoreCase :: "LogString \<Rightarrow> logchar list \<Rightarrow> logchar list \<Rightarrow> bool run" where
  "equalsIgnoreCase [] (u # us) ls = ret (u = 0)"
| "equalsIgnoreCase (c # cs) (u # us) (l # ls) =
     (if c \<noteq> u \<and> c \<noteq> l then ret False else equalsIgnoreCase cs us ls)"
| "equalsIgnoreCase s us ls = crash Read_Out_Of_Bounds"

fun equalsIgnoreCaseLS :: "LogString \<Rightarrow> LogString \<Rightarrow> LogString \<Rightarrow> bool" where
  "equalsIgnoreCaseLS (c # cs) (u # us) (l # ls) =
     (if c \<noteq> u \<and> c \<noteq> l then False else equalsIgnoreCaseLS cs us ls)"
| "equalsIgnoreCaseLS s us ls = (us = [] \<and> s = [])"

text \<open>\<open>tolower\<close> in the \<open>"C"\<close> locale.\<close>

definition tolower :: "logchar \<Rightarrow> logchar" where
  "tolower c = (if 0x41 \<le> c \<and> c \<le> 0x5A then c + 0x20 else c)"

definition toLowerCase :: "LogString \<Rightarrow> LogString" where
  "toLowerCase s = map tolower s"

definition trim :: "LogString \<Rightarrow> LogString" where
  "trim s = (case find_first_not_of [0x20] s 0 of
       None \<Rightarrow> []
     | Some pos \<Rightarrow> (case find_last_not_of [0x20] s of
         None \<Rightarrow> []
       | Some l \<Rightarrow> substr s pos (l - pos + 1)))"

definition startsWith :: "LogString \<Rightarrow> LogString \<Rightarrow> bool" where
  "startsWith s prefix = (take (length prefix) s = prefix)"

definition endsWith :: "LogString \<Rightarrow> LogString \<Rightarrow> bool" where
  "endsWith s suffix = (if length suffix \<le> length s
     then substr s (length s - length suffix) (length suffix) = suffix else False)"

text \<open>
  \<open>apr_itoa\<close> (\<open>apr_strings.c\<close>): the digits are written from the last to the first. \<open>int\<close> has 32
  bits, so that the negation of the least one is itself, and its remainders are negative.
\<close>

definition negate_int :: "int \<Rightarrow> int" where
  "negate_int n = (if n = - (2 ^ 31) then n else - n)"

function itoa_digits :: "int \<Rightarrow> byte list \<Rightarrow> byte list" where
  "itoa_digits n start =
     (let start = (0x30 + word_of_int (n - 10 * (sgn n * (\<bar>n\<bar> div 10)))) # start; n = sgn n * (\<bar>n\<bar> div 10)
      in if n = 0 then start else itoa_digits n start)"
  by pat_completeness auto

termination
  by (relation "measure (\<lambda>(n, start). nat \<bar>n\<bar>)") (auto simp: abs_mult sgn_if split: if_splits)

definition apr_itoa :: "int \<Rightarrow> byte list" where
  "apr_itoa n = (if n < 0 then 0x2D # itoa_digits (negate_int n) [] else itoa_digits n [])"

text \<open>The characters of a decimal number are below 0x80, and \<open>Transcoder::decode\<close> copies them.\<close>

definition toString_int :: "int \<Rightarrow> LogString" where
  "toString_int n = map ucast (apr_itoa n)"

definition toString_bool :: "bool \<Rightarrow> LogString" where
  "toString_bool val = (if val then LS ''true'' else LS ''false'')"

text \<open>
  The conversions to \<open>int\<close> keep the low 32 bits. \<open>append\<close> throws \<open>std::length_error\<close> for the number
  of zeros that the unsigned difference is when the remainder has more than nine characters.
\<close>

definition to_int32 :: "int \<Rightarrow> int" where
  "to_int32 n = sint (word_of_int n :: 32 word)"

definition toString_int64 :: "int \<Rightarrow> LogString run" where
  "toString_int64 n =
     (if - (2 ^ 31) \<le> n \<and> n \<le> 2 ^ 31 - 1 then ret (toString_int (to_int32 n))
      else let billions = to_int32 (sgn n * (\<bar>n\<bar> div 1000000000));
               upper = apr_itoa billions;
               remain = to_int32 (n - billions * 1000000000);
               remain = (if remain < 0 then to_int32 (remain * -1) else remain);
               lower = apr_itoa remain
           in if length lower \<le> 9
              then ret (map ucast upper @ replicate (9 - length lower) 0x30 @ map ucast lower)
              else raise (Exception ''string too long''))"

text \<open>
  \<open>format\<close>: \<open>{0}\<close> to \<open>{9}\<close> stand for the parameters. The element at the end of a string is 0, so the
  loop ends there; the vector's \<open>operator[]\<close> does not check its index.
\<close>

definition char_at :: "LogString \<Rightarrow> nat \<Rightarrow> logchar" where
  "char_at s i = (if i < length s then s ! i else 0)"

function format_loop :: "LogString \<Rightarrow> LogString list \<Rightarrow> nat \<Rightarrow> LogString \<Rightarrow> LogString run" where
  "format_loop pattern params i result =
     (if length pattern \<le> i \<or> pattern ! i = 0 then ret result
      else if pattern ! i = 0x7B \<and> 0x30 \<le> char_at pattern (i + 1) \<and> char_at pattern (i + 1) \<le> 0x39
              \<and> char_at pattern (i + 2) = 0x7D
      then let arg = unat (char_at pattern (i + 1) - 0x30) in
           if arg < length params then format_loop pattern params (i + 3) (result @ params ! arg)
           else crash Read_Out_Of_Bounds
      else format_loop pattern params (i + 1) (result @ [pattern ! i]))"
  by pat_completeness auto

termination
  by (relation "measure (\<lambda>(pattern, params, i, result). length pattern - i)") auto

definition format :: "LogString \<Rightarrow> LogString list \<Rightarrow> LogString run" where
  "format pattern params = format_loop pattern params 0 []"

declare itoa_digits.simps [simp del] format_loop.simps [simp del]

section \<open>StringTokenizer\<close>

text \<open>The object: the text, the delimiters and the position, which is \<open>npos\<close> behind the last token.\<close>

record StringTokenizer =
  st_src :: LogString
  st_delim :: LogString
  st_pos :: "nat option"

definition StringTokenizer_ctor :: "LogString \<Rightarrow> LogString \<Rightarrow> StringTokenizer" where
  "StringTokenizer_ctor str delim1 = \<lparr>st_src = str, st_delim = delim1, st_pos = Some 0\<rparr>"

definition hasMoreTokens :: "StringTokenizer \<Rightarrow> bool" where
  "hasMoreTokens st = (case st_pos st of None \<Rightarrow> False
     | Some p \<Rightarrow> find_first_not_of (st_delim st) (st_src st) p \<noteq> None)"

definition NoSuchElementException :: error where
  "NoSuchElementException = Exception ''NoSuchElementException''"

definition nextToken :: "StringTokenizer \<Rightarrow> (LogString \<times> StringTokenizer) run" where
  "nextToken st = (case st_pos st of None \<Rightarrow> raise NoSuchElementException
     | Some p \<Rightarrow> (case find_first_not_of (st_delim st) (st_src st) p of
         None \<Rightarrow> raise NoSuchElementException
       | Some nextPos \<Rightarrow> (case find_first_of (st_delim st) (st_src st) nextPos of
           None \<Rightarrow> ret (drop nextPos (st_src st), st\<lparr>st_pos := None\<rparr>)
         | Some p' \<Rightarrow> ret (substr (st_src st) nextPos (p' - nextPos), st\<lparr>st_pos := Some p'\<rparr>))))"

section \<open>Level\<close>

text \<open>A level object; a \<open>LevelPtr\<close> that may be null is an option of it.\<close>

record Level =
  level_int :: int
  level_name :: LogString
  syslogEquivalent :: int

definition OFF_INT :: int where "OFF_INT = 2 ^ 31 - 1"
definition FATAL_INT :: int where "FATAL_INT = 50000"
definition ERROR_INT :: int where "ERROR_INT = 40000"
definition WARN_INT :: int where "WARN_INT = 30000"
definition INFO_INT :: int where "INFO_INT = 20000"
definition DEBUG_INT :: int where "DEBUG_INT = 10000"
definition TRACE_INT :: int where "TRACE_INT = 5000"
definition ALL_INT :: int where "ALL_INT = - (2 ^ 31)"

definition getOff :: Level where "getOff = \<lparr>level_int = OFF_INT, level_name = LS ''OFF'', syslogEquivalent = 0\<rparr>"
definition getFatal :: Level where "getFatal = \<lparr>level_int = FATAL_INT, level_name = LS ''FATAL'', syslogEquivalent = 0\<rparr>"
definition getError :: Level where "getError = \<lparr>level_int = ERROR_INT, level_name = LS ''ERROR'', syslogEquivalent = 3\<rparr>"
definition getWarn :: Level where "getWarn = \<lparr>level_int = WARN_INT, level_name = LS ''WARN'', syslogEquivalent = 4\<rparr>"
definition getInfo :: Level where "getInfo = \<lparr>level_int = INFO_INT, level_name = LS ''INFO'', syslogEquivalent = 6\<rparr>"
definition getDebug :: Level where "getDebug = \<lparr>level_int = DEBUG_INT, level_name = LS ''DEBUG'', syslogEquivalent = 7\<rparr>"
definition getTrace :: Level where "getTrace = \<lparr>level_int = TRACE_INT, level_name = LS ''TRACE'', syslogEquivalent = 7\<rparr>"
definition getAll :: Level where "getAll = \<lparr>level_int = ALL_INT, level_name = LS ''ALL'', syslogEquivalent = 7\<rparr>"

definition toLevel_int :: "int \<Rightarrow> Level option \<Rightarrow> Level option" where
  "toLevel_int val defaultLevel =
     (if val = ALL_INT then Some getAll
      else if val = DEBUG_INT then Some getDebug
      else if val = TRACE_INT then Some getTrace
      else if val = INFO_INT then Some getInfo
      else if val = WARN_INT then Some getWarn
      else if val = ERROR_INT then Some getError
      else if val = FATAL_INT then Some getFatal
      else if val = OFF_INT then Some getOff
      else defaultLevel)"

definition toLevelLS :: "LogString \<Rightarrow> Level option \<Rightarrow> Level option run" where
  "toLevelLS sArg defaultLevel =
     (let eq = \<lambda>u l. equalsIgnoreCase sArg (LZ u) (LZ l) in
      if length sArg = 4 then
        bind_run (eq ''INFO'' ''info'') (\<lambda>b. if b then ret (Some getInfo) else
        bind_run (eq ''WARN'' ''warn'') (\<lambda>b. if b then ret (Some getWarn) else
        ret defaultLevel))
      else if length sArg = 5 then
        bind_run (eq ''DEBUG'' ''debug'') (\<lambda>b. if b then ret (Some getDebug) else
        bind_run (eq ''TRACE'' ''trace'') (\<lambda>b. if b then ret (Some getTrace) else
        bind_run (eq ''ERROR'' ''error'') (\<lambda>b. if b then ret (Some getError) else
        bind_run (eq ''FATAL'' ''fatal'') (\<lambda>b. if b then ret (Some getFatal) else
        ret defaultLevel))))
      else if length sArg = 3 then
        bind_run (eq ''OFF'' ''off'') (\<lambda>b. if b then ret (Some getOff) else
        bind_run (eq ''ALL'' ''all'') (\<lambda>b. if b then ret (Some getAll) else
        ret defaultLevel))
      else ret defaultLevel)"

definition isGreaterOrEqual :: "Level \<Rightarrow> Level \<Rightarrow> bool" where
  "isGreaterOrEqual l level1 = (level_int level1 \<le> level_int l)"

section \<open>Facts about strings\<close>

lemma LS_simps [simp]: "LS [] = []" "LS (c # cs) = of_char c # LS cs" "length (LS s) = length s"
  by (simp_all add: LS_def)

lemma find_upt:
  "List.find (\<lambda>j. P (s ! j)) [i..<length s] =
     (if dropWhile (\<lambda>x. \<not> P x) (drop i s) = [] then None
      else Some (i + length (takeWhile (\<lambda>x. \<not> P x) (drop i s))))"
proof (induction "length s - i" arbitrary: i)
  case (Suc n)
  then have i: "i < length s" by simp
  have "drop i s = s ! i # drop (Suc i) s" using i by (simp add: Cons_nth_drop_Suc)
  then show ?case using Suc(1) [of "Suc i"] Suc(2) i by (auto simp: upt_conv_Cons)
qed simp

lemma find_first_of_eq:
  "find_first_of cs s i =
     (if dropWhile (\<lambda>x. x \<notin> set cs) (drop i s) = [] then None
      else Some (i + length (takeWhile (\<lambda>x. x \<notin> set cs) (drop i s))))"
  unfolding find_first_of_def using find_upt [of "\<lambda>x. x \<in> set cs" s i] by simp

lemma find_first_not_of_eq:
  "find_first_not_of cs s i =
     (if dropWhile (\<lambda>x. x \<in> set cs) (drop i s) = [] then None
      else Some (i + length (takeWhile (\<lambda>x. x \<in> set cs) (drop i s))))"
  unfolding find_first_not_of_def using find_upt [of "\<lambda>x. x \<notin> set cs" s i] by simp

lemma find_first: "List.find P xs = (case dropWhile (\<lambda>x. \<not> P x) xs of [] \<Rightarrow> None | x # _ \<Rightarrow> Some x)"
  by (induction xs) auto

text \<open>The first occurrence, in terms of what is before and behind it.\<close>

lemma find_str_None_iff: "find_str p s i = None \<longleftrightarrow> (\<forall>j\<ge>i. j \<le> length s \<longrightarrow> take (length p) (drop j s) \<noteq> p)"
  by (auto simp: find_str_def find_None_iff)

lemma find_str_Some_iff:
  "find_str p s i = Some j \<longleftrightarrow> i \<le> j \<and> j \<le> length s \<and> take (length p) (drop j s) = p \<and>
     (\<forall>k. i \<le> k \<and> k < j \<longrightarrow> take (length p) (drop k s) \<noteq> p)"
proof
  assume "find_str p s i = Some j"
  then obtain n where n: "n < length [i..<Suc (length s)]" "take (length p) (drop j s) = p"
      "[i..<Suc (length s)] ! n = j" "\<forall>k<n. take (length p) (drop ([i..<Suc (length s)] ! k) s) \<noteq> p"
    unfolding find_str_def find_Some_iff by auto
  have "take (length p) (drop k s) \<noteq> p" if "i \<le> k" "k < j" for k
  proof -
    have "n = j - i" using n(1,3) by (auto simp del: upt_Suc)
    then have "k - i < n" using that by simp
    moreover have "[i..<Suc (length s)] ! (k - i) = k" using that n(1) \<open>n = j - i\<close> by (auto simp del: upt_Suc)
    ultimately show ?thesis using n(4) by metis
  qed
  then show "i \<le> j \<and> j \<le> length s \<and> take (length p) (drop j s) = p \<and>
     (\<forall>k. i \<le> k \<and> k < j \<longrightarrow> take (length p) (drop k s) \<noteq> p)"
    using n by (auto simp del: upt_Suc)
next
  assume *: "i \<le> j \<and> j \<le> length s \<and> take (length p) (drop j s) = p \<and>
     (\<forall>k. i \<le> k \<and> k < j \<longrightarrow> take (length p) (drop k s) \<noteq> p)"
  show "find_str p s i = Some j"
    unfolding find_str_def find_Some_iff
    by (rule exI [of _ "j - i"]) (use * in \<open>auto simp del: upt_Suc\<close>)
qed

lemma find_str_SomeD:
  assumes "find_str p s i = Some j"
  shows "i \<le> j \<and> j + length p \<le> length s \<and> take (length p) (drop j s) = p"
proof -
  have *: "i \<le> j" "j \<le> length s" "take (length p) (drop j s) = p" using assms by (auto simp: find_str_Some_iff)
  have "length p \<le> length s - j" using arg_cong [OF *(3), of length] by (simp add: min_def split: if_splits)
  then show ?thesis using * by (auto simp: le_diff_conv2 add.commute)
qed

text \<open>\<open>trim\<close> removes the spaces at both ends and nothing else.\<close>

lemma trim_eq: "trim s = rev (dropWhile (\<lambda>c. c = 0x20) (rev (dropWhile (\<lambda>c. c = 0x20) s)))"
proof -
  let ?sp = "\<lambda>c :: logchar. c = 0x20"
  define t where "t = dropWhile ?sp s"
  have s: "s = takeWhile ?sp s @ t" by (simp add: t_def)
  show ?thesis
  proof (cases "t = []")
    case True
    then show ?thesis by (simp add: trim_def find_first_not_of_eq t_def del: dropWhile_eq_Nil_conv)
  next
    case False
    define u where "u = rev (dropWhile ?sp (rev t))"
    define n where "n = length (takeWhile ?sp s)"
    have "\<not> ?sp (hd t)" using False unfolding t_def by (rule hd_dropWhile)
    then have u: "u \<noteq> []" using False by (cases t) (auto simp: u_def dropWhile_append)
    have t: "t = u @ rev (takeWhile ?sp (rev t))"
      unfolding u_def by (metis rev_append rev_rev_ident takeWhile_dropWhile_id)
    have first: "find_first_not_of [0x20] s 0 = Some n"
      using False by (simp add: find_first_not_of_eq t_def n_def)
    obtain m where lu: "length u = Suc m" using u by (cases u) auto
    have last: "\<not> ?sp (last u)" using u hd_dropWhile [of ?sp "rev t"] by (simp add: u_def last_rev del: dropWhile_eq_Nil_conv)
    have "List.find (\<lambda>j. s ! j \<notin> set [0x20]) (rev [0..<length s]) = Some (n + m)"
    proof -
      define z where "z = takeWhile ?sp (rev t)"
      have sz: "s = takeWhile ?sp s @ u @ rev z" using s t z_def by metis
      have l: "length s = n + length u + length z" by (subst sz) (simp add: n_def)
      have zs: "\<forall>c\<in>set z. c = 0x20" by (auto simp: z_def dest: set_takeWhileD)
      have tail: "s ! j = 0x20" if "n + length u \<le> j" "j < length s" for j
      proof -
        have "s ! j = rev z ! (j - n - length u)" using that by (subst sz) (auto simp: nth_append n_def)
        also have "\<dots> \<in> set (rev z)" using that l by (intro nth_mem) auto
        finally show ?thesis using zs by auto
      qed
      have at: "s ! (n + m) = last u"
        using u lu by (subst sz) (auto simp: nth_append n_def last_conv_nth)
      show ?thesis
        unfolding find_Some_iff
        by (rule exI [of _ "length z"])
          (use l lu at last tail in \<open>auto simp: rev_nth simp del: upt_Suc\<close>)
    qed
    then have "find_last_not_of [0x20] s = Some (n + m)" by (simp add: find_last_not_of_def)
    then have "trim s = take (length u) (drop n s)" using lu by (simp add: trim_def first substr_def)
    also have "\<dots> = u" using t by (metis append_eq_conv_conj dropWhile_eq_drop n_def t_def)
    finally show ?thesis by (simp add: u_def t_def)
  qed
qed

subsection \<open>Decimal numbers\<close>

definition signed_dec :: "int \<Rightarrow> byte list" where
  "signed_dec n = (if n < 0 then 0x2D # dec_digits (nat (- n)) else dec_digits (nat n))"

lemma itoa_digits_nat: "itoa_digits (int m) start = dec_digits m @ start"
proof (induction m arbitrary: start rule: dec_digits.induct)
  case (1 m)
  have r: "int m - 10 * int (m div 10) = int (m mod 10)"
    by (simp add: zdiv_int zmod_int minus_mult_div_eq_mod)
  have d: "sgn (int m) * (\<bar>int m\<bar> div 10) = int (m div 10)"
    by (cases "m = 0") (simp_all add: zdiv_int)
  have "itoa_digits (int m) start = (if m div 10 = 0 then (0x30 + of_nat (m mod 10)) # start
      else itoa_digits (int (m div 10)) ((0x30 + of_nat (m mod 10)) # start))"
    by (subst itoa_digits.simps, simp only: Let_def d r, simp)
  then show ?case using 1 by (subst dec_digits.simps) (simp add: div_eq_0_iff)
qed

lemma apr_itoa_eq:
  assumes "- (2 ^ 31) < n"
  shows "apr_itoa n = signed_dec n"
proof (cases "n < 0")
  case True
  then have "itoa_digits (negate_int n) [] = dec_digits (nat (- n))"
    using assms itoa_digits_nat [of "nat (- n)" "[]"] by (simp add: negate_int_def)
  then show ?thesis using True by (simp add: apr_itoa_def signed_dec_def)
next
  case False
  then show ?thesis using itoa_digits_nat [of "nat n" "[]"] by (simp add: apr_itoa_def signed_dec_def)
qed

lemma to_int32_id: "- (2 ^ 31) \<le> n \<Longrightarrow> n < 2 ^ 31 \<Longrightarrow> to_int32 n = n"
  by (simp add: to_int32_def signed_of_int signed_take_bit_int_eq_self)

text \<open>The digits of a number that is split at a power of ten.\<close>

lemma dec_digits_split:
  assumes "0 < b" and "r < 10 ^ k" and "0 < k"
  shows "length (dec_digits r) \<le> k \<and>
     dec_digits (b * 10 ^ k + r) = dec_digits b @ replicate (k - length (dec_digits r)) 0x30 @ dec_digits r"
  using assms(2,3)
proof (induction k arbitrary: r)
  case (Suc k)
  have split: "dec_digits (b * 10 ^ Suc k + r) = dec_digits (b * 10 ^ k + r div 10) @ [0x30 + of_nat (r mod 10)]"
  proof -
    have "10 \<le> b * 10 ^ Suc k" using assms(1) by simp
    then have "\<not> b * 10 ^ Suc k + r < 10" by linarith
    moreover have "(b * 10 ^ Suc k + r) div 10 = b * 10 ^ k + r div 10" "(b * 10 ^ Suc k + r) mod 10 = r mod 10"
    proof -
      define x where "x = b * 10 ^ k"
      have x: "b * 10 ^ Suc k = 10 * x" by (simp add: x_def)
      show "(b * 10 ^ Suc k + r) div 10 = b * 10 ^ k + r div 10" "(b * 10 ^ Suc k + r) mod 10 = r mod 10"
        unfolding x unfolding x_def [symmetric] by simp_all
    qed
    ultimately show ?thesis by (subst dec_digits.simps) simp
  qed
  show ?case
  proof (cases "k = 0")
    case True
    then have r: "r < 10" using Suc(2) by simp
    then have "dec_digits r = [0x30 + of_nat r]" by (subst dec_digits.simps) simp
    then show ?thesis using split True r by simp
  next
    case False
    have "r div 10 < 10 ^ k" using Suc(2) by (simp add: less_mult_imp_div_less mult.commute)
    with Suc(1) False have IH: "length (dec_digits (r div 10)) \<le> k"
      "dec_digits (b * 10 ^ k + r div 10) =
         dec_digits b @ replicate (k - length (dec_digits (r div 10))) 0x30 @ dec_digits (r div 10)" by auto
    show ?thesis
    proof (cases "r < 10")
      case True
      have z: "dec_digits (0::nat) = [0x30]" by (subst dec_digits.simps) simp
      have "dec_digits r = [0x30 + of_nat r]" using True by (subst dec_digits.simps) simp
      moreover have "replicate (k - Suc 0) (0x30 :: byte) @ [0x30, 0x30 + of_nat r] = replicate k 0x30 @ [0x30 + of_nat r]"
        using False by (metis Suc_pred append.assoc append_Cons append_Nil not_gr_zero replicate_Suc replicate_append_same)
      ultimately show ?thesis using split IH z True by simp
    next
      case r: False
      then have "dec_digits r = dec_digits (r div 10) @ [0x30 + of_nat (r mod 10)]" by (subst dec_digits.simps) simp
      then show ?thesis using split IH by simp
    qed
  qed
qed simp

lemma toString_int64_eq:
  assumes "- (2 ^ 31 * 10 ^ 9) < n" and "n < 2 ^ 31 * 10 ^ 9" and "n \<noteq> - (2 ^ 31)"
  shows "toString_int64 n = ret (map ucast (signed_dec n))"
proof (cases "- (2 ^ 31) \<le> n \<and> n \<le> 2 ^ 31 - 1")
  case True
  then have "to_int32 n = n" by (intro to_int32_id) auto
  then show ?thesis using True assms(3) by (simp add: toString_int64_def toString_int_def apr_itoa_eq)
next
  case False
  define m where "m = nat \<bar>n\<bar>"
  define b r where "b = m div 1000000000" and "r = m mod 1000000000"
  have m: "m = b * 10 ^ 9 + r" by (simp add: b_def r_def)
  have m_int: "\<bar>n\<bar> = int m" by (simp add: m_def)
  have b0: "0 < b" using False by (auto simp: b_def m_def div_greater_zero_iff)
  have bl: "int b < 2 ^ 31" using assms(1,2) unfolding b_def m_def by (auto simp: less_mult_imp_div_less)
  have rl: "r < 10 ^ 9" by (simp add: r_def)
  have nb: "sgn n * (\<bar>n\<bar> div 1000000000) = sgn n * int b" by (simp add: m_int b_def zdiv_int)
  have n: "n = sgn n * int m" by (simp add: m_int [symmetric] sgn_mult_abs)
  have s: "sgn n = 1 \<or> sgn n = - 1" using False by (auto simp: sgn_if)
  have billions: "to_int32 (sgn n * (\<bar>n\<bar> div 1000000000)) = sgn n * int b"
    unfolding nb by (rule to_int32_id) (use s bl in auto)
  have rest: "n - sgn n * int b * 1000000000 = sgn n * int r"
    by (subst n) (use s m in auto)
  have ri: "int r < 2 ^ 31" using rl by simp
  have remain: "to_int32 (n - sgn n * int b * 1000000000) = sgn n * int r"
    unfolding rest by (rule to_int32_id) (use s ri in auto)
  have low: "(if sgn n * int r < 0 then to_int32 (sgn n * int r * - 1) else sgn n * int r) = int r"
    using s ri by (auto simp: to_int32_id)
  have lower: "apr_itoa (int r) = dec_digits r" by (subst apr_itoa_eq) (simp_all add: signed_dec_def)
  have upper: "apr_itoa (sgn n * int b) = (if n < 0 then [0x2D] else []) @ dec_digits b"
    by (subst apr_itoa_eq) (use s b0 bl in \<open>auto simp: signed_dec_def sgn_if split: if_splits\<close>)
  note digits = dec_digits_split [OF b0 rl]
  have "signed_dec n = (if n < 0 then [0x2D] else []) @ dec_digits m"
    by (simp add: signed_dec_def m_def)
  also have "dec_digits m = dec_digits b @ replicate (9 - length (dec_digits r)) 0x30 @ dec_digits r"
    using digits by (simp add: m)
  finally have "signed_dec n = apr_itoa (sgn n * int b) @ replicate (9 - length (dec_digits r)) 0x30 @ dec_digits r"
    by (simp add: upper)
  then show ?thesis
    using False digits unfolding toString_int64_def Let_def billions remain low lower
    by auto
qed

subsection \<open>Level names\<close>

definition standard_levels :: "Level list" where
  "standard_levels = [getInfo, getWarn, getDebug, getTrace, getError, getFatal, getOff, getAll]"

lemma tolower_letter:
  fixes u c :: logchar
  assumes "0x41 \<le> u" and "u \<le> 0x5A"
  shows "tolower c = u + 0x20 \<longleftrightarrow> c = u \<or> c = u + 0x20"
proof -
  have v: "\<not> u + 0x20 \<le> 0x5A" using assms by (simp add: word_le_nat_alt unat_word_ariths)
  show ?thesis using v assms by (auto simp: tolower_def)
qed

lemma equalsIgnoreCase_letters:
  assumes "list_all2 (\<lambda>x y. 0x41 \<le> x \<and> x \<le> 0x5A \<and> y = x + 0x20) u l" and "length s = length u"
  shows "equalsIgnoreCase s (u @ [0]) (l @ [0]) = ret (map tolower s = l)"
  using assms
proof (induction u l arbitrary: s rule: list_all2_induct)
  case (Cons x xs y ys)
  then obtain c cs where s: "s = c # cs" by (cases s) auto
  then show ?case using Cons tolower_letter [of x c] by auto
qed simp

lemma equalsIgnoreCase_LZ:
  assumes "list_all2 (\<lambda>x y. 0x41 \<le> x \<and> x \<le> 0x5A \<and> y = x + 0x20) (LS u) (LS l)" and "length s = length u"
  shows "equalsIgnoreCase s (LZ u) (LZ l) = ret (map tolower s = LS l)"
  using equalsIgnoreCase_letters [OF assms(1)] assms(2) by (simp add: LZ_def)

lemma toLevelLS_eq:
  "toLevelLS s d = ret (case List.find (\<lambda>l. toLowerCase (level_name l) = toLowerCase s) standard_levels of
     None \<Rightarrow> d | Some l \<Rightarrow> Some l)"
proof -
  have names: "toLowerCase (level_name l) = toLowerCase s \<longleftrightarrow> map tolower s = toLowerCase (level_name l)" for l
    by (auto simp: toLowerCase_def)
  have low: "toLowerCase (level_name getInfo) = LS ''info''" "toLowerCase (level_name getWarn) = LS ''warn''"
    "toLowerCase (level_name getDebug) = LS ''debug''" "toLowerCase (level_name getTrace) = LS ''trace''"
    "toLowerCase (level_name getError) = LS ''error''" "toLowerCase (level_name getFatal) = LS ''fatal''"
    "toLowerCase (level_name getOff) = LS ''off''" "toLowerCase (level_name getAll) = LS ''all''"
    by (simp_all add: toLowerCase_def tolower_def getInfo_def getWarn_def getDebug_def getTrace_def getError_def
      getFatal_def getOff_def getAll_def)
  have len: "map tolower s = t \<Longrightarrow> length s = length t" for t by auto
  show ?thesis
    unfolding toLevelLS_def Let_def standard_levels_def List.find.simps names low
    by (cases "length s = 4"; cases "length s = 5"; cases "length s = 3")
      (auto simp: equalsIgnoreCase_LZ dest: len)
qed

subsection \<open>Tokens\<close>

text \<open>The tokens of a text: its longest pieces without a delimiter.\<close>

function tokens :: "'a set \<Rightarrow> 'a list \<Rightarrow> 'a list list" where
  "tokens d s = (case dropWhile (\<lambda>x. x \<in> d) s of [] \<Rightarrow> []
     | c # t \<Rightarrow> (c # takeWhile (\<lambda>x. x \<notin> d) t) # tokens d (dropWhile (\<lambda>x. x \<notin> d) t))"
  by pat_completeness auto

termination
proof (relation "measure (\<lambda>(d, s). length s)")
  fix d :: "'a set" and s c t
  assume "dropWhile (\<lambda>x. x \<in> d) s = c # t"
  then have "length (c # t) \<le> length s" by (metis length_dropWhile_le)
  then show "((d, dropWhile (\<lambda>x. x \<notin> d) t), (d, s)) \<in> measure (\<lambda>(d, s). length s)"
    using length_dropWhile_le [of "\<lambda>x. x \<notin> d" t] by simp
qed simp

declare tokens.simps [simp del]

text \<open>
  What a client of a tokenizer relies on: the tokens still to come, and that the next one is the
  first of them. A loop over the tokens then does its work for each of them in order.
\<close>

primrec for_each :: "('a \<Rightarrow> ('s, unit) io) \<Rightarrow> 'a list \<Rightarrow> ('s, unit) io" where
  "for_each f [] = finish ()"
| "for_each f (x # xs) = seq (f x) (\<lambda>_. for_each f xs)"

locale token_source =
  fixes more :: "'t \<Rightarrow> bool"
    and nxt :: "'t \<Rightarrow> ('a \<times> 't) run"
    and remaining :: "'t \<Rightarrow> 'a list"
  assumes more_iff: "more st \<longleftrightarrow> remaining st \<noteq> []"
    and next_token: "remaining st = x # xs \<Longrightarrow> \<exists>st'. nxt st = ret (x, st') \<and> remaining st' = xs"
begin

lemma loop_for_each:
  assumes "for_each body (remaining st) s = Some (Inr (), s')"
  shows "\<exists>st'. while_io (\<lambda>st. finish (more st))
      (\<lambda>st. seq (pure_run (nxt st)) (\<lambda>(x, st'). seq (body x) (\<lambda>_. finish (Inl st')))) st s =
      Some (Inr (Inl st'), s') \<and> remaining st' = []"
  using assms
proof (induction "remaining st" arbitrary: st s)
  case Nil
  then show ?case by (intro exI [of _ st]) (simp add: while_io_end more_iff)
next
  case (Cons x xs)
  obtain st1 where st1: "nxt st = ret (x, st1)" "remaining st1 = xs" using next_token Cons(2) by metis
  have "for_each body (x # xs) s = Some (Inr (), s')" using Cons(2,3) by simp
  then obtain s1 where s1: "body x s = Some (Inr (), s1)" "for_each body xs s1 = Some (Inr (), s')"
    by (auto simp: seq_Inr_iff)
  have step: "while_io (\<lambda>st. finish (more st))
      (\<lambda>st. seq (pure_run (nxt st)) (\<lambda>(x, st'). seq (body x) (\<lambda>_. finish (Inl st')))) st s =
    while_io (\<lambda>st. finish (more st))
      (\<lambda>st. seq (pure_run (nxt st)) (\<lambda>(x, st'). seq (body x) (\<lambda>_. finish (Inl st')))) st1 s1"
    by (rule while_io_step [where ?s1.0 = s])
      (simp_all add: more_iff Cons(2) [symmetric] st1 seq_def s1(1))
  show ?case unfolding step using Cons(1) [of st1 s1] st1(2) s1(2) by simp
qed

end

definition remaining_tokens :: "StringTokenizer \<Rightarrow> LogString list" where
  "remaining_tokens st = (case st_pos st of None \<Rightarrow> [] | Some p \<Rightarrow> tokens (set (st_delim st)) (drop p (st_src st)))"

lemma hasMoreTokens_iff: "hasMoreTokens st \<longleftrightarrow> remaining_tokens st \<noteq> []"
proof (cases "st_pos st")
  case (Some p)
  then show ?thesis
    by (simp add: hasMoreTokens_def remaining_tokens_def find_first_not_of_eq
        tokens.simps [of _ "drop p (st_src st)"] del: dropWhile_eq_Nil_conv split: list.splits)
qed (simp add: hasMoreTokens_def remaining_tokens_def)

lemma nextToken_remaining:
  assumes "remaining_tokens st = x # xs"
  shows "\<exists>st'. nextToken st = ret (x, st') \<and> remaining_tokens st' = xs"
proof -
  obtain p where p: "st_pos st = Some p" using assms by (auto simp: remaining_tokens_def split: option.splits)
  let ?D = "\<lambda>x. x \<in> set (st_delim st)" and ?r = "drop p (st_src st)"
  define n where "n = p + length (takeWhile ?D ?r)"
  obtain c t where ct: "dropWhile ?D ?r = c # t" and xs: "x = c # takeWhile (\<lambda>x. \<not> ?D x) t"
      "xs = tokens (set (st_delim st)) (dropWhile (\<lambda>x. \<not> ?D x) t)"
    using assms by (auto simp: remaining_tokens_def p tokens.simps [of _ ?r] split: list.splits)
  have first: "find_first_not_of (st_delim st) (st_src st) p = Some n"
    by (simp add: find_first_not_of_eq ct n_def)
  have n: "drop n (st_src st) = c # t"
    by (metis ct drop_drop dropWhile_eq_drop n_def add.commute)
  have c: "\<not> ?D c" using hd_dropWhile [of ?D ?r] ct by simp
  show ?thesis
  proof (cases "dropWhile (\<lambda>x. \<not> ?D x) t = []")
    case True
    then have all: "takeWhile (\<lambda>x. \<not> ?D x) t = t" by simp
    have "find_first_of (st_delim st) (st_src st) n = None" using True c by (simp add: find_first_of_eq n)
    then have "nextToken st = ret (x, st\<lparr>st_pos := None\<rparr>)"
      by (simp add: nextToken_def p first n xs all)
    moreover have "xs = []" unfolding xs True by (subst tokens.simps) simp
    ultimately show ?thesis by (simp add: remaining_tokens_def)
  next
    case False
    let ?k = "length (takeWhile (\<lambda>x. \<not> ?D x) t)"
    have "find_first_of (st_delim st) (st_src st) n = Some (n + Suc ?k)"
      using False c by (simp add: find_first_of_eq n)
    moreover have "substr (st_src st) n (n + Suc ?k - n) = x"
      by (simp add: substr_def n xs takeWhile_eq_take [symmetric])
    ultimately have "nextToken st = ret (x, st\<lparr>st_pos := Some (n + Suc ?k)\<rparr>)"
      by (simp add: nextToken_def p first)
    moreover have "drop (n + Suc ?k) (st_src st) = dropWhile (\<lambda>x. \<not> ?D x) t"
      using arg_cong [OF n, of "drop (Suc ?k)"] by (simp add: dropWhile_eq_drop add.commute)
    ultimately show ?thesis by (auto simp: remaining_tokens_def xs)
  qed
qed

interpretation string_tokens: token_source hasMoreTokens nextToken remaining_tokens
  by unfold_locales (rule hasMoreTokens_iff, rule nextToken_remaining)

end
