(* ===== verification/Transcoder.thy ===== *)
theory Transcoder
  imports LogText
begin

text \<open>
  Conversions between encodings (\<open>transcoder.cpp\<close>): Unicode scalar values to and from UTF-8 and
  UTF-16, and whole strings between bytes, wide strings and \<open>LogString\<close>. \<open>LOG4CXX_LOGCHAR_IS_WCHAR_T\<close>,
  which \<open>transcoder.cpp\<close> tests, is not the name the configuration defines, so that wide strings are
  converted character by character even though \<open>LogString\<close> is one.
\<close>

unbundle bit_operations_syntax

section \<open>Scalar values\<close>

type_synonym uint = "32 word"

definition LOSSCHAR :: "'a::len word" where
  "LOSSCHAR = 0x3F"

definition encodeUTF8 :: "uint \<Rightarrow> byte list" where
  "encodeUTF8 ch =
     (if ch < 0x80 then [ucast ch]
      else if ch < 0x800 then [ucast (0xC0 + drop_bit 6 ch), ucast (0x80 + (ch AND 0x3F))]
      else if ch < 0x10000 then
        [ucast (0xE0 + drop_bit 12 ch), ucast (0x80 + (drop_bit 6 ch AND 0x3F)), ucast (0x80 + (ch AND 0x3F))]
      else if ch \<le> 0x10FFFF then
        [ucast (0xF0 + drop_bit 18 ch), ucast (0x80 + (drop_bit 12 ch AND 0x3F)),
         ucast (0x80 + (drop_bit 6 ch AND 0x3F)), ucast (0x80 + (ch AND 0x3F))]
      else [0xEF, 0xBF, 0xBF])"

definition encodeUTF16BE :: "uint \<Rightarrow> byte list" where
  "encodeUTF16BE ch =
     (if ch \<le> 0xFFFF then [ucast (drop_bit 8 ch), ucast (ch AND 0xFF)]
      else if ch \<le> 0x10FFFF then
        (let w = ucast (drop_bit 16 ch - 1) :: byte in
         [0xD8 + drop_bit 2 w, push_bit 6 (w AND 0x03) + ucast (drop_bit 10 ch AND 0x3F),
          ucast (0xDC + drop_bit 4 (ch AND 0x30)), ucast (ch AND 0xFF)])
      else [0xFF, 0xFF])"

definition encodeUTF16LE :: "uint \<Rightarrow> byte list" where
  "encodeUTF16LE ch =
     (if ch \<le> 0xFFFF then [ucast (ch AND 0xFF), ucast (drop_bit 8 ch)]
      else if ch \<le> 0x10FFFF then
        (let w = ucast (drop_bit 16 ch - 1) :: byte in
         [push_bit 6 (w AND 0x03) + ucast (drop_bit 10 ch AND 0x3F), 0xD8 + drop_bit 2 w,
          ucast (ch AND 0xFF), ucast (0xDC + drop_bit 4 (ch AND 0x30))])
      else [0xFF, 0xFF])"

text \<open>
  The decoder of UTF-8 on a string that starts with \<open>ch1\<close>: the value and what the iterator has in
  front of it. On an error the value is 0xFFFF and the iterator is where it was.
\<close>

definition decode_utf8 :: "byte \<Rightarrow> byte list \<Rightarrow> uint \<times> byte list" where
  "decode_utf8 ch1 rest =
     (if ch1 \<le> 0x7F then (ucast ch1, rest)
      else if ch1 AND 0xC0 \<noteq> 0x80 \<and> rest \<noteq> [] then
        (let ch2 = hd rest; rest2 = tl rest in
         if ch2 AND 0xC0 \<noteq> 0x80 then (0xFFFF, ch1 # rest)
         else if ch1 AND 0xE0 = 0xC0 then
           (if ch2 AND 0xC0 = 0x80
            then let rv = push_bit 6 (ucast (ch1 AND 0x1F)) + ucast (ch2 AND 0x3F) in
                 if 0x80 \<le> rv then (rv, rest2) else (0xFFFF, ch1 # rest)
            else (0xFFFF, ch1 # rest))
         else if rest2 \<noteq> [] then
           (let ch3 = hd rest2; rest3 = tl rest2 in
            if ch3 AND 0xC0 \<noteq> 0x80 then (0xFFFF, ch1 # rest)
            else if ch1 AND 0xF0 = 0xE0 then
              (let rv = push_bit 12 (ucast (ch1 AND 0x0F)) + push_bit 6 (ucast (ch2 AND 0x3F)) + ucast (ch3 AND 0x3F) in
               if rv \<le> 0x800 then (0xFFFF, ch1 # rest) else (rv, rest3))
            else if rest3 \<noteq> [] then
              (let ch4 = hd rest3; rest4 = tl rest3 in
               if ch4 AND 0xC0 \<noteq> 0x80 then (0xFFFF, ch1 # rest)
               else let rv = push_bit 18 (ucast (ch1 AND 0x07)) + push_bit 12 (ucast (ch2 AND 0x3F))
                             + push_bit 6 (ucast (ch3 AND 0x3F)) + ucast (ch4 AND 0x3F) in
                    if 0xFFFF < rv then (rv, rest4) else (0xFFFF, ch1 # rest))
            else (0xFFFF, ch1 # rest))
         else (0xFFFF, ch1 # rest))
      else (0xFFFF, ch1 # rest))"

text \<open>The same for UTF-16; 0xFFFF in the text does not move the iterator either.\<close>

definition decodeUTF16 :: "logchar \<Rightarrow> logchar list \<Rightarrow> uint \<times> logchar list" where
  "decodeUTF16 c rest =
     (let ch1 = ucast c :: uint in
      if ch1 < 0xD800 \<or> 0xDFFF < ch1 then (ch1, if ch1 \<noteq> 0xFFFF then rest else c # rest)
      else if ch1 < 0xDC00 \<and> rest \<noteq> [] then
        (let ch2 = ucast (hd rest) :: uint in
         if 0xDC00 \<le> ch2 \<and> ch2 \<le> 0xDFFF
         then ((ch1 - 0xD800) * 0x400 + (ch2 - 0xDC00) + 0x10000, tl rest)
         else (0xFFFF, c # rest))
      else (0xFFFF, c # rest))"

text \<open>The low surrogate is computed with \<open>sv && 0x3FF\<close>, the logical conjunction, which is 0 or 1.\<close>

definition encodeUTF16 :: "uint \<Rightarrow> logchar list" where
  "encodeUTF16 sv =
     (if sv < 0x10000 then [ucast sv]
      else let u = ucast (drop_bit 16 sv) :: byte;
               w = u - 1;
               hs = 0xD800 + push_bit 6 (ucast (w AND 0xF)) + drop_bit 10 (sv AND 0xFFFF) :: uint;
               ls = 0xDC00 + (if sv \<noteq> 0 then 1 else 0) :: uint
           in [ucast hs, ucast ls])"

section \<open>Strings\<close>

text \<open>Each of the loops either consumes at least one element or replaces one that cannot be decoded.\<close>

lemma decode_utf8_shorter: "(sv, r) = decode_utf8 c s \<Longrightarrow> sv \<noteq> 0xFFFF \<Longrightarrow> length r < Suc (length s)"
  by (auto simp: decode_utf8_def Let_def split: if_splits)

lemma decodeUTF16_shorter: "(sv, r) = decodeUTF16 c s \<Longrightarrow> sv \<noteq> 0xFFFF \<Longrightarrow> length r < Suc (length s)"
  by (auto simp: decodeUTF16_def Let_def split: if_splits)

function decodeUTF8 :: "byte list \<Rightarrow> LogString" where
  "decodeUTF8 [] = []"
| "decodeUTF8 (c # s) = (let (sv, rest) = decode_utf8 c s in
     if sv \<noteq> 0xFFFF then encodeUTF16 sv @ decodeUTF8 rest else LOSSCHAR # decodeUTF8 s)"
  by pat_completeness auto

termination
  by (relation "measure length") (auto simp: decode_utf8_shorter)

function encodeUTF8_str :: "LogString \<Rightarrow> byte list" where
  "encodeUTF8_str [] = []"
| "encodeUTF8_str (c # s) = (let (sv, rest) = decodeUTF16 c s in
     if sv \<noteq> 0xFFFF then encodeUTF8 sv @ encodeUTF8_str rest else LOSSCHAR # encodeUTF8_str s)"
  by pat_completeness auto

termination
  by (relation "measure length") (auto simp: decodeUTF16_shorter)

function decode_wide :: "logchar list \<Rightarrow> LogString" where
  "decode_wide [] = []"
| "decode_wide (c # s) = (let (cp, rest) = decodeUTF16 c s in
     if cp \<noteq> 0xFFFF then encodeUTF16 cp @ decode_wide rest else LOSSCHAR # decode_wide s)"
  by pat_completeness auto

termination
  by (relation "measure length") (auto simp: decodeUTF16_shorter)

text \<open>
  The conversion to a wide string has no such replacement, and the iterator stays where it is for
  ever at an element that cannot be decoded; \<open>None\<close> is that the loop does not end.
\<close>

partial_function (option) encode_wide :: "LogString \<Rightarrow> logchar list \<Rightarrow> logchar list option" where
  "encode_wide src dst = (case src of [] \<Rightarrow> Some dst
     | c # s \<Rightarrow> (let (cp, rest) = decodeUTF16 c s in encode_wide rest (dst @ encodeUTF16 cp)))"

declare encode_wide.simps [code]

text \<open>The bytes of the local charset: ASCII is copied, and the encoder gets the rest.\<close>

definition asciiTable :: string where
  "asciiTable = map char_of [0x20..<0x7F::nat] @ '' ''"

definition encodeCharsetName :: "LogString \<Rightarrow> byte list" where
  "encodeCharsetName val = map (\<lambda>c. if 0x30 \<le> c \<and> c < 0x7F then of_char (asciiTable ! unat (c - 0x30)) else LOSSCHAR) val"

section \<open>Arithmetic of the code units\<close>

text \<open>Bit tests and masks on bytes, checked for each of the 256 of them.\<close>

lemma byte_masks:
  fixes b :: byte
  shows "(b AND 0xC0 = 0x80) = (unat b div 64 = 2)" "(b AND 0xE0 = 0xC0) = (unat b div 32 = 6)"
    "(b AND 0xF0 = 0xE0) = (unat b div 16 = 14)" "unat (b AND 0x3F) = unat b mod 64"
    "unat (b AND 0x1F) = unat b mod 32" "unat (b AND 0x0F) = unat b mod 16" "unat (b AND 0x07) = unat b mod 8"
    "unat (b AND 0x03) = unat b mod 4"
proof -
  have *: "\<forall>n\<in>set [0..<256]. let b = of_nat n :: byte in
      (b AND 0xC0 = 0x80) = (n div 64 = 2) \<and> (b AND 0xE0 = 0xC0) = (n div 32 = 6) \<and>
      (b AND 0xF0 = 0xE0) = (n div 16 = 14) \<and> unat (b AND 0x3F) = n mod 64 \<and>
      unat (b AND 0x1F) = n mod 32 \<and> unat (b AND 0x0F) = n mod 16 \<and> unat (b AND 0x07) = n mod 8 \<and>
      unat (b AND 0x03) = n mod 4"
    by code_simp
  have "unat b \<in> set [0..<256]" using unat_byte_less [of b] by simp
  note ** = bspec [OF * this]
  show "(b AND 0xC0 = 0x80) = (unat b div 64 = 2)" "(b AND 0xE0 = 0xC0) = (unat b div 32 = 6)"
    "(b AND 0xF0 = 0xE0) = (unat b div 16 = 14)" "unat (b AND 0x3F) = unat b mod 64"
    "unat (b AND 0x1F) = unat b mod 32" "unat (b AND 0x0F) = unat b mod 16" "unat (b AND 0x07) = unat b mod 8"
    "unat (b AND 0x03) = unat b mod 4"
    using ** by (simp_all add: Let_def)
qed

lemma unat_uint_bits:
  fixes ch :: uint
  shows "unat (ch AND 0x3F) = unat ch mod 64" "unat (ch AND 0xFF) = unat ch mod 256"
    "unat (ch AND 0xFFFF) = unat ch mod 65536" "unat (drop_bit n ch) = unat ch div 2 ^ n"
proof -
  have m: "(0x3F :: uint) = mask 6" "(0xFF :: uint) = mask 8" "(0xFFFF :: uint) = mask 16"
    by (simp_all add: mask_eq_exp_minus_1)
  show "unat (ch AND 0x3F) = unat ch mod 64" "unat (ch AND 0xFF) = unat ch mod 256"
    "unat (ch AND 0xFFFF) = unat ch mod 65536"
    unfolding m take_bit_eq_mask [symmetric] by (simp_all only: unsigned_take_bit_eq) (simp_all add: take_bit_eq_mod)
  show "unat (drop_bit n ch) = unat ch div 2 ^ n" by (simp only: unat_drop_bit_eq) (simp add: drop_bit_eq_div)
qed

lemma unat_ucast_uint: "unat (ucast (x :: uint) :: byte) = unat x mod 256"
  by (simp add: unsigned_ucast_eq take_bit_eq_mod)

lemma unat_offset: "k + unat x < 2 ^ 32 \<Longrightarrow> k < 2 ^ 32 \<Longrightarrow> unat (of_nat k + x :: uint) = k + unat x"
  by (simp add: unat_word_ariths unat_of_nat)

lemma unat_code_unit:
  fixes x :: uint
  assumes "k + unat x < 256"
  shows "unat (ucast (of_nat k + x) :: byte) = k + unat x"
  using assms by (simp add: unat_ucast_uint unat_offset)

text \<open>The bytes of an encoded value as numbers.\<close>

lemma encodeUTF8_nat:
  defines "n \<equiv> unat"
  shows "map unat (encodeUTF8 ch) =
     (if n ch < 0x80 then [n ch]
      else if n ch < 0x800 then [0xC0 + n ch div 64, 0x80 + n ch mod 64]
      else if n ch < 0x10000 then [0xE0 + n ch div 4096, 0x80 + n ch div 64 mod 64, 0x80 + n ch mod 64]
      else if n ch \<le> 0x10FFFF then
        [0xF0 + n ch div 262144, 0x80 + n ch div 4096 mod 64, 0x80 + n ch div 64 mod 64, 0x80 + n ch mod 64]
      else [0xEF, 0xBF, 0xBF])"
proof -
  have less: "ch < 0x80 \<longleftrightarrow> n ch < 0x80" "ch < 0x800 \<longleftrightarrow> n ch < 0x800" "ch < 0x10000 \<longleftrightarrow> n ch < 0x10000"
    "ch \<le> 0x10FFFF \<longleftrightarrow> n ch \<le> 0x10FFFF" by (simp_all add: n_def word_less_nat_alt word_le_nat_alt)
  have cont: "unat (ucast (0x80 + (x AND 0x3F)) :: byte) = 0x80 + unat x mod 64" for x :: uint
    using unat_code_unit [of "0x80" "x AND 0x3F"] by (simp add: unat_uint_bits)
  have lead: "n ch < 0x800 \<Longrightarrow> unat (ucast (0xC0 + drop_bit 6 ch) :: byte) = 0xC0 + n ch div 64"
    "n ch < 0x10000 \<Longrightarrow> unat (ucast (0xE0 + drop_bit 12 ch) :: byte) = 0xE0 + n ch div 4096"
    "n ch \<le> 0x10FFFF \<Longrightarrow> unat (ucast (0xF0 + drop_bit 18 ch) :: byte) = 0xF0 + n ch div 262144"
    using unat_code_unit [of "0xC0" "drop_bit 6 ch"] unat_code_unit [of "0xE0" "drop_bit 12 ch"]
      unat_code_unit [of "0xF0" "drop_bit 18 ch"]
    by (simp_all add: unat_uint_bits n_def)
  have one: "n ch < 0x80 \<Longrightarrow> unat (ucast ch :: byte) = n ch" by (simp add: unat_ucast_uint n_def)
  show ?thesis
    unfolding encodeUTF8_def less by (simp add: lead cont one unat_uint_bits n_def)
qed

text \<open>What the decoder makes of bytes with given numbers.\<close>

lemma byte_le_7F: "(c :: byte) \<le> 0x7F \<longleftrightarrow> unat c \<le> 0x7F"
  by (simp add: word_le_nat_alt)

lemma unat_rv2:
  fixes a b :: byte
  assumes "unat a < 64" and "unat b < 64"
  shows "push_bit 6 (ucast a) + ucast b = (of_nat (unat a * 64 + unat b) :: uint)"
proof -
  have "ucast a = (of_nat (unat a) :: uint)" "ucast b = (of_nat (unat b) :: uint)" by simp_all
  then show ?thesis by (simp only: push_bit_eq_mult of_nat_add of_nat_mult) simp
qed

lemma div_at: "x = q * d + r \<Longrightarrow> r < d \<Longrightarrow> x div d = q \<and> x mod d = r" for x q d r :: nat
  by simp

lemma continuation_byte: "unat c = 0x80 + b \<Longrightarrow> b < 64 \<Longrightarrow> unat c div 64 = 2 \<and> unat c mod 64 = b" for c :: byte
  by (rule div_at) simp_all

lemma decode_utf8_1: "unat c < 0x80 \<Longrightarrow> decode_utf8 c r = (of_nat (unat c), r)"
  by (simp add: decode_utf8_def byte_le_7F)

lemma decode_utf8_2:
  assumes "unat c1 = 0xC0 + a" and "a < 32" and "unat c2 = 0x80 + b" and "b < 64" and "2 \<le> a"
  shows "decode_utf8 c1 (c2 # r) = (of_nat (a * 64 + b), r)"
proof -
  have rv: "push_bit 6 (ucast (c1 AND 0x1F)) + ucast (c2 AND 0x3F) = (of_nat (a * 64 + b) :: uint)"
  proof -
    have "unat (c1 AND 0x1F) = a" "unat (c2 AND 0x3F) = b"
      unfolding byte_masks using continuation_byte [OF assms(3,4)] div_at [of "unat c1" 6 32 a] assms(1,2) by simp_all
    then show ?thesis using unat_rv2 [of "c1 AND 0x1F" "c2 AND 0x3F"] assms by simp
  qed
  have "(0x80 :: uint) \<le> of_nat (a * 64 + b)" using assms by (simp only: word_le_nat_alt unat_of_nat) simp
  moreover have "\<not> unat c1 \<le> 0x7F" "unat c1 div 64 \<noteq> 2" "unat c1 div 32 = 6" "unat c2 div 64 = 2"
    using continuation_byte [OF assms(3,4)] div_at [of "unat c1" 6 32 a] div_at [of "unat c1" 3 64 a] assms(1,2)
    by simp_all
  ultimately show ?thesis
    unfolding decode_utf8_def byte_le_7F byte_masks(1,2) by (simp add: Let_def rv)
qed

lemma unat_shifted:
  "push_bit n (ucast (a :: byte)) = (of_nat (unat a * 2 ^ n) :: uint)"
  by (simp add: push_bit_eq_mult)

lemma uint_le_of_nat: "m < 2 ^ 32 \<Longrightarrow> n < 2 ^ 32 \<Longrightarrow> (of_nat m :: uint) \<le> of_nat n \<longleftrightarrow> m \<le> n"
  by (simp add: word_le_nat_alt unat_of_nat)

lemma decode_utf8_3:
  assumes "unat c1 = 0xE0 + a" and "a < 16" and "unat c2 = 0x80 + b" and "b < 64" and "unat c3 = 0x80 + c" and "c < 64"
  shows "decode_utf8 c1 (c2 # c3 # r) =
     (if a * 4096 + b * 64 + c \<le> 0x800 then (0xFFFF, c1 # c2 # c3 # r) else (of_nat (a * 4096 + b * 64 + c), r))"
proof -
  note cont = continuation_byte [OF assms(3,4)] continuation_byte [OF assms(5,6)]
  note lead = div_at [of "unat c1" 14 16 a] div_at [of "unat c1" 7 32 a] div_at [of "unat c1" 3 64 "32 + a"]
  have masks: "unat (c1 AND 0x0F) = a" "unat (c2 AND 0x3F) = b" "unat (c3 AND 0x3F) = c"
    unfolding byte_masks using cont lead assms(1,2) by simp_all
  have "ucast (c3 AND 0x3F) = (of_nat (unat (c3 AND 0x3F)) :: uint)" by simp
  then have rv: "push_bit 12 (ucast (c1 AND 0x0F)) + push_bit 6 (ucast (c2 AND 0x3F)) + ucast (c3 AND 0x3F) =
      (of_nat (a * 4096 + b * 64 + c) :: uint)"
    unfolding unat_shifted masks by simp
  have small: "(of_nat (a * 4096 + b * 64 + c) :: uint) \<le> 0x800 \<longleftrightarrow> a * 4096 + b * 64 + c \<le> 0x800"
    using uint_le_of_nat [of "a * 4096 + b * 64 + c" "0x800"] assms by simp
  have "\<not> unat c1 \<le> 0x7F" "unat c1 div 64 \<noteq> 2" "unat c1 div 32 \<noteq> 6" "unat c1 div 16 = 14"
    "unat c2 div 64 = 2" "unat c3 div 64 = 2" using cont lead assms(1,2) by simp_all
  then show ?thesis
    unfolding decode_utf8_def byte_le_7F byte_masks(1,2,3) Let_def list.sel rv small by simp
qed

lemma decode_utf8_4:
  assumes "unat c1 = 0xF0 + a" and "a < 8" and "unat c2 = 0x80 + b" and "b < 64" and "unat c3 = 0x80 + c" and "c < 64"
    and "unat c4 = 0x80 + d" and "d < 64" and "0xFFFF < a * 262144 + b * 4096 + c * 64 + d"
  shows "decode_utf8 c1 (c2 # c3 # c4 # r) = (of_nat (a * 262144 + b * 4096 + c * 64 + d), r)"
proof -
  note cont = continuation_byte [OF assms(3,4)] continuation_byte [OF assms(5,6)] continuation_byte [OF assms(7,8)]
  note lead = div_at [of "unat c1" 30 8 a] div_at [of "unat c1" 15 16 a] div_at [of "unat c1" 7 32 "16 + a"]
    div_at [of "unat c1" 3 64 "48 + a"]
  have masks: "unat (c1 AND 0x07) = a" "unat (c2 AND 0x3F) = b" "unat (c3 AND 0x3F) = c" "unat (c4 AND 0x3F) = d"
    unfolding byte_masks using cont lead assms(1,2) by simp_all
  have "ucast (c4 AND 0x3F) = (of_nat (unat (c4 AND 0x3F)) :: uint)" by simp
  then have rv: "push_bit 18 (ucast (c1 AND 0x07)) + push_bit 12 (ucast (c2 AND 0x3F)) + push_bit 6 (ucast (c3 AND 0x3F)) +
      ucast (c4 AND 0x3F) = (of_nat (a * 262144 + b * 4096 + c * 64 + d) :: uint)"
    unfolding unat_shifted masks by simp
  have large: "0xFFFF < (of_nat (a * 262144 + b * 4096 + c * 64 + d) :: uint)"
    using uint_le_of_nat [of "a * 262144 + b * 4096 + c * 64 + d" "0xFFFF"] assms by (simp add: not_le)
  have "\<not> unat c1 \<le> 0x7F" "unat c1 div 64 \<noteq> 2" "unat c1 div 32 \<noteq> 6" "unat c1 div 16 \<noteq> 14"
    "unat c2 div 64 = 2" "unat c3 div 64 = 2" "unat c4 div 64 = 2" using cont lead assms(1,2) by simp_all
  then show ?thesis
    unfolding decode_utf8_def byte_le_7F byte_masks(1,2,3) Let_def list.sel rv using large by simp
qed

lemma six_bit_groups:
  fixes n :: nat
  shows "n div 4096 * 4096 + n div 64 mod 64 * 64 + n mod 64 = n"
    and "n div 262144 * 262144 + n div 4096 mod 64 * 4096 + n div 64 mod 64 * 64 + n mod 64 = n"
proof -
  have d: "n div 4096 = n div 64 div 64" "n div 262144 = n div 64 div 64 div 64" by (simp_all add: div_mult2_eq [symmetric])
  define p q where "p = n div 64" and "q = p div 64"
  have e: "n = p * 64 + n mod 64" "p = q * 64 + p mod 64" "q = q div 64 * 64 + q mod 64" by (simp_all add: p_def q_def)
  show "n div 4096 * 4096 + n div 64 mod 64 * 64 + n mod 64 = n"
    "n div 262144 * 262144 + n div 4096 mod 64 * 4096 + n div 64 mod 64 * 64 + n mod 64 = n"
    unfolding d p_def [symmetric] q_def [symmetric] using e by linarith+
qed

text \<open>A scalar value survives encoding and decoding, except 0x800, which the decoder rejects.\<close>

lemma decode_encodeUTF8:
  assumes "ch \<le> 0x10FFFF"
  obtains c s where "encodeUTF8 ch = c # s"
    and "decode_utf8 c (s @ r) = (if ch = 0x800 then (0xFFFF, c # s @ r) else (ch, r))"
proof -
  define n where "n = unat ch"
  have ch: "ch = of_nat n" by (simp add: n_def)
  have le: "n \<le> 0x10FFFF" using assms by (simp add: n_def word_le_nat_alt)
  have c800: "ch = 0x800 \<longleftrightarrow> n = 0x800" by (simp add: n_def word_unat_eq_iff)
  note bytes = encodeUTF8_nat [of ch, folded n_def]
  consider "n < 0x80" | "0x80 \<le> n" "n < 0x800" | "0x800 \<le> n" "n < 0x10000" | "0x10000 \<le> n" by linarith
  then show thesis
  proof cases
    case 1
    then obtain c where "encodeUTF8 ch = [c]" "unat c = n" using bytes by (auto simp: map_eq_Cons_conv)
    then show thesis using 1 c800 decode_utf8_1 [of c r] by (intro that [of c "[]"]) (simp_all add: ch)
  next
    case 2
    then obtain c1 c2 where enc: "encodeUTF8 ch = [c1, c2]" "unat c1 = 0xC0 + n div 64" "unat c2 = 0x80 + n mod 64"
      using bytes by (auto simp: map_eq_Cons_conv)
    have "2 * 64 \<le> n" using 2 by simp
    then have "n div 64 < 32" "2 \<le> n div 64" "n div 64 * 64 + n mod 64 = n"
      using 2 by (simp_all add: less_mult_imp_div_less less_eq_div_iff_mult_less_eq)
    then have "decode_utf8 c1 (c2 # r) = (ch, r)" using decode_utf8_2 [OF enc(2) _ enc(3), of r] by (simp add: ch)
    then show thesis using 2 c800 enc(1) by (intro that [of c1 "[c2]"]) simp_all
  next
    case 3
    then obtain c1 c2 c3 where enc: "encodeUTF8 ch = [c1, c2, c3]" "unat c1 = 0xE0 + n div 4096"
        "unat c2 = 0x80 + n div 64 mod 64" "unat c3 = 0x80 + n mod 64"
      using bytes by (auto simp: map_eq_Cons_conv)
    have "n div 4096 < 16" using 3 by (simp add: less_mult_imp_div_less)
    note * = this six_bit_groups(1) [of n]
    have "decode_utf8 c1 (c2 # c3 # r) = (if ch = 0x800 then (0xFFFF, c1 # c2 # c3 # r) else (ch, r))"
      using decode_utf8_3 [OF enc(2) *(1) enc(3) _ enc(4), of r] 3 unfolding *(2) c800 by (simp add: ch)
    then show thesis using enc(1) by (intro that [of c1 "[c2, c3]"]) simp_all
  next
    case 4
    then obtain c1 c2 c3 c4 where enc: "encodeUTF8 ch = [c1, c2, c3, c4]" "unat c1 = 0xF0 + n div 262144"
        "unat c2 = 0x80 + n div 4096 mod 64" "unat c3 = 0x80 + n div 64 mod 64" "unat c4 = 0x80 + n mod 64"
      using bytes le by (auto simp: map_eq_Cons_conv)
    have "n div 262144 < 8" using le by (simp add: less_mult_imp_div_less)
    note * = this six_bit_groups(2) [of n]
    have "decode_utf8 c1 (c2 # c3 # c4 # r) = (ch, r)"
      using decode_utf8_4 [OF enc(2) *(1) enc(3) _ enc(4) _ enc(5), of r] 4 unfolding *(2) by (simp add: ch)
    then show thesis using 4 c800 enc(1) by (intro that [of c1 "[c2, c3, c4]"]) simp_all
  qed
qed

section \<open>Text\<close>

definition surrogate :: "logchar \<Rightarrow> bool" where
  "surrogate c \<longleftrightarrow> 0xD800 \<le> c \<and> c \<le> 0xDFFF"

definition high_surrogate :: "logchar \<Rightarrow> bool" where
  "high_surrogate c \<longleftrightarrow> 0xD800 \<le> c \<and> c < 0xDC00"

definition low_surrogate :: "logchar \<Rightarrow> bool" where
  "low_surrogate c \<longleftrightarrow> 0xDC00 \<le> c \<and> c \<le> 0xDFFF"

lemma unat_wide: "unat (ucast (c :: logchar) :: uint) = unat c"
  using unsigned_less [of c, where ?'a = nat] by (simp add: unsigned_ucast_eq take_bit_eq_mod)

lemma wide_compare:
  fixes c :: logchar
  shows "(ucast c :: uint) < 0xD800 \<longleftrightarrow> c < 0xD800" "0xDFFF < (ucast c :: uint) \<longleftrightarrow> 0xDFFF < c"
    "(ucast c :: uint) < 0xDC00 \<longleftrightarrow> c < 0xDC00" "0xDC00 \<le> (ucast c :: uint) \<longleftrightarrow> 0xDC00 \<le> c"
    "(ucast c :: uint) \<le> 0xDFFF \<longleftrightarrow> c \<le> 0xDFFF" "(ucast c :: uint) = 0xFFFF \<longleftrightarrow> c = 0xFFFF"
    "(ucast c :: uint) < 0x10000" "(ucast c :: uint) \<le> 0x10FFFF" "(ucast c :: uint) = 0x800 \<longleftrightarrow> c = 0x800"
  using unsigned_less [of c, where ?'a = nat]
  by (simp_all add: word_less_nat_alt word_le_nat_alt word_unat_eq_iff unat_wide)

lemma decodeUTF16_plain:
  "\<not> surrogate c \<Longrightarrow> c \<noteq> 0xFFFF \<Longrightarrow> decodeUTF16 c s = (ucast c, s)"
  by (auto simp: decodeUTF16_def surrogate_def Let_def wide_compare not_le)

lemma narrow_wide: "ucast (ucast (c :: logchar) :: uint) = c"
  by (rule bit_word_eqI) (simp add: bit_simps)

lemma encodeUTF16_plain: "encodeUTF16 (ucast (c :: logchar)) = [c]"
  by (simp add: encodeUTF16_def wide_compare narrow_wide)

lemma decodeUTF16_pair:
  assumes "high_surrogate h" and "low_surrogate l"
  shows "decodeUTF16 h (l # s) = (of_nat ((unat h - 0xD800) * 0x400 + (unat l - 0xDC00) + 0x10000), s)"
proof -
  have h: "0xD800 \<le> unat h" and l: "0xDC00 \<le> unat l"
    using assms by (auto simp: high_surrogate_def low_surrogate_def word_le_nat_alt)
  have "(ucast h :: uint) = of_nat (unat h)" "(ucast l :: uint) = of_nat (unat l)" by simp_all
  then have "(ucast h - 0xD800) * 0x400 + (ucast l - 0xDC00) + 0x10000 =
      (of_nat ((unat h - 0xD800) * 0x400 + (unat l - 0xDC00) + 0x10000) :: uint)"
    using h l by (simp only: of_nat_add of_nat_mult of_nat_diff) simp
  then show ?thesis
    using assms by (auto simp: decodeUTF16_def Let_def wide_compare high_surrogate_def low_surrogate_def)
qed

lemma encodeUTF16_supplementary:
  assumes "a < 0x400" and "b < 0x400"
  shows "encodeUTF16 (of_nat (a * 0x400 + b + 0x10000)) = [0xD800 + of_nat a, 0xDC01]"
proof -
  let ?n = "a * 0x400 + b + 0x10000"
  define sv :: uint where "sv = of_nat ?n"
  have n: "unat sv = ?n" unfolding sv_def using assms by (subst unat_of_nat) simp
  have big: "\<not> sv < 0x10000" "sv \<noteq> 0" by (auto simp: word_less_nat_alt word_unat_eq_iff n)
  have d: "?n div 65536 = a div 64 + 1" "?n mod 65536 div 1024 = a mod 64"
  proof -
    define r where "r = a mod 64 * 1024 + b"
    have r: "r < 65536" using assms(2) mod_less_divisor [of 64 a] unfolding r_def by linarith
    define q m where "q = a div 64" and "m = a mod 64"
    have "a = q * 64 + m" by (simp add: q_def m_def)
    then have "?n = m * 1024 + b + (q + 1) * 65536" by simp
    then have n: "?n = r + (a div 64 + 1) * 65536" by (simp only: r_def q_def m_def)
    show "?n div 65536 = a div 64 + 1" unfolding n using r by simp
    have "?n mod 65536 = r" unfolding n mod_mult_self1 using r by simp
    then show "?n mod 65536 div 1024 = a mod 64" using assms(2) by (simp add: r_def)
  qed
  have u: "(ucast (drop_bit 16 sv) - 1 :: byte) = of_nat (a div 64)"
  proof -
    define k where "k = a div 64 + 1"
    have k: "k < 256" using assms(1) by (simp add: k_def less_mult_imp_div_less)
    have "(ucast (drop_bit 16 sv) :: byte) = of_nat k"
      by (subst word_unat_eq_iff) (simp only: unat_ucast_uint unat_uint_bits n, use d(1) [folded k_def] k in \<open>simp add: unat_of_nat\<close>)
    then have "(ucast (drop_bit 16 sv) :: byte) = of_nat (a div 64) + 1" by (simp add: k_def)
    then show ?thesis by simp
  qed
  have w: "(ucast (of_nat (a div 64) AND 0xF :: byte) :: uint) = of_nat (a div 64)"
  proof -
    have "a div 64 < 16" using assms by (simp add: less_mult_imp_div_less)
    then have "unat (of_nat (a div 64) AND 0xF :: byte) = a div 64" by (simp add: byte_masks unat_of_nat)
    then show ?thesis by (metis of_nat_unat)
  qed
  have lowpart: "drop_bit 10 (sv AND 0xFFFF) = of_nat (a mod 64)"
    by (subst word_unat_eq_iff) (simp only: unat_uint_bits n, use d(2) in \<open>simp add: unat_of_nat\<close>)
  have "push_bit 6 (of_nat (a div 64)) + of_nat (a mod 64) = (of_nat a :: uint)"
  proof -
    have "push_bit 6 (of_nat (a div 64)) + of_nat (a mod 64) = (of_nat (a div 64 * 64 + a mod 64) :: uint)"
      by (simp only: push_bit_eq_mult of_nat_add of_nat_mult) simp
    then show ?thesis by simp
  qed
  then have hs: "0xD800 + push_bit 6 (of_nat (a div 64)) + of_nat (a mod 64) = (0xD800 + of_nat a :: uint)"
    by (simp add: add.assoc)
  have "(ucast (0xD800 + of_nat a :: uint) :: logchar) = 0xD800 + of_nat a"
  proof -
    have k: "0xD800 + of_nat a = (of_nat (0xD800 + a) :: uint)" "0xD800 + of_nat a = (of_nat (0xD800 + a) :: logchar)"
      by simp_all
    have "0xD800 + a < 65536" using assms(1) by simp
    then show ?thesis unfolding k by (subst word_unat_eq_iff) (simp only: unsigned_ucast_eq unat_of_nat, simp add: take_bit_eq_mod)
  qed
  then show ?thesis
    using big unfolding sv_def [symmetric] encodeUTF16_def Let_def u w lowpart hs by simp
qed

lemma decodeUTF8_unit:
  assumes "ch \<le> 0x10FFFF" and "ch \<noteq> 0x800" and "ch \<noteq> 0xFFFF"
  shows "decodeUTF8 (encodeUTF8 ch @ r) = encodeUTF16 ch @ decodeUTF8 r"
proof -
  obtain c s where "encodeUTF8 ch = c # s" and "decode_utf8 c (s @ r) = (ch, r)"
    using decode_encodeUTF8 [OF assms(1), of r] assms(2) by auto
  then show ?thesis using assms(3) by simp
qed

lemma encodeUTF8_str_plain:
  "\<not> surrogate c \<Longrightarrow> c \<noteq> 0xFFFF \<Longrightarrow> encodeUTF8_str (c # s) = encodeUTF8 (ucast c) @ encodeUTF8_str s"
  by (simp add: decodeUTF16_plain wide_compare)

lemma surrogate_offsets:
  assumes "high_surrogate h" and "low_surrogate l"
  shows "unat h - 0xD800 < 0x400" and "unat l - 0xDC00 < 0x400" and "0xD800 + of_nat (unat h - 0xD800) = h"
proof -
  have h: "0xD800 \<le> unat h" "unat h < 0xDC00" and l: "0xDC00 \<le> unat l" "unat l \<le> 0xDFFF"
    using assms by (auto simp: high_surrogate_def low_surrogate_def word_le_nat_alt word_less_nat_alt)
  then show "unat h - 0xD800 < 0x400" "unat l - 0xDC00 < 0x400" by auto
  show "0xD800 + of_nat (unat h - 0xD800) = h" using h(1) by (simp add: of_nat_diff)
qed

text \<open>
  C36. Text whose characters are in the basic plane, apart from U+0800 and U+FFFF, is not changed by
  encoding it in UTF-8 and decoding it again.
\<close>

theorem utf8_text_round_trip:
  assumes "\<forall>c\<in>set s. \<not> surrogate c \<and> c \<noteq> 0x800 \<and> c \<noteq> 0xFFFF"
  shows "decodeUTF8 (encodeUTF8_str s) = s"
  using assms
proof (induction s)
  case (Cons c s)
  then have "decodeUTF8 (encodeUTF8_str (c # s)) = encodeUTF16 (ucast c) @ decodeUTF8 (encodeUTF8_str s)"
    by (subst encodeUTF8_str_plain) (simp_all add: decodeUTF8_unit wide_compare)
  with Cons show ?case by (simp add: encodeUTF16_plain)
qed simp

theorem utf8_text_round_trip_witness:
  "decodeUTF8 (encodeUTF8_str (LS ''caf'' @ [0xE9, 0x20AC])) = LS ''caf'' @ [0xE9, 0x20AC]"
  by (rule utf8_text_round_trip) (simp add: surrogate_def)

text \<open>
  A character outside the basic plane, which is a pair of surrogates, does not survive the conversion
  of a wide string, which only copies a string to one of the same type: the second element of the
  pair always becomes 0xDC01.
\<close>

theorem supplementary_character_changed:
  assumes "high_surrogate h" and "low_surrogate l"
  shows "decode_wide (h # l # s) = h # 0xDC01 # decode_wide s"
proof -
  note o = surrogate_offsets [OF assms]
  let ?a = "unat h - 0xD800" and ?b = "unat l - 0xDC00"
  have "(of_nat (?a * 0x400 + ?b + 0x10000) :: uint) \<noteq> 0xFFFF"
    using o(1,2) by (subst word_unat_eq_iff) (subst unat_of_nat, simp)
  then show ?thesis
    by (simp del: of_nat_add add: decodeUTF16_pair [OF assms] encodeUTF16_supplementary [OF o(1,2)] o(3))
qed

theorem supplementary_character_changed_witness:
  "decode_wide [0xD83D, 0xDE00, 0x21] = [0xD83D, 0xDC01, 0x21]"
  using supplementary_character_changed [of "0xD83D" "0xDE00" "[0x21]"]
  by (simp add: high_surrogate_def low_surrogate_def decodeUTF16_plain surrogate_def encodeUTF16_def)

text \<open>
  The conversion of a \<open>LogString\<close> to a wide string never returns when the text has a surrogate that is
  not part of a pair.
\<close>

definition undecodable :: "LogString \<Rightarrow> bool" where
  "undecodable s \<longleftrightarrow> (case s of [] \<Rightarrow> False | c # s \<Rightarrow> decodeUTF16 c s = (0xFFFF, c # s))"

lemma encode_wide_stuck:
  assumes "undecodable s"
  shows "encode_wide s dst = None"
proof (rule ccontr)
  assume "encode_wide s dst \<noteq> None"
  then obtain y where y: "encode_wide s dst = Some y" by auto
  have "\<not> undecodable s"
  proof (rule encode_wide.raw_induct [where P = "\<lambda>src dst y. \<not> undecodable src", OF _ y])
    fix f :: "LogString \<Rightarrow> logchar list \<Rightarrow> logchar list option" and src dst y
    assume IH: "\<And>src dst y. f src dst = Some y \<Longrightarrow> \<not> undecodable src"
      and r: "(case src of [] \<Rightarrow> Some dst
        | c # s \<Rightarrow> (let (cp, rest) = decodeUTF16 c s in f rest (dst @ encodeUTF16 cp))) = Some y"
    show "\<not> undecodable src"
    proof
      assume u: "undecodable src"
      then obtain c s where src: "src = c # s" "decodeUTF16 c s = (0xFFFF, src)"
        by (auto simp: undecodable_def split: list.splits)
      then have "f src (dst @ encodeUTF16 0xFFFF) = Some y" using r by simp
      then show False using IH u by blast
    qed
  qed
  then show False using assms by simp
qed

lemma lone_surrogate_diverges:
  assumes "\<forall>c\<in>set pre. \<not> surrogate c \<and> c \<noteq> 0xFFFF" and "undecodable rest"
  shows "encode_wide (pre @ rest) dst = None"
  using assms(1)
proof (induction pre arbitrary: dst)
  case (Cons c pre)
  then show ?case by (subst encode_wide.simps) (simp add: decodeUTF16_plain)
qed (simp add: encode_wide_stuck assms(2))

end
