(* ===== verification/LogProperties.thy ===== *)
theory LogProperties
  imports Transcoder
begin

text \<open>
  Property files (\<open>properties.cpp\<close>): the map of properties and the parser, a state machine that is
  fed one character at a time. The parser's local variables are a record; each case of the big
  \<open>switch\<close> over the lexical state is a definition of its own.
\<close>

section \<open>Properties\<close>

type_synonym Properties = "(LogString, LogString) std_map"

text \<open>\<open>put\<close> returns the old value, which is empty for a new key.\<close>

definition getProperty :: "LogString \<Rightarrow> Properties \<Rightarrow> LogString" where
  "getProperty key properties = (case map_of properties key of Some v \<Rightarrow> v | None \<Rightarrow> [])"

definition put :: "LogString \<Rightarrow> LogString \<Rightarrow> Properties \<Rightarrow> LogString \<times> Properties" where
  "put key val properties =
     (case map_of properties key of Some v \<Rightarrow> v | None \<Rightarrow> [], map_put key val properties)"

definition setProperty :: "LogString \<Rightarrow> LogString \<Rightarrow> Properties \<Rightarrow> LogString \<times> Properties" where
  "setProperty key val properties = put key val properties"

definition propertyNames :: "Properties \<Rightarrow> LogString list" where
  "propertyNames properties = map fst properties"

section \<open>PropertyParser\<close>

datatype LexemType =
    BEGIN
  | KEY
  | KEY_ESCAPE
  | KEY_CONTINUE
  | KEY_CONTINUE2
  | DELIMITER
  | ELEMENT
  | ELEMENT_ESCAPE
  | ELEMENT_CONTINUE
  | ELEMENT_CONTINUE2
  | COMMENT

record parser =
  p_in :: LogString
  p_c :: logchar
  p_key :: LogString
  p_element :: LogString
  p_lexem :: LexemType
  p_finished :: bool
  p_props :: Properties

text \<open>\<open>if (!get(in, c)) finished = true\<close>.\<close>

definition get_char :: "parser \<Rightarrow> parser" where
  "get_char p = (case p_in p of [] \<Rightarrow> p\<lparr>p_c := 0, p_finished := True\<rparr>
     | c # cs \<Rightarrow> p\<lparr>p_c := c, p_in := cs\<rparr>)"

definition case_BEGIN :: "parser \<Rightarrow> parser" where
  "case_BEGIN p =
     (if p_c p \<in> {0x20, 0x08, 0x0A, 0x0D} then get_char p
      else if p_c p \<in> {0x23, 0x21} then get_char (p\<lparr>p_lexem := COMMENT\<rparr>)
      else p\<lparr>p_lexem := KEY\<rparr>)"

definition case_KEY :: "parser \<Rightarrow> parser" where
  "case_KEY p =
     (if p_c p = 0x5C then get_char (p\<lparr>p_lexem := KEY_ESCAPE\<rparr>)
      else if p_c p \<in> {0x08, 0x20, 0x3A, 0x3D} then get_char (p\<lparr>p_lexem := DELIMITER\<rparr>)
      else if p_c p \<in> {0x0A, 0x0D} then
        get_char (p\<lparr>p_props := snd (setProperty (p_key p) [] (p_props p)), p_key := [], p_lexem := BEGIN\<rparr>)
      else get_char (p\<lparr>p_key := p_key p @ [p_c p]\<rparr>))"

text \<open>This \<open>switch\<close> has no default: another character changes nothing at all.\<close>

definition case_KEY_ESCAPE :: "parser \<Rightarrow> parser" where
  "case_KEY_ESCAPE p =
     (if p_c p \<in> {0x08, 0x20, 0x3A, 0x3D, 0x5C} then get_char (p\<lparr>p_key := p_key p @ [p_c p], p_lexem := KEY\<rparr>)
      else if p_c p = 0x0A then get_char (p\<lparr>p_lexem := KEY_CONTINUE\<rparr>)
      else if p_c p = 0x0D then get_char (p\<lparr>p_lexem := KEY_CONTINUE2\<rparr>)
      else p)"

definition case_KEY_CONTINUE :: "parser \<Rightarrow> parser" where
  "case_KEY_CONTINUE p = (if p_c p \<in> {0x20, 0x08} then get_char p else p\<lparr>p_lexem := KEY\<rparr>)"

definition case_KEY_CONTINUE2 :: "parser \<Rightarrow> parser" where
  "case_KEY_CONTINUE2 p = (if p_c p = 0x0A then (get_char p)\<lparr>p_lexem := KEY_CONTINUE\<rparr>
     else p\<lparr>p_lexem := KEY_CONTINUE\<rparr>)"

definition case_DELIMITER :: "parser \<Rightarrow> parser" where
  "case_DELIMITER p = (if p_c p \<in> {0x08, 0x20, 0x3A, 0x3D} then get_char p else p\<lparr>p_lexem := ELEMENT\<rparr>)"

definition case_ELEMENT :: "parser \<Rightarrow> parser" where
  "case_ELEMENT p =
     (if p_c p = 0x5C then get_char (p\<lparr>p_lexem := ELEMENT_ESCAPE\<rparr>)
      else if p_c p \<in> {0x0A, 0x0D} then
        get_char (p\<lparr>p_props := snd (setProperty (p_key p) (p_element p) (p_props p)), p_key := [],
                    p_element := [], p_lexem := BEGIN\<rparr>)
      else get_char (p\<lparr>p_element := p_element p @ [p_c p]\<rparr>))"

definition case_ELEMENT_ESCAPE :: "parser \<Rightarrow> parser" where
  "case_ELEMENT_ESCAPE p =
     (if p_c p = 0x0A then get_char (p\<lparr>p_lexem := ELEMENT_CONTINUE\<rparr>)
      else if p_c p = 0x0D then get_char (p\<lparr>p_lexem := ELEMENT_CONTINUE2\<rparr>)
      else get_char (p\<lparr>p_element := p_element p @ [p_c p], p_lexem := ELEMENT\<rparr>))"

definition case_ELEMENT_CONTINUE :: "parser \<Rightarrow> parser" where
  "case_ELEMENT_CONTINUE p = (if p_c p \<in> {0x20, 0x08} then get_char p else p\<lparr>p_lexem := ELEMENT\<rparr>)"

text \<open>The comment at the tested value 0x20 says it is a line feed, which is 0x0A.\<close>

definition case_ELEMENT_CONTINUE2 :: "parser \<Rightarrow> parser" where
  "case_ELEMENT_CONTINUE2 p = (if p_c p = 0x20 then (get_char p)\<lparr>p_lexem := ELEMENT_CONTINUE\<rparr>
     else p\<lparr>p_lexem := ELEMENT_CONTINUE\<rparr>)"

definition case_COMMENT :: "parser \<Rightarrow> parser" where
  "case_COMMENT p = get_char (if p_c p = 0x0A \<or> p_c p = 0x0D then p\<lparr>p_lexem := BEGIN\<rparr> else p)"

definition parse_step :: "parser \<Rightarrow> parser" where
  "parse_step p = (case p_lexem p of
       BEGIN \<Rightarrow> case_BEGIN p
     | KEY \<Rightarrow> case_KEY p
     | KEY_ESCAPE \<Rightarrow> case_KEY_ESCAPE p
     | KEY_CONTINUE \<Rightarrow> case_KEY_CONTINUE p
     | KEY_CONTINUE2 \<Rightarrow> case_KEY_CONTINUE2 p
     | DELIMITER \<Rightarrow> case_DELIMITER p
     | ELEMENT \<Rightarrow> case_ELEMENT p
     | ELEMENT_ESCAPE \<Rightarrow> case_ELEMENT_ESCAPE p
     | ELEMENT_CONTINUE \<Rightarrow> case_ELEMENT_CONTINUE p
     | ELEMENT_CONTINUE2 \<Rightarrow> case_ELEMENT_CONTINUE2 p
     | COMMENT \<Rightarrow> case_COMMENT p)"

partial_function (option) parse_loop :: "parser \<Rightarrow> parser option" where
  "parse_loop p = (if p_finished p then Some p else parse_loop (parse_step p))"

declare parse_loop.simps [code]

text \<open>\<open>None\<close> is that \<open>parse\<close> does not return.\<close>

definition parse_start :: "LogString \<Rightarrow> Properties \<Rightarrow> parser" where
  "parse_start inp properties = get_char \<lparr>p_in = inp, p_c = 0, p_key = [], p_element = [], p_lexem = BEGIN,
     p_finished = False, p_props = properties\<rparr>"

definition parse_end :: "parser \<Rightarrow> Properties" where
  "parse_end p = (if p_key p \<noteq> [] then snd (setProperty (p_key p) (p_element p) (p_props p)) else p_props p)"

definition parse :: "LogString \<Rightarrow> Properties \<Rightarrow> Properties option" where
  "parse inp properties = (if inp = [] then Some properties
     else map_option parse_end (parse_loop (parse_start inp properties)))"

text \<open>
  \<open>load\<close> reads the whole stream with the decoder for ISO 8859-1 (\<open>charsetdecoder.cpp\<close>), clears the
  properties and parses.
\<close>

definition decode_latin :: "byte list \<Rightarrow> LogString" where
  "decode_latin src = concat (map (\<lambda>b. encodeUTF16 (ucast b)) src)"

definition load :: "byte list \<Rightarrow> Properties option" where
  "load inStream = parse (decode_latin inStream) []"

section \<open>Steps of the parser\<close>

lemmas parse_cases = case_BEGIN_def case_KEY_def case_KEY_ESCAPE_def case_KEY_CONTINUE_def case_KEY_CONTINUE2_def
  case_DELIMITER_def case_ELEMENT_def case_ELEMENT_ESCAPE_def case_ELEMENT_CONTINUE_def
  case_ELEMENT_CONTINUE2_def case_COMMENT_def

text \<open>The parser in front of a text \<open>t\<close>, and what reading a character does there.\<close>

definition before :: "LogString \<Rightarrow> parser \<Rightarrow> parser" where
  "before t p = (case t of [] \<Rightarrow> p\<lparr>p_c := 0, p_in := [], p_finished := True\<rparr>
     | c # cs \<Rightarrow> p\<lparr>p_c := c, p_in := cs, p_finished := False\<rparr>)"

definition standing :: "LexemType \<Rightarrow> LogString \<Rightarrow> LogString \<Rightarrow> Properties \<Rightarrow> LogString \<Rightarrow> parser" where
  "standing l k e m t = before t \<lparr>p_in = [], p_c = 0, p_key = k, p_element = e, p_lexem = l,
     p_finished = False, p_props = m\<rparr>"

lemma parse_loop_step: "parse_loop (standing l k e m (c # t)) = parse_loop (parse_step (standing l k e m (c # t)))"
  by (subst parse_loop.simps) (simp add: standing_def before_def)

lemma parse_loop_end: "parse_loop (standing l k e m []) = Some (standing l k e m [])"
  by (subst parse_loop.simps) (simp add: standing_def before_def)

lemma standing_sel [simp]:
  "p_c (standing l k e m (c # t)) = c" "p_key (standing l k e m t) = k" "p_element (standing l k e m t) = e"
  "p_lexem (standing l k e m t) = l" "p_props (standing l k e m t) = m" "p_finished (standing l k e m t) = (t = [])"
  "p_in (standing l k e m (c # t)) = t"
  by (simp_all add: standing_def before_def split: list.splits)

lemma standing_upd [simp]:
  "(standing l k e m t)\<lparr>p_lexem := l'\<rparr> = standing l' k e m t"
  "(standing l k e m t)\<lparr>p_key := k'\<rparr> = standing l k' e m t"
  "(standing l k e m t)\<lparr>p_element := e'\<rparr> = standing l k e' m t"
  "(standing l k e m t)\<lparr>p_props := m'\<rparr> = standing l k e m' t"
  by (simp_all add: standing_def before_def split: list.splits)

lemma get_char_standing [simp]: "get_char (standing l k e m (c # t)) = standing l k e m t"
  by (simp add: standing_def before_def get_char_def split: list.splits)

lemma parse_start_standing: "t \<noteq> [] \<Longrightarrow> parse_start t m = standing BEGIN [] [] m t"
  by (simp add: parse_start_def standing_def before_def get_char_def split: list.splits)

section \<open>Printing and parsing\<close>

definition special :: "logchar \<Rightarrow> bool" where
  "special c \<longleftrightarrow> c \<in> {0x08, 0x20, 0x3A, 0x3D, 0x5C}"

definition newline :: "logchar \<Rightarrow> bool" where
  "newline c \<longleftrightarrow> c \<in> {0x0A, 0x0D}"

text \<open>The line for an entry, with a backslash before each character that means something.\<close>

definition escape :: "LogString \<Rightarrow> LogString" where
  "escape s = concat (map (\<lambda>c. if special c then [0x5C, c] else [c]) s)"

definition property_line :: "LogString \<times> LogString \<Rightarrow> LogString" where
  "property_line kv = escape (fst kv) @ 0x3D # escape (snd kv) @ [0x0A]"

definition printable :: "LogString \<times> LogString \<Rightarrow> bool" where
  "printable kv \<longleftrightarrow> (\<forall>c\<in>set (fst kv) \<union> set (snd kv). \<not> newline c) \<and>
     (fst kv \<noteq> [] \<longrightarrow> hd (fst kv) \<notin> {0x23, 0x21})"

lemma escape_simps [simp]:
  "escape [] = []" "escape (c # s) = (if special c then 0x5C # c # escape s else c # escape s)"
  by (simp_all add: escape_def)

lemma escape_start:
  obtains c r where "escape s @ x # t = c # r"
    and "s = [] \<and> c = x \<or> s \<noteq> [] \<and> special (hd s) \<and> c = 0x5C \<or> s \<noteq> [] \<and> \<not> special (hd s) \<and> c = hd s"
  by (cases s) (simp, cases "special (hd s)", simp_all)

lemma parse_key:
  assumes "\<forall>c\<in>set s. \<not> newline c"
  shows "parse_loop (standing KEY k e m (escape s @ t)) = parse_loop (standing KEY (k @ s) e m t)"
  using assms
proof (induction s arbitrary: k)
  case (Cons c s)
  have IH: "parse_loop (standing KEY (k @ [c]) e m (escape s @ t)) = parse_loop (standing KEY (k @ c # s) e m t)"
    using Cons by simp
  show ?case
  proof (cases "special c")
    case True
    then have "parse_loop (standing KEY k e m (0x5C # c # escape s @ t)) = parse_loop (standing KEY (k @ [c]) e m (escape s @ t))"
      by (subst parse_loop_step, simp add: parse_step_def parse_cases, subst parse_loop_step)
        (auto simp: parse_step_def parse_cases special_def)
    with True IH show ?thesis by simp
  next
    case False
    then have "parse_loop (standing KEY k e m (c # escape s @ t)) = parse_loop (standing KEY (k @ [c]) e m (escape s @ t))"
      using Cons.prems by (subst parse_loop_step) (simp add: parse_step_def parse_cases special_def newline_def)
    with False IH show ?thesis by simp
  qed
qed simp

lemma parse_element:
  assumes "\<forall>c\<in>set s. \<not> newline c"
  shows "parse_loop (standing ELEMENT k e m (escape s @ t)) = parse_loop (standing ELEMENT k (e @ s) m t)"
  using assms
proof (induction s arbitrary: e)
  case (Cons c s)
  have IH: "parse_loop (standing ELEMENT k (e @ [c]) m (escape s @ t)) = parse_loop (standing ELEMENT k (e @ c # s) m t)"
    using Cons by simp
  show ?case
  proof (cases "special c")
    case True
    then have "parse_loop (standing ELEMENT k e m (0x5C # c # escape s @ t)) = parse_loop (standing ELEMENT k (e @ [c]) m (escape s @ t))"
      using Cons.prems by (subst parse_loop_step, simp add: parse_step_def parse_cases, subst parse_loop_step)
        (simp add: parse_step_def parse_cases newline_def)
    with True IH show ?thesis by simp
  next
    case False
    then have "parse_loop (standing ELEMENT k e m (c # escape s @ t)) = parse_loop (standing ELEMENT k (e @ [c]) m (escape s @ t))"
      using Cons.prems by (subst parse_loop_step) (simp add: parse_step_def parse_cases special_def newline_def)
    with False IH show ?thesis by simp
  qed
qed simp

lemma parse_value:
  assumes "\<forall>c\<in>set s. \<not> newline c"
  shows "parse_loop (standing DELIMITER k [] m (escape s @ 0x0A # t)) = parse_loop (standing BEGIN [] [] (map_put k s m) t)"
proof -
  obtain c r where cr: "escape s @ 0x0A # t = c # r" "c \<notin> {0x08, 0x20, 0x3A, 0x3D}"
    by (rule escape_start [of s "0x0A" t], rule that, assumption) (auto simp: special_def)
  have "parse_loop (standing DELIMITER k [] m (c # r)) = parse_loop (standing ELEMENT k [] m (c # r))"
    using cr(2) by (subst parse_loop_step) (simp add: parse_step_def parse_cases)
  also have "\<dots> = parse_loop (standing ELEMENT k s m (0x0A # t))"
    using parse_element [OF assms, of k "[]" m "0x0A # t"] by (simp add: cr(1))
  also have "\<dots> = parse_loop (standing BEGIN [] [] (map_put k s m) t)"
    by (subst parse_loop_step) (simp add: parse_step_def parse_cases setProperty_def put_def)
  finally show ?thesis by (simp only: cr(1))
qed

lemma key_start: "\<not> special c \<Longrightarrow> \<not> newline c \<Longrightarrow> c \<notin> {0x23, 0x21} \<Longrightarrow> c \<notin> {0x20, 0x08, 0x0A, 0x0D, 0x23, 0x21}"
  by (simp add: special_def newline_def)

lemma parse_line:
  assumes "printable kv"
  shows "parse_loop (standing BEGIN [] [] m (property_line kv @ t)) =
     parse_loop (standing BEGIN [] [] (map_put (fst kv) (snd kv) m) t)"
proof -
  obtain k v where kv: "kv = (k, v)" by (cases kv)
  have nl: "\<forall>c\<in>set k. \<not> newline c" "\<forall>c\<in>set v. \<not> newline c" and hd: "k \<noteq> [] \<Longrightarrow> hd k \<notin> {0x23, 0x21}"
    using assms by (auto simp: printable_def kv)
  let ?r = "escape v @ 0x0A # t"
  obtain c r where cr: "escape k @ 0x3D # ?r = c # r" "c \<notin> {0x20, 0x08, 0x0A, 0x0D, 0x23, 0x21}"
  proof (rule escape_start [of k "0x3D" ?r])
    fix c r
    assume e: "escape k @ 0x3D # ?r = c # r"
      and "k = [] \<and> c = 0x3D \<or> k \<noteq> [] \<and> special (hd k) \<and> c = 0x5C \<or> k \<noteq> [] \<and> \<not> special (hd k) \<and> c = hd k"
    then have "c = 0x3D \<or> c = 0x5C \<or> \<not> special c \<and> \<not> newline c \<and> c \<notin> {0x23, 0x21}"
      using nl(1) hd by (metis list.set_sel(1))
    then have "c \<notin> {0x20, 0x08, 0x0A, 0x0D, 0x23, 0x21}"
    proof (elim disjE conjE)
      assume "\<not> special c" "\<not> newline c" "c \<notin> {0x23, 0x21}"
      then show ?thesis by (rule key_start)
    qed simp_all
    with e show thesis by (rule that)
  qed
  have "parse_loop (standing BEGIN [] [] m (c # r)) = parse_loop (standing KEY [] [] m (c # r))"
    using cr(2) by (subst parse_loop_step) (simp add: parse_step_def parse_cases)
  also have "\<dots> = parse_loop (standing KEY k [] m (0x3D # ?r))"
    using parse_key [OF nl(1), of "[]" "[]" m "0x3D # ?r"] by (simp add: cr(1))
  also have "\<dots> = parse_loop (standing DELIMITER k [] m ?r)"
    by (subst parse_loop_step) (simp add: parse_step_def parse_cases)
  also have "\<dots> = parse_loop (standing BEGIN [] [] (map_put k v m) t)" by (rule parse_value [OF nl(2)])
  finally show ?thesis by (simp add: kv property_line_def cr(1))
qed

lemma parse_lines:
  assumes "\<forall>kv\<in>set kvs. printable kv"
  shows "parse_loop (standing BEGIN [] [] m (concat (map property_line kvs))) =
     Some (standing BEGIN [] [] (fold (\<lambda>(k, v). map_put k v) kvs m) [])"
  using assms
proof (induction kvs arbitrary: m)
  case (Cons kv kvs)
  then show ?case by (simp add: parse_line split_beta)
qed (simp add: parse_loop_end)

text \<open>
  C33. Printing a list of properties, with escapes where a character would have a meaning, and parsing the
  text enters exactly these properties in order: the parser returns, and the value of each key is
  the last one that was printed for it. Keys and values are arbitrary texts without line ends, and
  keys do not start like a comment.
\<close>

theorem property_round_trip:
  assumes "\<forall>kv\<in>set kvs. printable kv"
  shows "parse (concat (map property_line kvs)) m = Some (fold (\<lambda>(k, v). map_put k v) kvs m)"
proof (cases kvs)
  case (Cons kv kvs')
  then have ne: "concat (map property_line kvs) \<noteq> []" by (simp add: property_line_def)
  show ?thesis
    unfolding parse_def parse_start_standing [OF ne] parse_lines [OF assms] if_not_P [OF ne]
    by (simp add: parse_end_def)
qed (simp add: parse_def)

theorem property_round_trip_witness:
  "parse (property_line (LS ''a b'', LS ''=c:'') @ property_line (LS ''x'', [])) [] =
     Some [(LS ''a b'', LS ''=c:''), (LS ''x'', [])]"
  using property_round_trip [of "[(LS ''a b'', LS ''=c:''), (LS ''x'', [])]" "[]"]
  by (simp add: printable_def newline_def)

section \<open>When the parser returns\<close>

text \<open>The state after at most \<open>n\<close> steps, and a backslash in a key before an unexpected character.\<close>

primrec steps :: "nat \<Rightarrow> parser \<Rightarrow> parser" where
  "steps 0 p = p"
| "steps (Suc n) p = (if p_finished p then p else steps n (parse_step p))"

definition bad_escape :: "parser \<Rightarrow> bool" where
  "bad_escape p \<longleftrightarrow> \<not> p_finished p \<and> p_lexem p = KEY_ESCAPE \<and> \<not> special (p_c p) \<and> \<not> newline (p_c p)"

lemma parse_loop_steps: "parse_loop (steps n p) = parse_loop p"
proof (induction n arbitrary: p)
  case (Suc n)
  then show ?case by (subst (2) parse_loop.simps) (simp add: parse_loop.simps [of p])
qed simp

lemma bad_escape_step: "bad_escape p \<Longrightarrow> parse_step p = p"
  by (auto simp: bad_escape_def parse_step_def parse_cases special_def newline_def)

lemma bad_escape_diverges:
  assumes "bad_escape p"
  shows "parse_loop p = None"
proof (rule ccontr)
  assume "parse_loop p \<noteq> None"
  then obtain q where q: "parse_loop p = Some q" by auto
  have "\<not> bad_escape p"
  proof (rule parse_loop.raw_induct [where P = "\<lambda>p q. \<not> bad_escape p", OF _ q])
    fix f :: "parser \<Rightarrow> parser option" and p q
    assume IH: "\<And>p q. f p = Some q \<Longrightarrow> \<not> bad_escape p" and r: "(if p_finished p then Some p else f (parse_step p)) = Some q"
    show "\<not> bad_escape p"
    proof
      assume b: "bad_escape p"
      then have "\<not> p_finished p" by (simp add: bad_escape_def)
      then have "f p = Some q" using r bad_escape_step [OF b] by simp
      then show False using IH b by blast
    qed
  qed
  then show False using assms by simp
qed

text \<open>Otherwise a step reads a character, or moves on to a state that will.\<close>

fun lexem_rank :: "LexemType \<Rightarrow> nat" where
  "lexem_rank BEGIN = 1"
| "lexem_rank KEY_CONTINUE = 1"
| "lexem_rank KEY_CONTINUE2 = 2"
| "lexem_rank DELIMITER = 1"
| "lexem_rank ELEMENT_CONTINUE = 1"
| "lexem_rank ELEMENT_CONTINUE2 = 2"
| "lexem_rank l = 0"

definition parse_measure :: "parser \<Rightarrow> nat" where
  "parse_measure p = (if p_finished p then 0 else Suc (4 * length (p_in p) + lexem_rank (p_lexem p)))"

lemma parse_step_decreases:
  assumes "\<not> p_finished p" and "\<not> bad_escape p"
  shows "parse_measure (parse_step p) < parse_measure p"
  using assms
  by (cases "p_lexem p")
    (auto simp: parse_measure_def parse_step_def parse_cases get_char_def bad_escape_def special_def newline_def
      split: list.splits if_splits)

lemma parse_loop_returns:
  assumes "\<forall>n. \<not> bad_escape (steps n p)"
  shows "parse_loop p \<noteq> None"
  using assms
proof (induction "parse_measure p" arbitrary: p rule: less_induct)
  case less
  show ?case
  proof (cases "p_finished p")
    case True
    then show ?thesis by (simp add: parse_loop.simps [of p])
  next
    case False
    have "\<not> bad_escape p" using less.prems [rule_format, of 0] by simp
    then have dec: "parse_measure (parse_step p) < parse_measure p" by (rule parse_step_decreases [OF False])
    have "\<forall>n. \<not> bad_escape (steps n (parse_step p))"
    proof
      fix n
      show "\<not> bad_escape (steps n (parse_step p))" using less.prems [rule_format, of "Suc n"] False by simp
    qed
    then have "parse_loop (parse_step p) \<noteq> None" by (rule less.hyps [OF dec])
    then show ?thesis using False by (simp add: parse_loop.simps [of p])
  qed
qed

lemma parse_bad_escape: "inp \<noteq> [] \<Longrightarrow> bad_escape (steps n (parse_start inp m)) \<Longrightarrow> parse inp m = None"
  using bad_escape_diverges [of "steps n (parse_start inp m)"] by (simp add: parse_loop_steps parse_def)

text \<open>
  C35. The parser of property files fails to return for exactly those texts in which it comes to a
  backslash in a key that is followed by a character other than a delimiter, a backslash or a
  line end: the loop then goes on for ever without reading anything.
\<close>

theorem parse_diverges_iff:
  "parse inp m = None \<longleftrightarrow> (\<exists>n. bad_escape (steps n (parse_start inp m)))"
proof (cases "inp = []")
  case True
  have f: "p_finished (parse_start [] m)" by (simp add: parse_start_def get_char_def)
  then have "steps n (parse_start [] m) = parse_start [] m" for n by (cases n) simp_all
  then show ?thesis using True f by (simp add: parse_def bad_escape_def)
next
  case False
  then have "parse inp m = None \<longleftrightarrow> parse_loop (parse_start inp m) = None" by (simp add: parse_def)
  then show ?thesis using parse_loop_returns [of "parse_start inp m"] parse_bad_escape [OF False] by blast
qed

text \<open>For example, a key that starts with a drive letter and a path of Windows.\<close>

lemma path_key_diverges: "parse (LS ''C'' @ 0x5C # LS ''temp=1'') m = None"
proof -
  have "bad_escape (steps (Suc (Suc (Suc 0))) (parse_start (LS ''C'' @ 0x5C # LS ''temp=1'') m))"
    by (simp add: parse_start_standing parse_step_def parse_cases bad_escape_def special_def newline_def)
  then show ?thesis by (rule parse_bad_escape [rotated]) simp
qed

end
