(* ===== verification/LogOptions.thy ===== *)
theory LogOptions
  imports LogProperties
begin

text \<open>
  Values of options (\<open>optionconverter.cpp\<close>): escapes, truth values, numbers, file sizes and levels,
  and the substitution of variables \<open>${name}\<close>. The system properties (environment variables and the
  like) are a parameter \<open>sys\<close>, and so is the encoder of the local charset.
\<close>

section \<open>Conversions\<close>

definition IllegalArgumentException :: error where
  "IllegalArgumentException = Exception ''IllegalArgumentException''"

text \<open>A backslash at the end makes the loop read the element behind the end.\<close>

fun convert_loop :: "LogString \<Rightarrow> LogString \<Rightarrow> LogString run" where
  "convert_loop [] sbuf = ret sbuf"
| "convert_loop (c # s) sbuf =
     (if c = 0x5C then
        (case s of [] \<Rightarrow> crash Read_Out_Of_Bounds
         | d # s' \<Rightarrow> convert_loop s' (sbuf @ [if d = 0x6E then 0x0A else if d = 0x72 then 0x0D
             else if d = 0x74 then 0x09 else if d = 0x66 then 0x0C else d]))
      else convert_loop s (sbuf @ [c]))"

definition convertSpecialChars :: "LogString \<Rightarrow> LogString run" where
  "convertSpecialChars s = convert_loop s []"

definition toBoolean :: "LogString \<Rightarrow> bool \<Rightarrow> bool run" where
  "toBoolean val dEfault =
     bind_run (if 4 \<le> length val then equalsIgnoreCase (substr val 0 4) (LZ ''TRUE'') (LZ ''true'') else ret False)
       (\<lambda>b. if b then ret True else
     bind_run (if dEfault \<and> 5 \<le> length val then equalsIgnoreCase (substr val 0 5) (LZ ''FALSE'') (LZ ''false'') else ret False)
       (\<lambda>b. if b then ret False else ret dEfault))"

text \<open>
  \<open>Transcoder::encode\<close> copies ASCII characters and gives the rest to the encoder of the local charset.
  A call of the encoder reports whether it failed, where it stopped, and the bytes it wrote.
\<close>

partial_function (option) encode_rest ::
  "(LogString \<Rightarrow> bool \<times> LogString \<times> byte list) \<Rightarrow> LogString \<Rightarrow> byte list \<Rightarrow> (error + byte list) option" where
  "encode_rest encoder iter dst =
     (case iter of [] \<Rightarrow> Some (Inr dst)
      | _ \<Rightarrow> (case encoder iter of (err, iter, out) \<Rightarrow>
          if err then (case iter of [] \<Rightarrow> Some (Inl (Crash Read_Out_Of_Bounds))
                       | _ # iter \<Rightarrow> encode_rest encoder iter (dst @ out @ [LOSSCHAR]))
          else encode_rest encoder iter (dst @ out)))"

declare encode_rest.simps [code]

definition encode_local :: "(LogString \<Rightarrow> bool \<times> LogString \<times> byte list) \<Rightarrow> LogString \<Rightarrow> byte list run" where
  "encode_local encoder s =
     encode_rest encoder (dropWhile (\<lambda>c. c < 0x80) s) (map ucast (takeWhile (\<lambda>c. c < 0x80) s))"

text \<open>\<open>long\<close> has 32 bits in this build, so that \<open>atol\<close> is \<open>atoi\<close>.\<close>

definition toInt :: "(LogString \<Rightarrow> bool \<times> LogString \<times> byte list) \<Rightarrow> LogString \<Rightarrow> int \<Rightarrow> int run" where
  "toInt encoder val dEfault =
     (let trimmed = trim val in
      if trimmed = [] then ret dEfault else bind_run (encode_local encoder trimmed) (\<lambda>cvalue. ret (atoi cvalue)))"

definition toFileSize :: "(LogString \<Rightarrow> bool \<times> LogString \<times> byte list) \<Rightarrow> LogString \<Rightarrow> int \<Rightarrow> int run" where
  "toFileSize encoder s dEfault =
     (if s = [] then ret dEfault
      else case find_first_of (LS ''bB'') s 0 of
        None \<Rightarrow> toInt encoder s 1
      | Some index \<Rightarrow>
          if 0 < index then
            (let index = index - 1;
                 multiplier = (if s ! index = 0x6B \<or> s ! index = 0x4B then 1024
                   else if s ! index = 0x6D \<or> s ! index = 0x4D then 1024 * 1024
                   else if s ! index = 0x67 \<or> s ! index = 0x47 then 1024 * 1024 * 1024 else 1)
             in bind_run (toInt encoder (substr s 0 index) 1) (\<lambda>n. ret (to_int32 (n * multiplier))))
          else toInt encoder s 1)"

section \<open>Variables\<close>

definition getSystemProperty :: "(LogString \<Rightarrow> LogString) \<Rightarrow> LogString \<Rightarrow> LogString \<Rightarrow> LogString" where
  "getSystemProperty sys key def =
     (if key \<noteq> [] then (let val = sys key in if val \<noteq> [] then val else def) else def)"

text \<open>
  \<open>substVars\<close> calls itself for the replacement; the loop and the recursion are one partial function,
  where \<open>i\<close> and \<open>sbuf\<close> are the loop's variables. The message of the exception is not modelled.
\<close>

definition var_value :: "(LogString \<Rightarrow> LogString) \<Rightarrow> Properties \<Rightarrow> LogString \<Rightarrow> LogString" where
  "var_value sys props key =
     (let replacement = getSystemProperty sys key [] in
      if replacement = [] then getProperty key props else replacement)"

lemma bind_run_mono [partial_function_mono]:
  fixes B :: "('x \<Rightarrow> 'y option) \<Rightarrow> 'a run" and C :: "('x \<Rightarrow> 'y option) \<Rightarrow> 'a \<Rightarrow> 'b run"
  assumes "monotone (fun_ord option_ord) option_ord B"
    and "\<And>y. monotone (fun_ord option_ord) option_ord (\<lambda>f. C f y)"
  shows "monotone (fun_ord option_ord) option_ord (\<lambda>f. bind_run (B f) (C f))"
proof (rule monotoneI)
  fix f g :: "'x \<Rightarrow> 'y option"
  assume fg: "fun_ord option_ord f g"
  have b: "option_ord (B f) (B g)" using assms(1) fg unfolding monotone_on_def by blast
  have c: "option_ord (C f y) (C g y)" for y using assms(2) [of y] fg unfolding monotone_on_def by blast
  show "option_ord (bind_run (B f) (C f)) (bind_run (B g) (C g))"
  proof (cases "B f")
    case None
    then show ?thesis by (simp add: flat_ord_def)
  next
    case (Some r)
    with b have "B g = Some r" by (auto simp: flat_ord_def)
    with Some c show ?thesis by (cases r) (auto simp: flat_ord_def)
  qed
qed

partial_function (option) subst_loop ::
  "(LogString \<Rightarrow> LogString) \<Rightarrow> Properties \<Rightarrow> LogString \<Rightarrow> nat \<Rightarrow> LogString \<Rightarrow> (error + LogString) option" where
  "subst_loop sys props val i sbuf =
     (case find_str (LS ''${'') val i of
        None \<Rightarrow> if i = 0 then ret val else ret (sbuf @ substr val i (length val - i))
      | Some j \<Rightarrow>
          let sbuf = sbuf @ substr val i (j - i) in
          (case find_str (LS ''}'') val j of
             None \<Rightarrow> raise IllegalArgumentException
           | Some k \<Rightarrow>
               let j = j + 2; key = substr val j (k - j); replacement = var_value sys props key in
               if replacement \<noteq> []
               then bind_run (subst_loop sys props replacement 0 [])
                      (\<lambda>recursiveReplacement. subst_loop sys props val (k + 1) (sbuf @ recursiveReplacement))
               else subst_loop sys props val (k + 1) sbuf))"

declare subst_loop.simps [code]

definition substVars :: "(LogString \<Rightarrow> LogString) \<Rightarrow> Properties \<Rightarrow> LogString \<Rightarrow> LogString run" where
  "substVars sys props val = subst_loop sys props val 0 []"

definition findAndSubst :: "(LogString \<Rightarrow> LogString) \<Rightarrow> LogString \<Rightarrow> Properties \<Rightarrow> LogString run" where
  "findAndSubst sys key props =
     (let val = getProperty key props in
      if val = [] then ret val
      else case substVars sys props val of
        Some (Inl e) \<Rightarrow> if e = IllegalArgumentException then ret val else raise e
      | r \<Rightarrow> r)"

section \<open>Levels\<close>

text \<open>
  \<open>Loader::loadClass\<close> is a parameter: it yields no class, which is the exception for that, or a level
  class with its \<open>toLevel\<close>, which may throw.
\<close>

definition toLevel :: "(LogString \<Rightarrow> (LogString \<Rightarrow> error + Level option) option) \<Rightarrow> LogString \<Rightarrow> Level option \<Rightarrow>
    Level option run" where
  "toLevel loadClass val defaultValue =
     (case find_str (LS ''#'') val 0 of
        None \<Rightarrow> if val = [] then ret defaultValue else toLevelLS val defaultValue
      | Some hashIndex \<Rightarrow>
          let clazz = drop (hashIndex + 1) val; levelName = substr val 0 hashIndex in
          if levelName = [] then toLevelLS val defaultValue
          else case loadClass clazz of
            None \<Rightarrow> ret defaultValue
          | Some levelClass \<Rightarrow> (case levelClass levelName of
              Inr l \<Rightarrow> ret l
            | Inl e \<Rightarrow> if catchable e then ret defaultValue else raise e))"

section \<open>What the substitution means\<close>

abbreviation opener :: LogString where
  "opener \<equiv> [0x24, 0x7B]"

definition no_open :: "LogString \<Rightarrow> bool" where
  "no_open s \<longleftrightarrow> (\<forall>q. take 2 (drop q s) \<noteq> opener)"

text \<open>
  A text stands for the text in which each variable is replaced by what its value stands for, and
  a variable without a value by nothing.
\<close>

inductive expands :: "(LogString \<Rightarrow> LogString) \<Rightarrow> Properties \<Rightarrow> LogString \<Rightarrow> LogString \<Rightarrow> bool" for sys props where
  plain: "no_open s \<Longrightarrow> expands sys props s s"
| variable: "no_open pre \<Longrightarrow> 0x7D \<notin> set key \<Longrightarrow> var_value sys props key \<noteq> [] \<Longrightarrow>
    expands sys props (var_value sys props key) r \<Longrightarrow> expands sys props rest r' \<Longrightarrow>
    expands sys props (pre @ opener @ key @ [0x7D] @ rest) (pre @ r @ r')"
| unset: "no_open pre \<Longrightarrow> 0x7D \<notin> set key \<Longrightarrow> var_value sys props key = [] \<Longrightarrow>
    expands sys props rest r' \<Longrightarrow> expands sys props (pre @ opener @ key @ [0x7D] @ rest) (pre @ r')"

lemma LS_opener [simp]: "LS ''${'' = opener" "LS ''}'' = [0x7D]"
  by simp_all

lemma drop_split: "drop i val = xs @ ys \<Longrightarrow> i \<le> k \<Longrightarrow> k \<le> i + length xs \<Longrightarrow> drop k val = drop (k - i) xs @ ys"
proof -
  assume "drop i val = xs @ ys" "i \<le> k" "k \<le> i + length xs"
  then have "drop (k - i) (drop i val) = drop (k - i) (xs @ ys)" by simp
  then show ?thesis using \<open>i \<le> k\<close> \<open>k \<le> i + length xs\<close> by simp
qed

lemma no_open_append:
  assumes "no_open pre" and "q < length pre"
  shows "take 2 (drop q pre @ opener @ post) \<noteq> opener"
proof -
  obtain a t where t: "drop q pre = a # t" using assms(2) by (cases "drop q pre") auto
  have "take 2 (a # t) \<noteq> opener" using assms(1) t unfolding no_open_def by metis
  then show ?thesis by (cases t) (auto simp: t)
qed

lemma find_open:
  assumes "drop i val = pre @ opener @ post" and "no_open pre"
  shows "find_str opener val i = Some (i + length pre)"
proof -
  have at: "drop (i + length pre) val = opener @ post" using drop_split [OF assms(1)] by simp
  have "length (drop i val) = length (pre @ opener @ post)" using assms(1) by simp
  then have "i + length pre \<le> length val" by simp
  moreover have "take 2 (drop k val) \<noteq> opener" if "i \<le> k" "k < i + length pre" for k
    using drop_split [OF assms(1), of k] that no_open_append [OF assms(2), of "k - i" post] by simp
  ultimately show ?thesis using at by (simp add: find_str_Some_iff numeral_2_eq_2)
qed

lemma find_openD:
  assumes "find_str opener val i = Some j"
  shows "i \<le> j \<and> drop i val = take (j - i) (drop i val) @ opener @ drop (j + 2) val \<and> no_open (take (j - i) (drop i val)) \<and>
     drop j val = opener @ drop (j + 2) val"
proof -
  have j: "i \<le> j" "take 2 (drop j val) = opener" and none: "\<And>k. i \<le> k \<Longrightarrow> k < j \<Longrightarrow> take 2 (drop k val) \<noteq> opener"
    using assms by (auto simp: find_str_Some_iff numeral_2_eq_2)
  have "drop j val = take 2 (drop j val) @ drop 2 (drop j val)" by (rule append_take_drop_id [symmetric])
  then have at: "drop j val = opener @ drop (j + 2) val" by (simp add: j(2) add.commute)
  moreover have "drop (j - i) (drop i val) = drop j val" using j(1) by simp
  ultimately have split: "drop i val = take (j - i) (drop i val) @ opener @ drop (j + 2) val"
    by (metis append_take_drop_id)
  have "no_open (take (j - i) (drop i val))"
    unfolding no_open_def
  proof (intro allI notI)
    fix q
    assume q: "take 2 (drop q (take (j - i) (drop i val))) = opener"
    then have "length (take 2 (drop q (take (j - i) (drop i val)))) = 2" by simp
    then have lq: "q + 2 \<le> j - i" by auto
    have "take 2 (drop (i + q) val) = take 2 (drop q (take (j - i) (drop i val)))"
      using lq by (simp add: drop_take min_def add.commute)
    then show False using none [of "i + q"] q lq by simp
  qed
  with split j(1) at show ?thesis by simp
qed

lemma find_close:
  assumes "drop j val = x @ [0x7D] @ post" and "0x7D \<notin> set x"
  shows "find_str [0x7D] val j = Some (j + length x)"
proof -
  have at: "drop (j + length x) val = [0x7D] @ post" using drop_split [OF assms(1)] by simp
  have "length (drop j val) = length (x @ [0x7D] @ post)" using assms(1) by simp
  then have "j + length x \<le> length val" by simp
  moreover have "take (Suc 0) (drop k val) \<noteq> [0x7D]" if k: "j \<le> k" "k < j + length x" for k
  proof -
    obtain a t where t: "drop (k - j) x = a # t" using k by (cases "drop (k - j) x") auto
    then have "a \<in> set x" by (metis in_set_dropD list.set_intros(1))
    then show ?thesis using drop_split [OF assms(1), of k] k t assms(2) by auto
  qed
  ultimately show ?thesis using at by (simp add: find_str_Some_iff)
qed

lemma find_closeD:
  fixes val :: LogString
  assumes "find_str [0x7D] val j = Some k"
  shows "j \<le> k \<and> drop j val = take (k - j) (drop j val) @ [0x7D] @ drop (k + 1) val \<and> 0x7D \<notin> set (take (k - j) (drop j val))"
proof -
  have k: "j \<le> k" "k \<le> length val" "take (Suc 0) (drop k val) = [0x7D]" and none: "\<And>q. j \<le> q \<Longrightarrow> q < k \<Longrightarrow> take (Suc 0) (drop q val) \<noteq> [0x7D]"
    using assms by (auto simp: find_str_Some_iff)
  have "drop k val = take (Suc 0) (drop k val) @ drop (Suc 0) (drop k val)" by (rule append_take_drop_id [symmetric])
  then have "drop k val = [0x7D] @ drop (k + 1) val" by (simp only: k(3)) simp
  moreover have "drop (k - j) (drop j val) = drop k val" using k(1) by simp
  ultimately have split: "drop j val = take (k - j) (drop j val) @ [0x7D] @ drop (k + 1) val"
    by (metis append_take_drop_id)
  have "0x7D \<notin> set (take (k - j) (drop j val))"
  proof
    assume "0x7D \<in> set (take (k - j) (drop j val))"
    then obtain q where q: "q < k - j" "q < length val - j" "val ! (j + q) = 0x7D" by (auto simp: in_set_conv_nth)
    then have "take (Suc 0) (drop (j + q) val) = [0x7D]" by (simp add: take_Suc_conv_app_nth)
    then show False using none [of "j + q"] q by simp
  qed
  with split k(1) show ?thesis by simp
qed

lemma find_variable:
  assumes "find_str opener val i = Some j" and "find_str [0x7D] val j = Some k"
  defines "pre \<equiv> substr val i (j - i)" and "key \<equiv> substr val (j + 2) (k - (j + 2))"
  shows "drop i val = pre @ opener @ key @ [0x7D] @ drop (k + 1) val" and "no_open pre" and "0x7D \<notin> set key"
    and "i < k + 1" and "k + 1 \<le> length val"
proof -
  note o = find_openD [OF assms(1)] and c = find_closeD [OF assms(2)]
  have j: "drop j val = opener @ drop (j + 2) val"
    using o by simp
  have len: "length (drop j val) = length (take (k - j) (drop j val) @ [0x7D] @ drop (k + 1) val)" using c by simp
  have kl: "k < length val"
  proof (rule ccontr)
    assume "\<not> k < length val"
    then show False using len by simp
  qed
  have "k \<noteq> j" "k \<noteq> j + 1" using c j kl by (auto simp: Cons_eq_append_conv take_Cons' split: if_splits)
  then have k: "j + 2 \<le> k" using c by auto
  have "take (k - j) (drop j val) = opener @ key"
    unfolding j key_def substr_def using k by (simp add: take_Cons' numeral_2_eq_2)
  then have close: "drop j val = opener @ key @ [0x7D] @ drop (k + 1) val" "0x7D \<notin> set key" using c by auto
  have "opener @ drop (j + 2) val = opener @ key @ [0x7D] @ drop (k + 1) val" using j close(1) by simp
  then show "drop i val = pre @ opener @ key @ [0x7D] @ drop (k + 1) val"
    using o unfolding pre_def substr_def by metis
  show "no_open pre" using o by (simp add: pre_def substr_def)
  show "0x7D \<notin> set key" by (fact close(2))
  show "i < k + 1" "k + 1 \<le> length val" using o k kl by auto
qed

lemma at_variable:
  assumes "drop i val = pre @ opener @ key @ [0x7D] @ rest" and "no_open pre" and "0x7D \<notin> set key"
  defines "j \<equiv> i + length pre" and "k \<equiv> i + length pre + 2 + length key"
  shows "find_str opener val i = Some j" and "find_str [0x7D] val j = Some k" and "substr val i (j - i) = pre"
    and "substr val (j + 2) (k - (j + 2)) = key" and "drop (k + 1) val = rest" and "k + 1 \<le> length val"
proof -
  show oj: "find_str opener val i = Some j" unfolding j_def by (rule find_open [OF assms(1,2)])
  have dj: "drop j val = (opener @ key) @ [0x7D] @ rest" using drop_split [OF assms(1), of j] by (simp add: j_def)
  show ck: "find_str [0x7D] val j = Some k" using find_close [OF dj] assms(3) by (simp add: j_def k_def add.assoc)
  show "substr val i (j - i) = pre" by (simp add: substr_def assms(1) j_def)
  have dk: "drop (j + 2) val = key @ [0x7D] @ rest"
    using drop_split [of j val "opener" "key @ [0x7D] @ rest" "j + 2"] dj by simp
  show "substr val (j + 2) (k - (j + 2)) = key" unfolding substr_def dk by (simp add: j_def k_def)
  show "drop (k + 1) val = rest"
    using drop_split [of "j + 2" val "key @ [0x7D]" rest "k + 1"] dk by (simp add: j_def k_def)
  show "k + 1 \<le> length val" using find_variable(5) [OF oj ck] .
qed

text \<open>The loop from a position on, for a text of which the meaning of the rest is known.\<close>

lemma subst_loop_expands:
  assumes "expands sys props s r"
  shows "drop i val = s \<Longrightarrow> (i = 0 \<Longrightarrow> sbuf = []) \<Longrightarrow> i \<le> length val \<Longrightarrow> subst_loop sys props val i sbuf = ret (sbuf @ r)"
  using assms
proof (induction s r arbitrary: val i sbuf rule: expands.induct)
  case (plain s)
  have "find_str opener val i = None"
    unfolding find_str_None_iff
  proof (intro allI impI)
    fix j
    assume "i \<le> j"
    then have "drop j val = drop (j - i) s" using plain(2) by auto
    then show "take (length opener) (drop j val) \<noteq> opener" using plain(1) by (simp add: no_open_def numeral_2_eq_2)
  qed
  then show ?case using plain by (subst subst_loop.simps) (auto simp: substr_def)
next
  case (variable pre key r rest r')
  note v = at_variable [OF _ variable(1,2), of i val rest, simplified variable.prems(1)]
  let ?k = "i + length pre + 2 + length key"
  have "subst_loop sys props val i sbuf =
      bind_run (subst_loop sys props (var_value sys props key) 0 [])
        (\<lambda>x. subst_loop sys props val (?k + 1) ((sbuf @ pre) @ x))"
    by (subst subst_loop.simps) (simp only: LS_opener v(1-4) option.case Let_def variable(3) if_True not_False_eq_True)
  also have "\<dots> = ret (sbuf @ pre @ r @ r')"
    using variable.IH(1) [of 0 "var_value sys props key" "[]"] variable.IH(2) [of "?k + 1" val "(sbuf @ pre) @ r"] v(5,6)
    by simp
  finally show ?case by simp
next
  case (unset pre key rest r')
  note v = at_variable [OF _ unset(1,2), of i val rest, simplified unset.prems(1)]
  let ?k = "i + length pre + 2 + length key"
  have "subst_loop sys props val i sbuf = subst_loop sys props val (?k + 1) (sbuf @ pre)"
    by (subst subst_loop.simps) (simp only: LS_opener v(1-4) option.case Let_def unset(3) if_False simp_thms)
  then show ?case using unset.IH [of "?k + 1" val "sbuf @ pre"] v(5,6) by simp
qed

lemma subst_loop_sound:
  assumes "subst_loop sys props val i sbuf = Some res"
  shows "i \<le> length val \<Longrightarrow> (i = 0 \<Longrightarrow> sbuf = []) \<Longrightarrow> res = Inr out \<Longrightarrow> \<exists>r. out = sbuf @ r \<and> expands sys props (drop i val) r"
proof (rule subst_loop.raw_induct [where P = "\<lambda>s p val i sbuf res. s = sys \<longrightarrow> p = props \<longrightarrow> i \<le> length val \<longrightarrow>
    (i = 0 \<longrightarrow> sbuf = []) \<longrightarrow> (\<forall>out. res = Inr out \<longrightarrow> (\<exists>r. out = sbuf @ r \<and> expands sys props (drop i val) r))",
    OF _ assms, rule_format], goal_cases)
  case (1 f s p val i sbuf res out)
  note IH = 1(4) and eq = 1(5) and i = 1(8) and i0 = 1(9) and res = 1(10)
  show ?case
  proof (cases "find_str opener val i")
    case None
    have "no_open (drop i val)"
      unfolding no_open_def
    proof (intro allI notI)
      fix q
      assume q: "take 2 (drop q (drop i val)) = opener"
      have "q + i \<le> length val"
      proof (rule ccontr)
        assume "\<not> q + i \<le> length val"
        then show False using q by simp
      qed
      then show False using None q by (auto simp: find_str_None_iff add.commute numeral_2_eq_2)
    qed
    moreover have "out = sbuf @ drop i val"
    proof (cases "i = 0")
      case True
      then show ?thesis using None eq res i0 by (auto simp: ret_def)
    next
      case False
      then show ?thesis using None eq res by (simp add: ret_def substr_def)
    qed
    ultimately show ?thesis by (blast intro: expands.plain)
  next
    case j: (Some j)
    show ?thesis
    proof (cases "find_str [0x7D] val j")
      case None
      then show ?thesis using j eq res by (simp add: raise_def)
    next
      case k: (Some k)
      define pre where "pre = substr val i (j - i)"
      define key where "key = substr val (j + 2) (k - (j + 2))"
      note v = find_variable [OF j k, folded pre_def key_def]
      show ?thesis
      proof (cases "var_value sys props key = []")
        case True
        then have "f sys props val (k + 1) (sbuf @ pre) = Some (Inr out)"
          using eq j k res 1(6,7) by (simp add: Let_def pre_def key_def)
        from IH [OF this] v(5) obtain r where "out = sbuf @ pre @ r" "expands sys props (drop (k + 1) val) r"
          by auto
        then show ?thesis unfolding v(1) using expands.unset [OF v(2,3) True] by blast
      next
        case False
        then obtain r where r: "f sys props (var_value sys props key) 0 [] = Some (Inr r)"
            "f sys props val (k + 1) ((sbuf @ pre) @ r) = Some (Inr out)"
          using eq j k res 1(6,7)
          by (auto simp: Let_def pre_def key_def bind_run_def split: option.splits sum.splits)
        from IH [OF r(1)] have r1: "expands sys props (var_value sys props key) r" by auto
        from IH [OF r(2)] v(5) obtain r' where "out = sbuf @ pre @ r @ r'" "expands sys props (drop (k + 1) val) r'"
          by auto
        then show ?thesis unfolding v(1) using expands.variable [OF v(2,3) False r1] by blast
      qed
    qed
  qed
qed simp_all

text \<open>
  C34. Substitution of variables returns a text exactly if it is what the given text stands for: variables
  are replaced from left to right by what their values, from the system or else from the
  properties, stand for, and variables without a value disappear.
\<close>

theorem substVars_iff: "substVars sys props val = ret out \<longleftrightarrow> expands sys props val out"
proof
  assume "substVars sys props val = ret out"
  then have "subst_loop sys props val 0 [] = Some (Inr out)" by (simp add: substVars_def ret_def)
  from subst_loop_sound [OF this] show "expands sys props val out" by simp
next
  assume "expands sys props val out"
  from subst_loop_expands [OF this, of 0 val "[]"] show "substVars sys props val = ret out" by (simp add: substVars_def)
qed

section \<open>Termination of the substitution\<close>

text \<open>The variables that occur in a text.\<close>

definition variables :: "LogString \<Rightarrow> LogString set" where
  "variables s = {key. 0x7D \<notin> set key \<and> (\<exists>pre rest. s = pre @ opener @ key @ [0x7D] @ rest)}"

lemma variable_found:
  assumes "find_str opener val i = Some j" and "find_str [0x7D] val j = Some k"
  shows "substr val (j + 2) (k - (j + 2)) \<in> variables val"
proof -
  note v = find_variable [OF assms]
  have "val = (take i val @ substr val i (j - i)) @ opener @ substr val (j + 2) (k - (j + 2)) @ [0x7D] @ drop (k + 1) val"
    using v(1) append_take_drop_id [of i val] by simp
  then show ?thesis using v(3) unfolding variables_def by blast
qed

lemma subst_loop_returns:
  fixes rank :: "LogString \<Rightarrow> nat"
  assumes "\<And>key key'. key' \<in> variables (var_value sys props key) \<Longrightarrow> rank key' < rank key"
  shows "\<forall>key\<in>variables val. rank key < n \<Longrightarrow> returns (subst_loop sys props val i sbuf)"
proof (induction n arbitrary: val i sbuf)
  case 0
  then have "variables val = {}" by auto
  then show ?case
    using variable_found [of val i] by (subst subst_loop.simps) (auto simp: Let_def split: option.splits)
next
  case (Suc n)
  show ?case
    using Suc.prems
  proof (induction "length val - i" arbitrary: i sbuf rule: less_induct)
    case less
    show ?case
    proof (cases "find_str opener val i")
      case None
      then show ?thesis by (subst subst_loop.simps) simp
    next
      case j: (Some j)
      show ?thesis
      proof (cases "find_str [0x7D] val j")
        case None
        with j show ?thesis by (subst subst_loop.simps) (simp add: Let_def)
      next
        case k: (Some k)
        let ?key = "substr val (j + 2) (k - (j + 2))"
        have "length val - (k + 1) < length val - i" using find_variable(4,5) [OF j k] by simp
        then have next_returns: "returns (subst_loop sys props val (k + 1) sb)" for sb
          by (rule less(1)) (rule less(2))
        have "rank ?key < Suc n" using variable_found [OF j k] less(2) by blast
        then have "\<forall>key\<in>variables (var_value sys props ?key). rank key < n" using assms by (meson less_Suc_eq_le less_le_trans)
        then have "returns (subst_loop sys props (var_value sys props ?key) 0 [])" by (rule Suc.IH)
        then show ?thesis
          by (subst subst_loop.simps) (simp only: LS_opener j k option.case Let_def,
            auto simp: next_returns [simplified])
      qed
    qed
  qed
qed

text \<open>
  C37. Substitution returns, normally or with an exception, if the variables can be ranked so that each
  variable's value mentions only variables of lower rank.
\<close>

theorem substVars_returns:
  fixes rank :: "LogString \<Rightarrow> nat"
  assumes "\<And>key key'. key' \<in> variables (var_value sys props key) \<Longrightarrow> rank key' < rank key"
  shows "\<exists>res. substVars sys props val = Some res"
proof -
  have "finite (variables val)"
  proof (rule finite_subset)
    show "variables val \<subseteq> {s. set s \<subseteq> set val \<and> length s \<le> length val}" by (auto simp: variables_def)
    show "finite {s. set s \<subseteq> set val \<and> length s \<le> length val}" by (rule finite_lists_length_le) simp
  qed
  then have "\<forall>key\<in>variables val. rank key < Suc (Max (rank ` variables val))" by (simp add: less_Suc_eq_le)
  from subst_loop_returns [OF assms this, where i = 0 and sbuf = "[]"]
  show ?thesis by (simp add: substVars_def returns_def)
qed

lemma variables_none: "0x24 \<notin> set s \<Longrightarrow> variables s = {}"
  by (auto simp: variables_def)

theorem substVars_returns_witness:
  "\<exists>res. substVars (\<lambda>_. []) [(LS ''x'', LS ''1''), (LS ''y'', LS ''${x}'')] (LS ''a${y}b'') = Some res"
proof (rule substVars_returns [where rank = "\<lambda>key. if key = LS ''y'' then 1 else 0"])
  fix key key'
  let ?props = "[(LS ''x'', LS ''1''), (LS ''y'', LS ''${x}'')]"
  assume k: "key' \<in> variables (var_value (\<lambda>_. []) ?props key)"
  have v: "var_value (\<lambda>_. []) ?props key = getProperty key ?props"
    by (simp add: var_value_def getSystemProperty_def)
  have "key = LS ''y''"
    using k unfolding v by (auto simp: getProperty_def variables_none split: if_splits)
  moreover have "key' \<noteq> LS ''y''"
  proof
    assume "key' = LS ''y''"
    then have "0x79 \<in> set (LS ''${x}'')" using k \<open>key = LS ''y''\<close> unfolding v
      by (auto simp: getProperty_def variables_def Cons_eq_append_conv)
    then show False by simp
  qed
  ultimately show "(if key' = LS ''y'' then 1 else 0) < (if key = LS ''y'' then 1 else 0 :: nat)" by simp
qed

text \<open>A variable whose value is the variable itself makes the recursion endless.\<close>

lemma self_reference_diverges:
  assumes "0x7D \<notin> set key" and "var_value sys props key = opener @ key @ [0x7D]"
  shows "substVars sys props (opener @ key @ [0x7D]) = None"
proof (rule ccontr)
  let ?v = "opener @ key @ [0x7D]"
  assume "substVars sys props ?v \<noteq> None"
  then obtain res where r: "subst_loop sys props ?v 0 [] = Some res" by (auto simp: substVars_def)
  have "(sys, props, ?v, 0, []) \<noteq> (sys, props, ?v, 0 :: nat, [] :: LogString)"
  proof (rule subst_loop.raw_induct [where P = "\<lambda>s p val i sbuf res. (s, p, val, i, sbuf) \<noteq> (sys, props, ?v, 0, [])", OF _ r])
    fix f :: "(LogString \<Rightarrow> LogString) \<Rightarrow> Properties \<Rightarrow> LogString \<Rightarrow> nat \<Rightarrow> LogString \<Rightarrow> (error + LogString) option"
      and s p val i sbuf res
    assume IH: "\<And>s p val i sbuf res. f s p val i sbuf = Some res \<Longrightarrow> (s, p, val, i, sbuf) \<noteq> (sys, props, ?v, 0, [])"
      and eq: "(case find_str (LS ''${'') val i of
        None \<Rightarrow> if i = 0 then ret val else ret (sbuf @ substr val i (length val - i))
      | Some j \<Rightarrow>
          let sbuf = sbuf @ substr val i (j - i) in
          (case find_str (LS ''}'') val j of
             None \<Rightarrow> raise IllegalArgumentException
           | Some k \<Rightarrow>
               let j = j + 2; key = substr val j (k - j); replacement = var_value s p key in
               if replacement \<noteq> []
               then bind_run (f s p replacement 0 [])
                      (\<lambda>recursiveReplacement. f s p val (k + 1) (sbuf @ recursiveReplacement))
               else f s p val (k + 1) sbuf)) = Some res"
    have none: "no_open []" by (simp add: no_open_def)
    note v = at_variable [of 0 ?v "[]" key "[]", OF _ none assms(1), simplified]
    show "(s, p, val, i, sbuf) \<noteq> (sys, props, ?v, 0, [])"
    proof
      assume a: "(s, p, val, i, sbuf) = (sys, props, ?v, 0, [])"
      then have "bind_run (f sys props ?v 0 []) (\<lambda>r. f sys props ?v (length key + 3) r) = Some res"
        using eq v assms(2) by (simp add: Let_def numeral_3_eq_3)
      then obtain r where "f sys props ?v 0 [] = Some r" by (cases "f sys props ?v 0 []") auto
      from IH [OF this] show False by simp
    qed
  qed
  then show False by simp
qed

section \<open>Values without variables\<close>

lemma no_open_plain: "0x24 \<notin> set s \<Longrightarrow> no_open s"
  unfolding no_open_def by (metis in_set_dropD in_set_takeD list.set_intros(1))

lemma substVars_plain: "0x24 \<notin> set s \<Longrightarrow> substVars sys props s = ret s"
  using subst_loop_expands [OF expands.plain [OF no_open_plain], of s 0 s "[]"] by (simp add: substVars_def)

lemma findAndSubst_plain:
  assumes "0x24 \<notin> set (getProperty key props)"
  shows "findAndSubst sys key props = ret (getProperty key props)"
  using substVars_plain [OF assms] by (simp add: findAndSubst_def Let_def ret_def)

lemma toLevel_plain: "0x23 \<notin> set s \<Longrightarrow> s \<noteq> [] \<Longrightarrow> toLevel loadClass s d = toLevelLS s d"
proof -
  assume s: "0x23 \<notin> set s" "s \<noteq> []"
  have "find_str (LS ''#'') s 0 = None"
    unfolding find_str_None_iff
  proof (intro allI impI)
    fix j
    have "0x23 \<notin> set (take (length (LS ''#'')) (drop j s))" using s(1) by (meson in_set_dropD in_set_takeD)
    then show "take (length (LS ''#'')) (drop j s) \<noteq> LS ''#''" by auto
  qed
  then show ?thesis using s(2) by (simp add: toLevel_def)
qed

section \<open>File sizes\<close>

lemma encode_local_digits: "encode_local encoder (map ucast (dec_digits n)) = ret (dec_digits n)"
proof -
  have low: "(ucast b :: logchar) < 0x80" if "b \<in> set (dec_digits n)" for b
  proof -
    have "is_digit b" using dec_digits_are_digits that by (auto simp: list_all_iff)
    then have "unat b \<le> 0x39" by (simp add: is_digit_def word_le_nat_alt)
    then show ?thesis by (simp add: word_less_nat_alt unsigned_ucast_eq take_bit_eq_mod)
  qed
  have narrow: "ucast (ucast b :: logchar) = b" for b :: byte by (rule bit_word_eqI) (simp add: bit_simps)
  have t: "takeWhile (\<lambda>c. c < 0x80) (map ucast (dec_digits n)) = (map ucast (dec_digits n) :: LogString)"
    "dropWhile (\<lambda>c. c < 0x80) (map ucast (dec_digits n)) = ([] :: LogString)"
    using low by auto
  show ?thesis unfolding encode_local_def t by (subst encode_rest.simps) (simp add: ret_def narrow comp_def)
qed

lemma digits_not:
  assumes "\<And>b. is_digit b \<Longrightarrow> ucast b \<noteq> c"
  shows "c \<notin> set (map ucast (dec_digits n) :: LogString)"
  using assms dec_digits_are_digits [of n] by (auto simp: list_all_iff)

lemma unat_digit_wide: "is_digit b \<Longrightarrow> 0x30 \<le> unat (ucast b :: logchar) \<and> unat (ucast b :: logchar) \<le> 0x39"
  by (simp add: is_digit_def word_le_nat_alt unsigned_ucast_eq take_bit_eq_mod)

lemma trim_id: "0x20 \<notin> set s \<Longrightarrow> trim s = s"
proof -
  have *: "x \<notin> set t \<Longrightarrow> dropWhile (\<lambda>c. c = x) t = t" for x and t :: LogString by (cases t) auto
  assume "0x20 \<notin> set s"
  then show ?thesis using * [of "0x20" s] * [of "0x20" "rev s"] by (simp add: trim_eq)
qed

lemma toInt_digits:
  assumes "n < 2 ^ 31"
  shows "toInt encoder (map ucast (dec_digits n)) d = ret (int n)"
proof -
  let ?s = "map ucast (dec_digits n) :: LogString"
  have "0x20 \<notin> set ?s" by (rule digits_not) (use unat_digit_wide in \<open>force simp: word_unat_eq_iff\<close>)
  then have "trim ?s = ?s" by (rule trim_id)
  moreover have "?s \<noteq> []" using dec_digits_nonempty by simp
  moreover have "atoi (dec_digits n) = int n" using assms by (simp add: atoi_dec_digits)
  ultimately show ?thesis by (simp add: toInt_def Let_def encode_local_digits)
qed

definition size_unit :: "logchar \<Rightarrow> int \<Rightarrow> bool" where
  "size_unit u m \<longleftrightarrow> (u, m) \<in> {(0x6B, 2 ^ 10), (0x4B, 2 ^ 10), (0x6D, 2 ^ 20), (0x4D, 2 ^ 20), (0x67, 2 ^ 30), (0x47, 2 ^ 30)}"

text \<open>
  A file size that is written as a decimal number with a unit of kilobytes, megabytes or gigabytes
  is the number times the unit, reduced to the 32 bits of a \<open>long\<close>.
\<close>

theorem file_size:
  assumes "n < 2 ^ 31" and "size_unit u m" and "b \<in> {0x62, 0x42}"
  shows "toFileSize encoder (map ucast (dec_digits n) @ [u, b]) d = ret (to_int32 (int n * m))"
proof -
  let ?s = "map ucast (dec_digits n) :: LogString"
  have nob: "\<forall>c\<in>set ?s. c \<notin> {0x62, 0x42}"
    using digits_not [of "0x62" n] digits_not [of "0x42" n] unat_digit_wide by (force simp: word_unat_eq_iff)
  have u: "u \<notin> {0x62, 0x42}" using assms(2) by (auto simp: size_unit_def)
  have "find_first_of (LS ''bB'') (?s @ [u, b]) 0 = Some (Suc (length ?s))"
    using nob u assms(3) by (auto simp: find_first_of_eq takeWhile_append dropWhile_append)
  then show ?thesis
    using assms(2) toInt_digits [OF assms(1), of encoder 1]
    by (auto simp: toFileSize_def Let_def substr_def size_unit_def nth_append)
qed

theorem file_size_witness:
  "toFileSize (\<lambda>_. (False, [], [])) (LS ''10MB'') 0 = ret 10485760 \<and>
   toFileSize (\<lambda>_. (False, [], [])) (LS ''4GB'') 0 = ret 0"
proof -
  have d: "dec_digits 10 = [0x31, 0x30]" "dec_digits 4 = [0x34]" by (simp_all add: dec_digits.simps)
  show ?thesis
    using file_size [of 10 "0x4D" "2 ^ 20" "0x42" "\<lambda>_. (False, [], [])" 0]
      file_size [of 4 "0x47" "2 ^ 30" "0x42" "\<lambda>_. (False, [], [])" 0]
    by (simp add: d size_unit_def to_int32_def)
qed

end
