(* ===== verification/LogHierarchy.thy ===== *)
theory LogHierarchy
  imports LogOptions
begin

text \<open>
  Loggers and their hierarchy (\<open>logger.cpp\<close>, \<open>rootlogger.cpp\<close>, \<open>hierarchy.cpp\<close>,
  \<open>appenderattachableimpl.cpp\<close>). Loggers are objects in a heap, which the hierarchy refers to by
  their number, since a logger that is found again is the same object; number 0 is the root.
  Appenders and listeners are objects behind interfaces: the virtual calls are functions on a world
  \<open>'w\<close> that are parameters. The locks are not modelled: an operation is one atomic step.
\<close>

section \<open>State\<close>

record Logger =
  logger_name :: LogString
  logger_level :: "Level option"
  logger_parent :: "nat option"
  resourceBundle :: "nat option"
  in_repository :: bool
  aai :: "nat list option"
  additive :: bool

record 'w Hierarchy =
  heap :: "Logger list"
  loggers :: "(LogString, nat) std_map"
  provisionNodes :: "(LogString, nat list) std_map"
  listeners :: "nat list"
  thresholdInt :: int
  threshold :: Level
  configured :: bool
  emittedNoAppenderWarning :: bool
  outside :: 'w

text \<open>An event that is logged, and the interfaces of appenders, of listeners of the hierarchy and of \<open>LogLog\<close>.\<close>

record LoggingEvent =
  event_logger :: LogString
  event_level :: Level
  event_message :: LogString

record 'w interfaces =
  doAppend :: "nat \<Rightarrow> LoggingEvent \<Rightarrow> 'w \<Rightarrow> 'w"
  close_appender :: "nat \<Rightarrow> 'w \<Rightarrow> 'w"
  appender_name :: "nat \<Rightarrow> 'w \<Rightarrow> LogString"
  addAppenderEvent :: "nat \<Rightarrow> nat \<Rightarrow> nat \<Rightarrow> 'w \<Rightarrow> 'w"
  removeAppenderEvent :: "nat \<Rightarrow> nat \<Rightarrow> nat \<Rightarrow> 'w \<Rightarrow> 'w"
  warning :: "LogString \<Rightarrow> 'w \<Rightarrow> 'w"
  error_report :: "LogString \<Rightarrow> 'w \<Rightarrow> 'w"

definition Logger_ctor :: "LogString \<Rightarrow> Logger" where
  "Logger_ctor name1 = \<lparr>logger_name = name1, logger_level = None, logger_parent = None, resourceBundle = None,
     in_repository = False, aai = None, additive = True\<rparr>"

definition RootLogger_ctor :: "Level \<Rightarrow> Logger" where
  "RootLogger_ctor level1 = (Logger_ctor (LS ''root''))\<lparr>logger_level := Some level1\<rparr>"

definition Hierarchy_ctor :: "'w \<Rightarrow> 'w Hierarchy" where
  "Hierarchy_ctor w =
     \<lparr>heap = [(RootLogger_ctor getDebug)\<lparr>in_repository := True\<rparr>], loggers = [], provisionNodes = [], listeners = [],
      thresholdInt = ALL_INT, threshold = getAll, configured = False, emittedNoAppenderWarning = False, outside = w\<rparr>"

definition logger_at :: "nat \<Rightarrow> 'w Hierarchy \<Rightarrow> Logger" where
  "logger_at i h = heap h ! i"

definition set_logger :: "nat \<Rightarrow> (Logger \<Rightarrow> Logger) \<Rightarrow> 'w Hierarchy \<Rightarrow> 'w Hierarchy" where
  "set_logger i f h = h\<lparr>heap := (heap h)[i := f (heap h ! i)]\<rparr>"

definition effect :: "('w \<Rightarrow> 'w) \<Rightarrow> 'w Hierarchy \<Rightarrow> 'w Hierarchy" where
  "effect f h = h\<lparr>outside := f (outside h)\<rparr>"

section \<open>Hierarchy\<close>

definition addHierarchyEventListener :: "'w interfaces \<Rightarrow> nat \<Rightarrow> 'w Hierarchy \<Rightarrow> 'w Hierarchy" where
  "addHierarchyEventListener ifc listener h =
     (if listener \<in> set (listeners h) then effect (warning ifc (LS ''Ignoring attempt to add an existent listener.'')) h
      else h\<lparr>listeners := listeners h @ [listener]\<rparr>)"

definition clear :: "'w Hierarchy \<Rightarrow> 'w Hierarchy" where
  "clear h = h\<lparr>loggers := []\<rparr>"

definition emitNoAppenderWarning :: "'w interfaces \<Rightarrow> nat \<Rightarrow> 'w Hierarchy \<Rightarrow> 'w Hierarchy" where
  "emitNoAppenderWarning ifc logger h =
     (let emitWarning = \<not> emittedNoAppenderWarning h; h = h\<lparr>emittedNoAppenderWarning := True\<rparr> in
      if emitWarning
      then effect (warning ifc (LS ''Please initialize the log4cxx system properly.''))
             (effect (warning ifc (LS ''No appender could be found for logger ('' @ logger_name (logger_at logger h) @ LS '').'')) h)
      else h)"

definition exists_logger :: "LogString \<Rightarrow> 'w Hierarchy \<Rightarrow> nat option" where
  "exists_logger name h = map_of (loggers h) name"

definition setConfigured :: "bool \<Rightarrow> 'w Hierarchy \<Rightarrow> 'w Hierarchy" where
  "setConfigured newValue h = h\<lparr>configured := newValue\<rparr>"

definition setThreshold :: "Level option \<Rightarrow> 'w Hierarchy \<Rightarrow> 'w Hierarchy" where
  "setThreshold l h = (case l of None \<Rightarrow> h
     | Some l \<Rightarrow>
         (let h = h\<lparr>thresholdInt := level_int l, threshold := l\<rparr> in
          if thresholdInt h \<noteq> ALL_INT then setConfigured True h else h))"

definition setThreshold_name :: "'w interfaces \<Rightarrow> LogString \<Rightarrow> 'w Hierarchy \<Rightarrow> 'w Hierarchy run" where
  "setThreshold_name ifc levelStr h = bind_run (toLevelLS levelStr None) (\<lambda>l. case l of
       Some _ \<Rightarrow> ret (setThreshold l h)
     | None \<Rightarrow> ret (effect (warning ifc (LS ''No level could be found named ''  @ [0x22] @ levelStr @ [0x22] @ LS ''.'')) h))"

definition fireAddAppenderEvent :: "'w interfaces \<Rightarrow> nat \<Rightarrow> nat \<Rightarrow> 'w Hierarchy \<Rightarrow> 'w Hierarchy" where
  "fireAddAppenderEvent ifc logger appender h =
     (let h = setConfigured True h in fold (\<lambda>l. effect (addAppenderEvent ifc l logger appender)) (listeners h) h)"

definition fireRemoveAppenderEvent :: "'w interfaces \<Rightarrow> nat \<Rightarrow> nat \<Rightarrow> 'w Hierarchy \<Rightarrow> 'w Hierarchy" where
  "fireRemoveAppenderEvent ifc logger appender h =
     fold (\<lambda>l. effect (removeAppenderEvent ifc l logger appender)) (listeners h) h"

definition getCurrentLoggers :: "'w Hierarchy \<Rightarrow> nat list" where
  "getCurrentLoggers h = map snd (loggers h)"

text \<open>
  The loop over the ancestors' names. The position behind \<open>i - 1\<close> for \<open>i = 0\<close> is \<open>npos\<close>, from where
  \<open>find_last_of\<close> starts at the end again; \<open>None\<close> is that the loop does not end.
\<close>

definition provision :: "LogString \<Rightarrow> nat \<Rightarrow> 'w Hierarchy \<Rightarrow> 'w Hierarchy" where
  "provision name logger h = h\<lparr>provisionNodes := map_put name
     (case map_of (provisionNodes h) name of Some node \<Rightarrow> node @ [logger] | None \<Rightarrow> [logger]) (provisionNodes h)\<rparr>"

partial_function (option) parents_loop :: "nat \<Rightarrow> LogString \<Rightarrow> nat option \<Rightarrow> 'w Hierarchy \<Rightarrow> (bool \<times> 'w Hierarchy) option" where
  "parents_loop logger name pos h = (case pos of
       None \<Rightarrow> Some (False, h)
     | Some i \<Rightarrow>
         (case map_of (loggers h) (substr name 0 i) of
            Some parent \<Rightarrow> Some (True, set_logger logger (logger_parent_update (\<lambda>_. Some parent)) h)
          | None \<Rightarrow> parents_loop logger name (find_last_of [0x2E] name (pos_before i))
              (provision (substr name 0 i) logger h)))"

declare parents_loop.simps [code]

definition updateParents :: "nat \<Rightarrow> 'w Hierarchy \<Rightarrow> 'w Hierarchy option" where
  "updateParents logger h =
     (let name = logger_name (logger_at logger h) in
      map_option (\<lambda>(parentFound, h). if parentFound then h else set_logger logger (logger_parent_update (\<lambda>_. Some 0)) h)
        (parents_loop logger name (find_last_of [0x2E] name (pos_before (length name))) h))"

fun updateChildren :: "nat list \<Rightarrow> nat \<Rightarrow> 'w Hierarchy \<Rightarrow> 'w Hierarchy run" where
  "updateChildren [] logger h = ret h"
| "updateChildren (l # pn) logger h = (case logger_parent (logger_at l h) of
       None \<Rightarrow> crash Null_Dereference
     | Some p \<Rightarrow>
         if \<not> startsWith (logger_name (logger_at p h)) (logger_name (logger_at logger h))
         then updateChildren pn logger (set_logger l (logger_parent_update (\<lambda>_. Some logger))
                (set_logger logger (logger_parent_update (\<lambda>_. Some p)) h))
         else updateChildren pn logger h)"

text \<open>\<open>getLogger\<close> with the default factory, which constructs a \<open>Logger\<close>.\<close>

definition getLogger :: "LogString \<Rightarrow> 'w Hierarchy \<Rightarrow> (nat \<times> 'w Hierarchy) run" where
  "getLogger name h = (case map_of (loggers h) name of
       Some logger \<Rightarrow> ret (logger, h)
     | None \<Rightarrow>
         (let logger = length (heap h);
              h = h\<lparr>heap := heap h @ [(Logger_ctor name)\<lparr>in_repository := True\<rparr>], loggers := map_put name logger (loggers h)\<rparr>
          in bind_run (case map_of (provisionNodes h) name of
                 Some node \<Rightarrow> bind_run (updateChildren node logger h)
                   (\<lambda>h. ret (h\<lparr>provisionNodes := map_erase name (provisionNodes h)\<rparr>))
               | None \<Rightarrow> ret h)
             (\<lambda>h. case updateParents logger h of None \<Rightarrow> None | Some h \<Rightarrow> ret (logger, h))))"

section \<open>AppenderAttachableImpl\<close>

text \<open>The list of appenders of a logger; a null pointer is \<open>None\<close>.\<close>

definition aai_addAppender :: "nat option \<Rightarrow> nat list \<Rightarrow> nat list" where
  "aai_addAppender newAppender appenderList = (case newAppender of None \<Rightarrow> appenderList
     | Some a \<Rightarrow> if a \<in> set appenderList then appenderList else appenderList @ [a])"

definition appendLoopOnAppenders :: "'w interfaces \<Rightarrow> LoggingEvent \<Rightarrow> nat list \<Rightarrow> 'w \<Rightarrow> nat \<times> 'w" where
  "appendLoopOnAppenders ifc event appenderList w =
     (length appenderList, fold (\<lambda>a. doAppend ifc a event) appenderList w)"

definition aai_getAppender :: "'w interfaces \<Rightarrow> LogString \<Rightarrow> nat list \<Rightarrow> 'w \<Rightarrow> nat option" where
  "aai_getAppender ifc name appenderList w =
     (if name = [] then None else List.find (\<lambda>a. appender_name ifc a w = name) appenderList)"

definition aai_isAttached :: "nat option \<Rightarrow> nat list \<Rightarrow> bool" where
  "aai_isAttached appender appenderList = (case appender of None \<Rightarrow> False | Some a \<Rightarrow> a \<in> set appenderList)"

definition aai_removeAllAppenders :: "'w interfaces \<Rightarrow> nat list \<Rightarrow> 'w \<Rightarrow> nat list \<times> 'w" where
  "aai_removeAllAppenders ifc appenderList w = ([], fold (close_appender ifc) appenderList w)"

definition aai_removeAppender :: "nat option \<Rightarrow> nat list \<Rightarrow> nat list" where
  "aai_removeAppender appender appenderList = (case appender of None \<Rightarrow> appenderList
     | Some a \<Rightarrow> remove1 a appenderList)"

fun aai_removeAppender_name :: "'w interfaces \<Rightarrow> LogString \<Rightarrow> nat list \<Rightarrow> 'w \<Rightarrow> nat list" where
  "aai_removeAppender_name ifc name [] w = []"
| "aai_removeAppender_name ifc name (a # as) w =
     (if name = [] then a # as
      else if name = appender_name ifc a w then as else a # aai_removeAppender_name ifc name as w)"

section \<open>Logger\<close>

text \<open>The callers of \<open>addAppender\<close> do not pass a null pointer.\<close>

definition addAppender :: "'w interfaces \<Rightarrow> nat \<Rightarrow> nat \<Rightarrow> 'w Hierarchy \<Rightarrow> 'w Hierarchy" where
  "addAppender ifc logger newAppender h =
     (let old = (case aai (logger_at logger h) of None \<Rightarrow> [] | Some as \<Rightarrow> as);
          h = set_logger logger (aai_update (\<lambda>_. Some (aai_addAppender (Some newAppender) old))) h
      in if in_repository (logger_at logger h) then fireAddAppenderEvent ifc logger newAppender h else h)"

text \<open>The loop over the logger and its ancestors ends at a logger that is not additive.\<close>

partial_function (option) call_loop ::
  "'w interfaces \<Rightarrow> LoggingEvent \<Rightarrow> nat option \<Rightarrow> nat \<Rightarrow> 'w Hierarchy \<Rightarrow> (nat \<times> 'w Hierarchy) option" where
  "call_loop ifc event logger writes h = (case logger of
       None \<Rightarrow> Some (writes, h)
     | Some i \<Rightarrow>
         (case (case aai (logger_at i h) of
              None \<Rightarrow> (writes, h)
            | Some as \<Rightarrow> (case appendLoopOnAppenders ifc event as (outside h) of (n, w) \<Rightarrow> (writes + n, h\<lparr>outside := w\<rparr>)))
          of (writes, h) \<Rightarrow>
            if \<not> additive (logger_at i h) then Some (writes, h)
            else call_loop ifc event (logger_parent (logger_at i h)) writes h))"

declare call_loop.simps [code]

definition callAppenders :: "'w interfaces \<Rightarrow> nat \<Rightarrow> LoggingEvent \<Rightarrow> ('w Hierarchy, unit) io" where
  "callAppenders ifc logger event h = (case call_loop ifc event (Some logger) 0 h of
       None \<Rightarrow> None
     | Some (writes, h) \<Rightarrow>
         Some (Inr (), if writes = 0 \<and> in_repository (logger_at logger h) then emitNoAppenderWarning ifc logger h else h))"

definition getAllAppenders :: "nat \<Rightarrow> 'w Hierarchy \<Rightarrow> nat list" where
  "getAllAppenders logger h = (case aai (logger_at logger h) of None \<Rightarrow> [] | Some as \<Rightarrow> as)"

definition closeNestedAppenders :: "'w interfaces \<Rightarrow> nat \<Rightarrow> 'w Hierarchy \<Rightarrow> 'w Hierarchy" where
  "closeNestedAppenders ifc logger h = effect (fold (close_appender ifc) (getAllAppenders logger h)) h"

text \<open>
  \<open>forcedLogLS\<close> logs a decoded message; \<open>forcedLog\<close> decodes a narrow string first, where the decoder
  of the local charset is a parameter. The location in the source is left out of the event.
\<close>

definition forcedLogLS :: "'w interfaces \<Rightarrow> nat \<Rightarrow> Level \<Rightarrow> LogString \<Rightarrow> ('w Hierarchy, unit) io" where
  "forcedLogLS ifc logger level1 message h = callAppenders ifc logger
     \<lparr>event_logger = logger_name (logger_at logger h), event_level = level1, event_message = message\<rparr> h"

definition forcedLog :: "'w interfaces \<Rightarrow> (byte list \<Rightarrow> LogString) \<Rightarrow> nat \<Rightarrow> Level \<Rightarrow> byte list \<Rightarrow> ('w Hierarchy, unit) io" where
  "forcedLog ifc decode logger level1 message h = callAppenders ifc logger
     \<lparr>event_logger = logger_name (logger_at logger h), event_level = level1, event_message = decode message\<rparr> h"

definition getAdditivity :: "nat \<Rightarrow> 'w Hierarchy \<Rightarrow> bool" where
  "getAdditivity logger h = additive (logger_at logger h)"

definition getAppender :: "'w interfaces \<Rightarrow> nat \<Rightarrow> LogString \<Rightarrow> 'w Hierarchy \<Rightarrow> nat option" where
  "getAppender ifc logger name1 h = (case aai (logger_at logger h) of None \<Rightarrow> None
     | Some as \<Rightarrow> if name1 = [] then None else aai_getAppender ifc name1 as (outside h))"

definition NullPointerException :: error where
  "NullPointerException = Exception ''No level specified for logger or ancestors.''"

partial_function (option) level_loop :: "nat option \<Rightarrow> 'w Hierarchy \<Rightarrow> (error + Level) option" where
  "level_loop l h = (case l of
       None \<Rightarrow> raise NullPointerException
     | Some i \<Rightarrow> (case logger_level (logger_at i h) of
         Some level \<Rightarrow> ret level
       | None \<Rightarrow> level_loop (logger_parent (logger_at i h)) h))"

declare level_loop.simps [code]

text \<open>The root overrides the method and returns its level, which is never null.\<close>

definition Root_getEffectiveLevel :: "'w Hierarchy \<Rightarrow> Level run" where
  "Root_getEffectiveLevel h = (case logger_level (logger_at 0 h) of Some l \<Rightarrow> ret l | None \<Rightarrow> crash Null_Dereference)"

definition getEffectiveLevel :: "nat \<Rightarrow> 'w Hierarchy \<Rightarrow> Level run" where
  "getEffectiveLevel logger h = (if logger = 0 then Root_getEffectiveLevel h else level_loop (Some logger) h)"

partial_function (option) bundle_loop :: "nat option \<Rightarrow> 'w Hierarchy \<Rightarrow> nat option option" where
  "bundle_loop l h = (case l of
       None \<Rightarrow> Some None
     | Some i \<Rightarrow> (case resourceBundle (logger_at i h) of
         Some b \<Rightarrow> Some (Some b)
       | None \<Rightarrow> bundle_loop (logger_parent (logger_at i h)) h))"

declare bundle_loop.simps [code]

definition getResourceBundle :: "nat \<Rightarrow> 'w Hierarchy \<Rightarrow> nat option option" where
  "getResourceBundle logger h = bundle_loop (Some logger) h"

definition isAttached :: "nat \<Rightarrow> nat option \<Rightarrow> 'w Hierarchy \<Rightarrow> bool" where
  "isAttached logger appender h = (case (appender, aai (logger_at logger h)) of
       (Some _, Some as) \<Rightarrow> aai_isAttached appender as
     | _ \<Rightarrow> False)"

section \<open>Which events are logged\<close>

text \<open>
  \<open>isDisabled\<close> configures the hierarchy when nobody has; the default configurator is the parameter
  \<open>configure\<close>.
\<close>

definition isDisabled :: "('w Hierarchy, unit) io \<Rightarrow> int \<Rightarrow> ('w Hierarchy, bool) io" where
  "isDisabled configure level =
     seq get_state (\<lambda>h. seq (if \<not> configured h then configure else finish ())
       (\<lambda>_. seq get_state (\<lambda>h. finish (level < thresholdInt h))))"

text \<open>The six tests for a standard level have the same form.\<close>

definition enabled_for :: "('w Hierarchy, unit) io \<Rightarrow> int \<Rightarrow> nat \<Rightarrow> ('w Hierarchy, bool) io" where
  "enabled_for configure level logger =
     seq get_state (\<lambda>h. if \<not> in_repository (logger_at logger h) then finish False
       else seq (isDisabled configure level) (\<lambda>disabled. if disabled then finish False
         else seq get_state (\<lambda>h. seq (pure_run (getEffectiveLevel logger h)) (\<lambda>l. finish (level_int l \<le> level)))))"

definition isTraceEnabled :: "('w Hierarchy, unit) io \<Rightarrow> nat \<Rightarrow> ('w Hierarchy, bool) io" where
  "isTraceEnabled configure logger = enabled_for configure TRACE_INT logger"

definition isDebugEnabled :: "('w Hierarchy, unit) io \<Rightarrow> nat \<Rightarrow> ('w Hierarchy, bool) io" where
  "isDebugEnabled configure logger = enabled_for configure DEBUG_INT logger"

definition isInfoEnabled :: "('w Hierarchy, unit) io \<Rightarrow> nat \<Rightarrow> ('w Hierarchy, bool) io" where
  "isInfoEnabled configure logger = enabled_for configure INFO_INT logger"

definition isWarnEnabled :: "('w Hierarchy, unit) io \<Rightarrow> nat \<Rightarrow> ('w Hierarchy, bool) io" where
  "isWarnEnabled configure logger = enabled_for configure WARN_INT logger"

definition isErrorEnabled :: "('w Hierarchy, unit) io \<Rightarrow> nat \<Rightarrow> ('w Hierarchy, bool) io" where
  "isErrorEnabled configure logger = enabled_for configure ERROR_INT logger"

definition isFatalEnabled :: "('w Hierarchy, unit) io \<Rightarrow> nat \<Rightarrow> ('w Hierarchy, bool) io" where
  "isFatalEnabled configure logger = enabled_for configure FATAL_INT logger"

definition isEnabledFor :: "('w Hierarchy, unit) io \<Rightarrow> nat \<Rightarrow> Level \<Rightarrow> ('w Hierarchy, bool) io" where
  "isEnabledFor configure logger level1 =
     seq get_state (\<lambda>h. if \<not> in_repository (logger_at logger h) then finish False
       else seq (isDisabled configure (level_int level1)) (\<lambda>disabled. if disabled then finish False
         else seq get_state (\<lambda>h. seq (pure_run (getEffectiveLevel logger h)) (\<lambda>l. finish (isGreaterOrEqual level1 l)))))"

definition log_if :: "('w Hierarchy, bool) io \<Rightarrow> ('w Hierarchy, unit) io \<Rightarrow> ('w Hierarchy, unit) io" where
  "log_if enabled forced = seq enabled (\<lambda>b. if b then forced else finish ())"

definition trace :: "'w interfaces \<Rightarrow> ('w Hierarchy, unit) io \<Rightarrow> (byte list \<Rightarrow> LogString) \<Rightarrow> nat \<Rightarrow> byte list \<Rightarrow> ('w Hierarchy, unit) io" where
  "trace ifc configure decode logger msg = log_if (isTraceEnabled configure logger) (forcedLog ifc decode logger getTrace msg)"

definition debug :: "'w interfaces \<Rightarrow> ('w Hierarchy, unit) io \<Rightarrow> (byte list \<Rightarrow> LogString) \<Rightarrow> nat \<Rightarrow> byte list \<Rightarrow> ('w Hierarchy, unit) io" where
  "debug ifc configure decode logger msg = log_if (isDebugEnabled configure logger) (forcedLog ifc decode logger getDebug msg)"

definition error_msg :: "'w interfaces \<Rightarrow> ('w Hierarchy, unit) io \<Rightarrow> (byte list \<Rightarrow> LogString) \<Rightarrow> nat \<Rightarrow> byte list \<Rightarrow> ('w Hierarchy, unit) io" where
  "error_msg ifc configure decode logger msg = log_if (isErrorEnabled configure logger) (forcedLog ifc decode logger getError msg)"

definition fatal :: "'w interfaces \<Rightarrow> ('w Hierarchy, unit) io \<Rightarrow> (byte list \<Rightarrow> LogString) \<Rightarrow> nat \<Rightarrow> byte list \<Rightarrow> ('w Hierarchy, unit) io" where
  "fatal ifc configure decode logger msg = log_if (isFatalEnabled configure logger) (forcedLog ifc decode logger getFatal msg)"

definition info :: "'w interfaces \<Rightarrow> ('w Hierarchy, unit) io \<Rightarrow> (byte list \<Rightarrow> LogString) \<Rightarrow> nat \<Rightarrow> byte list \<Rightarrow> ('w Hierarchy, unit) io" where
  "info ifc configure decode logger msg = log_if (isInfoEnabled configure logger) (forcedLog ifc decode logger getInfo msg)"

definition warn :: "'w interfaces \<Rightarrow> ('w Hierarchy, unit) io \<Rightarrow> (byte list \<Rightarrow> LogString) \<Rightarrow> nat \<Rightarrow> byte list \<Rightarrow> ('w Hierarchy, unit) io" where
  "warn ifc configure decode logger msg = log_if (isWarnEnabled configure logger) (forcedLog ifc decode logger getWarn msg)"

definition log_level :: "'w interfaces \<Rightarrow> ('w Hierarchy, unit) io \<Rightarrow> (byte list \<Rightarrow> LogString) \<Rightarrow> nat \<Rightarrow> Level \<Rightarrow> byte list \<Rightarrow> ('w Hierarchy, unit) io" where
  "log_level ifc configure decode logger level1 msg = log_if (isEnabledFor configure logger level1) (forcedLog ifc decode logger level1 msg)"

definition logLS :: "'w interfaces \<Rightarrow> ('w Hierarchy, unit) io \<Rightarrow> nat \<Rightarrow> Level \<Rightarrow> LogString \<Rightarrow> ('w Hierarchy, unit) io" where
  "logLS ifc configure logger level1 msg = log_if (isEnabledFor configure logger level1) (forcedLogLS ifc logger level1 msg)"

section \<open>Localised messages\<close>

text \<open>A resource bundle yields a pattern, or the exception for a missing resource (\<open>None\<close>).\<close>

definition getResourceBundleString :: "'w interfaces \<Rightarrow> ('w Hierarchy, unit) io \<Rightarrow> (nat \<Rightarrow> LogString \<Rightarrow> LogString option) \<Rightarrow>
    nat \<Rightarrow> LogString \<Rightarrow> ('w Hierarchy, LogString) io" where
  "getResourceBundleString ifc configure getString logger key h = (case getResourceBundle logger h of
       None \<Rightarrow> None
     | Some None \<Rightarrow> Some (Inr [], h)
     | Some (Some rb) \<Rightarrow> (case getString rb key of
         Some s \<Rightarrow> Some (Inr s, h)
       | None \<Rightarrow> seq (logLS ifc configure logger getError
             (LS ''No resource is associated with key '' @ [0x22] @ key @ [0x22] @ LS ''.''))
           (\<lambda>_. finish []) h))"

definition l7dlog :: "'w interfaces \<Rightarrow> ('w Hierarchy, unit) io \<Rightarrow> (nat \<Rightarrow> LogString \<Rightarrow> LogString option) \<Rightarrow>
    nat \<Rightarrow> Level \<Rightarrow> LogString \<Rightarrow> LogString list \<Rightarrow> ('w Hierarchy, unit) io" where
  "l7dlog ifc configure getString logger level1 key params =
     seq get_state (\<lambda>h. if \<not> in_repository (logger_at logger h) then finish ()
       else seq (isDisabled configure (level_int level1)) (\<lambda>disabled. if disabled then finish ()
         else seq get_state (\<lambda>h. seq (pure_run (getEffectiveLevel logger h)) (\<lambda>l.
           if isGreaterOrEqual level1 l
           then seq (getResourceBundleString ifc configure getString logger key) (\<lambda>pattern.
             if pattern = [] then forcedLogLS ifc logger level1 key
             else seq (pure_run (format pattern params)) (\<lambda>msg. forcedLogLS ifc logger level1 msg))
           else finish ()))))"

definition l7dlog0 :: "'w interfaces \<Rightarrow> ('w Hierarchy, unit) io \<Rightarrow> (nat \<Rightarrow> LogString \<Rightarrow> LogString option) \<Rightarrow>
    (byte list \<Rightarrow> LogString) \<Rightarrow> nat \<Rightarrow> Level \<Rightarrow> byte list \<Rightarrow> ('w Hierarchy, unit) io" where
  "l7dlog0 ifc configure getString decode logger level1 key =
     l7dlog ifc configure getString logger level1 (decode key) []"

definition l7dlog1 :: "'w interfaces \<Rightarrow> ('w Hierarchy, unit) io \<Rightarrow> (nat \<Rightarrow> LogString \<Rightarrow> LogString option) \<Rightarrow>
    (byte list \<Rightarrow> LogString) \<Rightarrow> nat \<Rightarrow> Level \<Rightarrow> byte list \<Rightarrow> byte list \<Rightarrow> ('w Hierarchy, unit) io" where
  "l7dlog1 ifc configure getString decode logger level1 key val1 =
     l7dlog ifc configure getString logger level1 (decode key) [decode val1]"

definition l7dlog2 :: "'w interfaces \<Rightarrow> ('w Hierarchy, unit) io \<Rightarrow> (nat \<Rightarrow> LogString \<Rightarrow> LogString option) \<Rightarrow>
    (byte list \<Rightarrow> LogString) \<Rightarrow> nat \<Rightarrow> Level \<Rightarrow> byte list \<Rightarrow> byte list \<Rightarrow> byte list \<Rightarrow> ('w Hierarchy, unit) io" where
  "l7dlog2 ifc configure getString decode logger level1 key val1 val2 =
     l7dlog ifc configure getString logger level1 (decode key) [decode val1, decode val2]"

text \<open>With three parameters the vector has three elements and the element 3 is assigned.\<close>

definition l7dlog3 :: "(byte list \<Rightarrow> LogString) \<Rightarrow> byte list \<Rightarrow> byte list \<Rightarrow> byte list \<Rightarrow> byte list \<Rightarrow> ('w Hierarchy, unit) io" where
  "l7dlog3 decode key val1 val2 val3 =
     (let values = [[], [], []]; values = values[0 := decode val1, 1 := decode val2] in
      if 3 < length values then finish () else fail (Crash Write_Out_Of_Bounds))"

section \<open>Changes of a logger\<close>

definition removeAllAppenders :: "'w interfaces \<Rightarrow> nat \<Rightarrow> 'w Hierarchy \<Rightarrow> 'w Hierarchy" where
  "removeAllAppenders ifc logger h = (case aai (logger_at logger h) of None \<Rightarrow> h
     | Some as \<Rightarrow> set_logger logger (aai_update (\<lambda>_. None)) (effect (\<lambda>w. snd (aai_removeAllAppenders ifc as w)) h))"

definition removeAppender :: "nat \<Rightarrow> nat option \<Rightarrow> 'w Hierarchy \<Rightarrow> 'w Hierarchy" where
  "removeAppender logger appender h = (case (appender, aai (logger_at logger h)) of
       (Some _, Some as) \<Rightarrow> set_logger logger (aai_update (\<lambda>_. Some (aai_removeAppender appender as))) h
     | _ \<Rightarrow> h)"

definition removeAppender_name :: "'w interfaces \<Rightarrow> nat \<Rightarrow> LogString \<Rightarrow> 'w Hierarchy \<Rightarrow> 'w Hierarchy" where
  "removeAppender_name ifc logger name1 h = (case aai (logger_at logger h) of
       Some as \<Rightarrow> if name1 = [] then h
         else set_logger logger (aai_update (\<lambda>_. Some (aai_removeAppender_name ifc name1 as (outside h)))) h
     | None \<Rightarrow> h)"

definition setAdditivity :: "nat \<Rightarrow> bool \<Rightarrow> 'w Hierarchy \<Rightarrow> 'w Hierarchy" where
  "setAdditivity logger additive1 h = set_logger logger (additive_update (\<lambda>_. additive1)) h"

definition setResourceBundle :: "nat \<Rightarrow> nat option \<Rightarrow> 'w Hierarchy \<Rightarrow> 'w Hierarchy" where
  "setResourceBundle logger bundle h = set_logger logger (resourceBundle_update (\<lambda>_. bundle)) h"

definition Root_setLevel :: "'w interfaces \<Rightarrow> Level option \<Rightarrow> 'w Hierarchy \<Rightarrow> 'w Hierarchy" where
  "Root_setLevel ifc level1 h = (case level1 of
       None \<Rightarrow> effect (error_report ifc (LS ''You have tried to set a null level to root.'')) h
     | Some l \<Rightarrow> set_logger 0 (logger_level_update (\<lambda>_. Some l)) h)"

definition setLevel :: "'w interfaces \<Rightarrow> nat \<Rightarrow> Level option \<Rightarrow> 'w Hierarchy \<Rightarrow> 'w Hierarchy" where
  "setLevel ifc logger level1 h = (if logger = 0 then Root_setLevel ifc level1 h
     else set_logger logger (logger_level_update (\<lambda>_. level1)) h)"

section \<open>Shutting down\<close>

definition shutdown :: "'w interfaces \<Rightarrow> 'w Hierarchy \<Rightarrow> 'w Hierarchy" where
  "shutdown ifc h =
     (let h = setConfigured False h;
          h = closeNestedAppenders ifc 0 h;
          loggers1 = getCurrentLoggers h;
          h = fold (closeNestedAppenders ifc) loggers1 h;
          h = removeAllAppenders ifc 0 h
      in fold (removeAllAppenders ifc) loggers1 h)"

definition resetConfiguration :: "'w interfaces \<Rightarrow> 'w Hierarchy \<Rightarrow> 'w Hierarchy" where
  "resetConfiguration ifc h =
     (let h = setLevel ifc 0 (Some getDebug) h;
          h = setResourceBundle 0 None h;
          h = setThreshold (Some getAll) h;
          h = shutdown ifc h
      in fold (\<lambda>logger h. setResourceBundle logger None (setAdditivity logger True (setLevel ifc logger None h)))
           (getCurrentLoggers h) h)"

text \<open>\<open>BasicConfigurator::configure\<close> gives the root an appender for the console, which is \<open>console\<close> here.\<close>

definition BasicConfigurator_configure :: "'w interfaces \<Rightarrow> nat \<Rightarrow> 'w Hierarchy \<Rightarrow> 'w Hierarchy" where
  "BasicConfigurator_configure ifc console h = addAppender ifc 0 console (setConfigured True h)"

definition BasicConfigurator_configure_appender :: "'w interfaces \<Rightarrow> nat \<Rightarrow> 'w Hierarchy \<Rightarrow> 'w Hierarchy" where
  "BasicConfigurator_configure_appender ifc appender h = addAppender ifc 0 appender h"

end
