(* ===== verification/LoggerTree.thy ===== *)
theory LoggerTree
  imports LogHierarchy
begin

text \<open>
  The tree that \<open>Hierarchy::getLogger\<close> builds: the parent of every logger is its nearest dotted ancestor,
  whatever the order of the requests, and for which names the function returns.
\<close>

section \<open>The tree of loggers\<close>

text \<open>
  The dotted ancestors of a name, the nearest first, and what they determine when \<open>m\<close> maps the
  names of the loggers to their numbers: the nearest one that exists, or the root, and the ones before it.
\<close>

definition dots :: "LogString \<Rightarrow> nat \<Rightarrow> nat list" where
  "dots name k = rev (filter (\<lambda>i. name ! i = 0x2E) [0..<k])"

definition ancestors :: "LogString \<Rightarrow> LogString list" where
  "ancestors name = map (\<lambda>i. take i name) (dots name (length name))"

fun nearest :: "(LogString \<Rightarrow> nat option) \<Rightarrow> LogString list \<Rightarrow> nat" where
  "nearest m [] = 0"
| "nearest m (p # ps) = (case m p of Some i \<Rightarrow> i | None \<Rightarrow> nearest m ps)"

definition missing :: "(LogString \<Rightarrow> nat option) \<Rightarrow> LogString list \<Rightarrow> LogString list" where
  "missing m ps = takeWhile (\<lambda>p. m p = None) ps"

definition valid_name :: "LogString \<Rightarrow> bool" where
  "valid_name name \<longleftrightarrow> \<not> startsWith (LS ''root'') name \<and> hd name \<noteq> 0x2E"

definition node_of :: "'w Hierarchy \<Rightarrow> LogString \<Rightarrow> nat set" where
  "node_of h p = (case map_of (provisionNodes h) p of None \<Rightarrow> {} | Some node \<Rightarrow> set node)"

definition tree_ok :: "'w Hierarchy \<Rightarrow> bool" where
  "tree_ok h \<longleftrightarrow> heap h \<noteq> [] \<and> logger_name (heap h ! 0) = LS ''root'' \<and>
     (\<forall>n i. map_of (loggers h) n = Some i \<longrightarrow>
        0 < i \<and> i < length (heap h) \<and> logger_name (heap h ! i) = n \<and>
        logger_parent (heap h ! i) = Some (nearest (map_of (loggers h)) (ancestors n)) \<and>
        (\<forall>p\<in>set (missing (map_of (loggers h)) (ancestors n)). i \<in> node_of h p)) \<and>
     (\<forall>p. \<forall>i\<in>node_of h p. map_of (loggers h) p = None \<and>
        (\<exists>n. map_of (loggers h) n = Some i \<and> p \<in> set (ancestors n)))"

text \<open>Positions of the dots, and the search for the last one before a position.\<close>

lemma dots_Cons: "dots name k = i # is \<Longrightarrow> i < k \<and> name ! i = 0x2E \<and> is = dots name i"
  by (induction k) (auto simp: dots_def split: if_splits)

lemma dots_set: "set (dots name k) = {i. i < k \<and> name ! i = 0x2E}"
  by (auto simp: dots_def)

lemma find_filter: "List.find P xs = (case filter P xs of [] \<Rightarrow> None | x # _ \<Rightarrow> Some x)"
  by (induction xs) auto

lemma find_last_of_dots:
  assumes "k \<le> length name" "0 < k \<or> name = []"
  shows "find_last_of [0x2E] name (pos_before k) = (case dots name k of [] \<Rightarrow> None | i # _ \<Rightarrow> Some i)"
  using assms by (auto simp: find_last_of_def find_filter dots_def rev_filter pos_before_def)

lemma dots_sorted: "sorted_wrt (>) (dots name k)"
  unfolding dots_def sorted_wrt_rev by (simp add: sorted_wrt_filter)

lemma ancestors_sorted: "sorted_wrt (\<lambda>p q. length q < length p) (ancestors name)"
  unfolding ancestors_def sorted_wrt_map
  by (rule sorted_wrt_mono_rel [OF _ dots_sorted]) (auto simp: dots_set)

lemma ancestors_take: "p \<in> set (ancestors n) \<Longrightarrow> length p < length n \<and> p = take (length p) n"
  by (auto simp: ancestors_def dots_set)

lemma not_own_ancestor [simp]: "n \<notin> set (ancestors n)"
  using ancestors_take by blast

lemma ancestors_startsWith:
  assumes "p \<in> set (ancestors n)" "q \<in> set (ancestors n)"
  shows "startsWith q p \<longleftrightarrow> length p \<le> length q"
proof -
  have "p = take (length p) n" "q = take (length q) n" "length q < length n" using ancestors_take assms by blast+
  then show ?thesis unfolding startsWith_def
    by (metis length_take min.absorb_iff1 min.commute nat_le_linear take_all take_take)
qed

text \<open>The nearest ancestor that exists.\<close>

lemma missing_simps [simp]:
  "missing m [] = []" "missing m (p # ps) = (if m p = None then p # missing m ps else [])"
  by (simp_all add: missing_def)

lemma missing_subset: "set (missing m ps) \<subseteq> set ps"
  by (induction ps) auto

lemma missing_None: "p \<in> set (missing m ps) \<Longrightarrow> m p = None"
  by (induction ps) (auto split: if_splits)

lemma nearest_upd:
  "m x = None \<Longrightarrow> nearest (m(x \<mapsto> L)) ps = (if x \<in> set (missing m ps) then L else nearest m ps)"
  by (induction ps) (auto split: option.splits)

lemma missing_upd: "p \<in> set (missing (m(x \<mapsto> L)) ps) \<Longrightarrow> p \<in> set (missing m ps) \<and> p \<noteq> x"
proof (induction ps)
  case (Cons q ps)
  then show ?case by (cases "q = x"; cases "m q") auto
qed simp

lemma nearest_cases:
  assumes "sorted_wrt (\<lambda>p q. length q < length p) (ps :: LogString list)"
  obtains "nearest m ps = 0" "missing m ps = ps"
  | q where "q \<in> set ps" "m q = Some (nearest m ps)" "\<And>x. x \<in> set ps \<Longrightarrow> x \<in> set (missing m ps) \<longleftrightarrow> length q < length x"
  using assms
proof (induction ps arbitrary: thesis)
  case (Cons p ps)
  show ?case
  proof (cases "m p")
    case None
    from Cons.prems(3) have sorted: "sorted_wrt (\<lambda>p q. length q < length p) ps" by simp
    show ?thesis
    proof (rule Cons.IH [OF _ _ sorted])
      assume "nearest m ps = 0" "missing m ps = ps"
      with None show thesis by (intro Cons.prems(1)) simp_all
    next
      fix q assume q: "q \<in> set ps" "m q = Some (nearest m ps)"
        "\<And>x. x \<in> set ps \<Longrightarrow> x \<in> set (missing m ps) \<longleftrightarrow> length q < length x"
      show thesis
        by (rule Cons.prems(2) [of q]) (use q None Cons.prems(3) in auto)
    qed
  next
    case (Some i)
    show ?thesis by (rule Cons.prems(2) [of p]) (use Some Cons.prems(3) in auto)
  qed
qed simp

text \<open>\<open>updateParents\<close> without the positions: the logger is filed under the missing ancestors and attached to the nearest.\<close>

lemma set_logger_simps [simp]:
  "heap (set_logger i f h) = (heap h)[i := f (heap h ! i)]"
  "loggers (set_logger i f h) = loggers h" "provisionNodes (set_logger i f h) = provisionNodes h"
  by (simp_all add: set_logger_def)

lemma provision_simps [simp]: "heap (provision p i h) = heap h" "loggers (provision p i h) = loggers h"
  by (simp_all add: provision_def)

lemma node_of_provision: "node_of (provision p i h) q = (if q = p then insert i (node_of h p) else node_of h q)"
  by (auto simp: node_of_def provision_def split: option.splits)

lemma node_of_set_logger [simp]: "node_of (set_logger i f h) = node_of h"
  by (auto simp: node_of_def fun_eq_iff)

fun file_under :: "nat \<Rightarrow> LogString list \<Rightarrow> 'w Hierarchy \<Rightarrow> bool \<times> 'w Hierarchy" where
  "file_under logger [] h = (False, h)"
| "file_under logger (p # ps) h = (case map_of (loggers h) p of
       Some parent \<Rightarrow> (True, set_logger logger (logger_parent_update (\<lambda>_. Some parent)) h)
     | None \<Rightarrow> file_under logger ps (provision p logger h))"

lemma parents_loop_eq:
  assumes "k \<le> length name" "hd name \<noteq> 0x2E" "name \<noteq> []"
  shows "parents_loop logger name (case dots name k of [] \<Rightarrow> None | i # _ \<Rightarrow> Some i) h =
    Some (file_under logger (map (\<lambda>i. take i name) (dots name k)) h)"
  using assms(1)
proof (induction k arbitrary: h rule: less_induct)
  case (less k)
  show ?case
  proof (cases "dots name k")
    case Nil
    then show ?thesis by (simp add: parents_loop.simps)
  next
    case (Cons i "is")
    then have i: "i < k" "name ! i = 0x2E" "is = dots name i" using dots_Cons by blast+
    with assms have "0 < i" by (cases i) (auto simp: hd_conv_nth)
    with i less.prems have "find_last_of [0x2E] name (pos_before i) = (case dots name i of [] \<Rightarrow> None | i # _ \<Rightarrow> Some i)"
      by (intro find_last_of_dots) auto
    with less.IH [of i] i less.prems Cons show ?thesis
      by (simp add: parents_loop.simps [of _ _ "Some i"] substr_def split: option.split)
  qed
qed

definition attach :: "nat \<Rightarrow> LogString list \<Rightarrow> 'w Hierarchy \<Rightarrow> 'w Hierarchy" where
  "attach logger ps h = (case file_under logger ps h of (found, h) \<Rightarrow>
     if found then h else set_logger logger (logger_parent_update (\<lambda>_. Some 0)) h)"

lemma updateParents_eq:
  assumes "name = logger_name (logger_at logger h)" "hd name \<noteq> 0x2E" "name \<noteq> []"
  shows "updateParents logger h = Some (attach logger (ancestors name) h)"
  using parents_loop_eq [OF order_refl assms(2,3), of logger h] assms find_last_of_dots [of "length name" name]
  by (simp add: updateParents_def attach_def ancestors_def split: prod.split)

lemma attach_simps:
  "heap (attach logger ps h) =
     (heap h)[logger := (heap h ! logger)\<lparr>logger_parent := Some (nearest (map_of (loggers h)) ps)\<rparr>] \<and>
   loggers (attach logger ps h) = loggers h \<and>
   node_of (attach logger ps h) p = node_of h p \<union> (if p \<in> set (missing (map_of (loggers h)) ps) then {logger} else {})"
proof (induction ps arbitrary: h)
  case Nil
  show ?case by (simp add: attach_def)
next
  case (Cons q ps)
  show ?case
  proof (cases "map_of (loggers h) q")
    case None
    then have "attach logger (q # ps) h = attach logger ps (provision q logger h)" by (simp add: attach_def)
    with Cons.IH [of "provision q logger h"] None show ?thesis by (simp add: node_of_provision)
  next
    case (Some i)
    then show ?thesis by (simp add: attach_def)
  qed
qed

text \<open>\<open>updateChildren\<close>: every logger of the node gets the new parent unless its parent is nearer.\<close>

definition adopt :: "'w Hierarchy \<Rightarrow> nat \<Rightarrow> nat option \<Rightarrow> nat option" where
  "adopt h logger parent = (case parent of None \<Rightarrow> None
     | Some p \<Rightarrow> Some (if startsWith (logger_name (heap h ! p)) (logger_name (heap h ! logger)) then p else logger))"

lemma nth_list_update_name:
  "(\<And>l. logger_name (f l) = logger_name l) \<Longrightarrow> logger_name (xs[i := f (xs ! i)] ! j) = logger_name (xs ! j)"
  by (cases "i < length xs"; cases "i = j") (simp_all add: list_update_beyond)

lemma startsWith_refl [simp]: "startsWith s s"
  by (simp add: startsWith_def)

lemma adopt_adopt [simp]: "adopt h logger (adopt h logger p) = adopt h logger p"
  by (simp add: adopt_def split: option.split)

lemma updateChildren_eq:
  assumes "\<forall>l\<in>set pn. l \<noteq> logger \<and> l < length (heap h) \<and> logger_parent (heap h ! l) \<noteq> None" "logger < length (heap h)"
  shows "\<exists>h'. updateChildren pn logger h = ret h' \<and> loggers h' = loggers h \<and> provisionNodes h' = provisionNodes h \<and>
    length (heap h') = length (heap h) \<and>
    (\<forall>j < length (heap h). logger_name (heap h' ! j) = logger_name (heap h ! j)) \<and>
    (\<forall>j < length (heap h). j \<noteq> logger \<longrightarrow> logger_parent (heap h' ! j) =
       (if j \<in> set pn then adopt h logger (logger_parent (heap h ! j)) else logger_parent (heap h ! j)))"
  using assms
proof (induction pn arbitrary: h)
  case (Cons l pn)
  from Cons.prems obtain p where p: "logger_parent (heap h ! l) = Some p" and l: "l \<noteq> logger" "l < length (heap h)" by auto
  show ?case
  proof (cases "startsWith (logger_name (heap h ! p)) (logger_name (heap h ! logger))")
    case True
    then have "adopt h logger (Some p) = Some p" by (simp add: adopt_def)
    moreover have "updateChildren (l # pn) logger h = updateChildren pn logger h" using True p by (simp add: logger_at_def)
    moreover obtain h' where "updateChildren pn logger h = ret h'" "loggers h' = loggers h"
      "provisionNodes h' = provisionNodes h" "length (heap h') = length (heap h)"
      "\<forall>j < length (heap h). logger_name (heap h' ! j) = logger_name (heap h ! j)"
      "\<forall>j < length (heap h). j \<noteq> logger \<longrightarrow> logger_parent (heap h' ! j) =
         (if j \<in> set pn then adopt h logger (logger_parent (heap h ! j)) else logger_parent (heap h ! j))"
      using Cons.IH [of h] Cons.prems by auto
    ultimately show ?thesis using p by auto
  next
    case False
    define h1 where "h1 = set_logger l (logger_parent_update (\<lambda>_. Some logger))
      (set_logger logger (logger_parent_update (\<lambda>_. Some p)) h)"
    have names: "logger_name (heap h1 ! j) = logger_name (heap h ! j)" for j
      unfolding h1_def set_logger_simps by (simp add: nth_list_update_name)
    have parents: "j < length (heap h) \<Longrightarrow> j \<noteq> logger \<Longrightarrow>
      logger_parent (heap h1 ! j) = (if j = l then Some logger else logger_parent (heap h ! j))" for j
      by (auto simp: h1_def nth_list_update)
    have adopt1: "adopt h1 logger = adopt h logger" by (simp add: adopt_def names fun_eq_iff split: option.split)
    have adopted: "adopt h logger (Some p) = Some logger" "adopt h logger (Some logger) = Some logger"
      using False by (simp_all add: adopt_def)
    have same: "length (heap h1) = length (heap h)" "loggers h1 = loggers h" "provisionNodes h1 = provisionNodes h"
      by (simp_all add: h1_def)
    have step: "updateChildren (l # pn) logger h = updateChildren pn logger h1"
      using False p by (simp add: logger_at_def h1_def)
    have pre: "\<forall>l\<in>set pn. l \<noteq> logger \<and> l < length (heap h1) \<and> logger_parent (heap h1 ! l) \<noteq> None"
      using Cons.prems by (auto simp: parents same)
    obtain h' where h': "updateChildren pn logger h1 = ret h'" "loggers h' = loggers h1"
      "provisionNodes h' = provisionNodes h1" "length (heap h') = length (heap h1)"
      "\<forall>j < length (heap h1). logger_name (heap h' ! j) = logger_name (heap h1 ! j)"
      "\<forall>j < length (heap h1). j \<noteq> logger \<longrightarrow> logger_parent (heap h' ! j) =
         (if j \<in> set pn then adopt h1 logger (logger_parent (heap h1 ! j)) else logger_parent (heap h1 ! j))"
      using Cons.IH [OF pre] Cons.prems(2) same by auto
    have "logger_parent (heap h' ! j) = (if j \<in> set (l # pn) then adopt h logger (logger_parent (heap h ! j))
        else logger_parent (heap h ! j))" if j: "j < length (heap h)" "j \<noteq> logger" for j
      using h'(6) j p adopted parents [OF j] unfolding same adopt1 by (cases "j = l") auto
    then show ?thesis unfolding step using h' by (intro exI [of _ h']) (simp add: same names)
  qed
qed simp

text \<open>The clauses of the invariant.\<close>

lemma tree_okD:
  assumes "tree_ok h" "map_of (loggers h) n = Some i"
  shows "0 < i" "i < length (heap h)" "logger_name (heap h ! i) = n"
    "logger_parent (heap h ! i) = Some (nearest (map_of (loggers h)) (ancestors n))"
    "p \<in> set (missing (map_of (loggers h)) (ancestors n)) \<Longrightarrow> i \<in> node_of h p"
  using assms by (auto simp: tree_ok_def)

lemma tree_ok_root: "tree_ok h \<Longrightarrow> heap h \<noteq> [] \<and> logger_name (heap h ! 0) = LS ''root''"
  by (simp add: tree_ok_def)

lemma tree_ok_node:
  assumes "tree_ok h" "i \<in> node_of h p"
  obtains n where "map_of (loggers h) n = Some i" "p \<in> set (ancestors n)" "map_of (loggers h) p = None"
  using assms unfolding tree_ok_def by blast

text \<open>The test in \<open>updateChildren\<close> decides whether the new logger comes before the parent.\<close>

lemma parent_test:
  assumes h: "tree_ok h" and n: "map_of (loggers h) n = Some l" and x: "x \<in> set (ancestors n)"
    and fresh: "map_of (loggers h) x = None" and valid: "\<not> startsWith (LS ''root'') x"
  shows "startsWith (logger_name (heap h ! nearest (map_of (loggers h)) (ancestors n))) x \<longleftrightarrow>
    x \<notin> set (missing (map_of (loggers h)) (ancestors n))"
proof (rule nearest_cases [OF ancestors_sorted, of "map_of (loggers h)" n])
  assume "nearest (map_of (loggers h)) (ancestors n) = 0" "missing (map_of (loggers h)) (ancestors n) = ancestors n"
  then show ?thesis using tree_ok_root [OF h] valid x by simp
next
  fix q
  assume q: "q \<in> set (ancestors n)" "map_of (loggers h) q = Some (nearest (map_of (loggers h)) (ancestors n))"
    "\<And>x. x \<in> set (ancestors n) \<Longrightarrow> x \<in> set (missing (map_of (loggers h)) (ancestors n)) \<longleftrightarrow> length q < length x"
  show ?thesis using tree_okD(3) [OF h q(2)] q(3) [OF x] ancestors_startsWith [OF x q(1)] by auto
qed

text \<open>The state in which \<open>getLogger\<close> has linked the children and filed the new logger.\<close>

definition add_logger :: "LogString \<Rightarrow> 'w Hierarchy \<Rightarrow> 'w Hierarchy" where
  "add_logger name h = h\<lparr>heap := heap h @ [(Logger_ctor name)\<lparr>in_repository := True\<rparr>],
     loggers := map_put name (length (heap h)) (loggers h)\<rparr>"

definition link_children :: "LogString \<Rightarrow> nat \<Rightarrow> 'w Hierarchy \<Rightarrow> 'w Hierarchy run" where
  "link_children name logger h = (case map_of (provisionNodes h) name of
       Some node \<Rightarrow> bind_run (updateChildren node logger h)
         (\<lambda>h. ret (h\<lparr>provisionNodes := map_erase name (provisionNodes h)\<rparr>))
     | None \<Rightarrow> ret h)"

lemma getLogger_new: "map_of (loggers h) name = None \<Longrightarrow> getLogger name h =
  bind_run (link_children name (length (heap h)) (add_logger name h))
    (\<lambda>h'. case updateParents (length (heap h)) h' of None \<Rightarrow> None | Some h' \<Rightarrow> ret (length (heap h), h'))"
  by (simp add: getLogger_def link_children_def add_logger_def Let_def)

lemma linked:
  assumes h: "tree_ok h" and fresh: "map_of (loggers h) name = None" and valid: "\<not> startsWith (LS ''root'') name"
  defines "L \<equiv> length (heap h)"
  shows "\<exists>h'. link_children name L (add_logger name h) = ret h' \<and>
    loggers h' = map_put name L (loggers h) \<and> length (heap h') = Suc L \<and>
    logger_name (heap h' ! L) = name \<and> logger_name (heap h' ! 0) = LS ''root'' \<and>
    (\<forall>n i. map_of (loggers h) n = Some i \<longrightarrow> logger_name (heap h' ! i) = n \<and>
      logger_parent (heap h' ! i) = Some (nearest ((map_of (loggers h))(name \<mapsto> L)) (ancestors n))) \<and>
    (\<forall>p. node_of h' p = (if p = name then {} else node_of h p))"
proof -
  let ?m = "map_of (loggers h)" and ?h = "add_logger name h"
  define pn where "pn = (case map_of (provisionNodes h) name of None \<Rightarrow> [] | Some node \<Rightarrow> node)"
  have pn: "set pn = node_of h name" by (simp add: pn_def node_of_def split: option.split)
  have old: "heap ?h ! i = heap h ! i" if "i < L" for i using that by (simp add: add_logger_def L_def nth_append)
  have new: "logger_name (heap ?h ! L) = name" by (simp add: add_logger_def L_def Logger_ctor_def)
  have len: "length (heap ?h) = Suc L" "heap h \<noteq> []" "0 < L" using tree_ok_root [OF h] by (simp_all add: add_logger_def L_def)
  have members: "\<exists>n. ?m n = Some l \<and> name \<in> set (ancestors n) \<and> l < L" if "l \<in> set pn" for l
    using tree_ok_node [OF h, of l name] tree_okD(2) [OF h] that unfolding pn L_def by metis
  then have pre: "\<forall>l\<in>set pn. l \<noteq> L \<and> l < length (heap ?h) \<and> logger_parent (heap ?h ! l) \<noteq> None"
    using tree_okD(4) [OF h] old len(1) by (metis less_Suc_eq nat_neq_iff option.distinct(1))
  obtain h1 where h1: "updateChildren pn L ?h = ret h1" "loggers h1 = loggers ?h" "provisionNodes h1 = provisionNodes ?h"
    "length (heap h1) = length (heap ?h)" "\<forall>j < length (heap ?h). logger_name (heap h1 ! j) = logger_name (heap ?h ! j)"
    "\<forall>j < length (heap ?h). j \<noteq> L \<longrightarrow> logger_parent (heap h1 ! j) =
       (if j \<in> set pn then adopt ?h L (logger_parent (heap ?h ! j)) else logger_parent (heap ?h ! j))"
    using updateChildren_eq [OF pre] len(1) by auto
  define h' where "h' = h1\<lparr>provisionNodes := map_erase name (provisionNodes h1)\<rparr>"
  have nodes: "node_of h' p = (if p = name then {} else node_of h p)" for p
    by (simp add: h'_def node_of_def h1(3) add_logger_def)
  have parent: "logger_parent (heap h1 ! i) = Some (nearest (?m(name \<mapsto> L)) (ancestors n))" if n: "?m n = Some i" for n i
  proof -
    have i: "i < L" "logger_parent (heap h ! i) = Some (nearest ?m (ancestors n))" using tree_okD [OF h n] by (simp_all add: L_def)
    have near: "nearest ?m (ancestors n) < L"
      by (rule nearest_cases [OF ancestors_sorted, of ?m n]) (use len(3) tree_okD(2) [OF h] in \<open>auto simp: L_def\<close>)
    have par: "logger_parent (heap h1 ! i) = (if i \<in> set pn then adopt ?h L (Some (nearest ?m (ancestors n)))
        else Some (nearest ?m (ancestors n)))"
      using h1(6) i old len(1) by auto
    show ?thesis
    proof (cases "i \<in> set pn")
      case True
      then obtain n' where "?m n' = Some i" "name \<in> set (ancestors n')" using members by blast
      then have "name \<in> set (ancestors n)" using tree_okD(3) [OF h] n by metis
      from parent_test [OF h n this fresh valid] show ?thesis
        using True par by (simp add: nearest_upd fresh adopt_def new old near)
    next
      case False
      then have "name \<notin> set (missing ?m (ancestors n))" using tree_okD(5) [OF h n] pn by blast
      with False par show ?thesis by (simp add: nearest_upd fresh)
    qed
  qed
  have names: "logger_name (heap h1 ! i) = n" if "?m n = Some i" for n i
    using h1(5) tree_okD(2,3) [OF h that] old len(1) by (auto simp: L_def)
  have root: "logger_name (heap h1 ! 0) = LS ''root''" using h1(5) old [of 0] tree_ok_root [OF h] len by auto
  have "link_children name L ?h = ret (if map_of (provisionNodes h) name = None then ?h else h')"
    using h1(1) by (simp add: link_children_def h'_def pn_def add_logger_def split: option.splits)
  moreover have "h1 = ?h" if "map_of (provisionNodes h) name = None"
    using that h1(1) by (simp add: pn_def)
  moreover have "node_of ?h p = node_of h' p" if "map_of (provisionNodes h) name = None" for p
    unfolding nodes using that by (simp add: node_of_def add_logger_def)
  moreover have "heap h' = heap h1" "loggers h' = loggers h1" by (simp_all add: h'_def)
  moreover have "loggers h1 = map_put name L (loggers h)" using h1(2) by (simp add: add_logger_def L_def)
  moreover have "logger_name (heap h1 ! L) = name" using h1(5) new len(1) by simp
  ultimately show ?thesis using nodes parent names root len(1) h1(4)
    by (intro exI [of _ "if map_of (provisionNodes h) name = None then ?h else h'"]) auto
qed

lemma getLogger_tree:
  assumes h: "tree_ok h" and valid: "valid_name name"
  shows "\<exists>i h'. getLogger name h = ret (i, h') \<and> tree_ok h' \<and> map_of (loggers h') = (map_of (loggers h))(name \<mapsto> i)"
proof (cases "map_of (loggers h) name")
  case (Some i)
  then have "getLogger name h = ret (i, h)" by (simp add: getLogger_def)
  with h Some show ?thesis by auto
next
  case None
  let ?m = "map_of (loggers h)"
  define L where "L = length (heap h)"
  let ?m' = "?m(name \<mapsto> L)"
  have v: "\<not> startsWith (LS ''root'') name" "hd name \<noteq> 0x2E" "name \<noteq> []"
    using valid by (auto simp: valid_name_def startsWith_def)
  obtain h1 where h1: "link_children name L (add_logger name h) = ret h1" "loggers h1 = map_put name L (loggers h)"
    "length (heap h1) = Suc L" "logger_name (heap h1 ! L) = name" "logger_name (heap h1 ! 0) = LS ''root''"
    "\<forall>n i. ?m n = Some i \<longrightarrow> logger_name (heap h1 ! i) = n \<and> logger_parent (heap h1 ! i) = Some (nearest ?m' (ancestors n))"
    "\<forall>p. node_of h1 p = (if p = name then {} else node_of h p)"
    using linked [OF h None v(1)] unfolding L_def by blast
  define h' where "h' = attach L (ancestors name) h1"
  have eq: "getLogger name h = ret (L, h')"
    using h1(1,4) updateParents_eq [of name L h1] v by (simp add: getLogger_new None L_def h'_def logger_at_def)
  have m': "map_of (loggers h1) = ?m'" by (simp add: h1(2))
  have a: "heap h' = (heap h1)[L := (heap h1 ! L)\<lparr>logger_parent := Some (nearest ?m' (ancestors name))\<rparr>]"
    "loggers h' = loggers h1"
    "\<And>p. node_of h' p = node_of h1 p \<union> (if p \<in> set (missing ?m' (ancestors name)) then {L} else {})"
    using attach_simps [of L "ancestors name" h1] unfolding m' h'_def by blast+
  have L: "0 < L" "heap h' \<noteq> []" using tree_ok_root [OF h] h1(3) a(1) by (auto simp: L_def)
  have old: "0 < i \<and> i < length (heap h') \<and> logger_name (heap h' ! i) = n \<and>
      logger_parent (heap h' ! i) = Some (nearest ?m' (ancestors n)) \<and>
      (\<forall>p\<in>set (missing ?m' (ancestors n)). i \<in> node_of h' p)" if n: "?m n = Some i" for n i
  proof -
    have i: "0 < i" "i < L" using tree_okD [OF h n] by (simp_all add: L_def)
    have "i \<in> node_of h' p" if "p \<in> set (missing ?m' (ancestors n))" for p
      using tree_okD(5) [OF h n, of p] missing_upd [OF that] a(3) h1(7) by auto
    with i h1(3,6) n a(1) show ?thesis by auto
  qed
  have new: "0 < L \<and> L < length (heap h') \<and> logger_name (heap h' ! L) = name \<and>
      logger_parent (heap h' ! L) = Some (nearest ?m' (ancestors name)) \<and>
      (\<forall>p\<in>set (missing ?m' (ancestors name)). L \<in> node_of h' p)"
    using L h1(3,4) a by simp
  have nodes: "?m' p = None \<and> (\<exists>n. ?m' n = Some i \<and> p \<in> set (ancestors n))" if i: "i \<in> node_of h' p" for i p
  proof (cases "i \<in> node_of h1 p")
    case True
    then have "p \<noteq> name" "i \<in> node_of h p" using h1(7) by (auto split: if_splits)
    then show ?thesis using tree_ok_node [OF h, of i p] None by (metis fun_upd_apply option.distinct(1))
  next
    case False
    then have p: "i = L" "p \<in> set (missing ?m' (ancestors name))" using i a(3) by (auto split: if_splits)
    show ?thesis using missing_None [OF p(2)] subsetD [OF missing_subset p(2)] p(1)
      by (intro conjI exI [of _ name]) simp_all
  qed
  have "logger_name (heap h' ! 0) = LS ''root''" using L h1(5) a(1) by simp
  moreover have "0 < i \<and> i < length (heap h') \<and> logger_name (heap h' ! i) = n \<and>
      logger_parent (heap h' ! i) = Some (nearest ?m' (ancestors n)) \<and>
      (\<forall>p\<in>set (missing ?m' (ancestors n)). i \<in> node_of h' p)" if "?m' n = Some i" for n i
  proof (cases "n = name")
    case True
    with that have "i = L" by simp
    with True new show ?thesis by blast
  next
    case False
    with that have "?m n = Some i" by simp
    then show ?thesis by (rule old)
  qed
  ultimately have "tree_ok h'" unfolding tree_ok_def a(2) m' using L(2) nodes by blast
  then show ?thesis using eq a(2) m' by auto
qed

text \<open>Loggers that are looked up one after the other.\<close>

fun getLoggers :: "LogString list \<Rightarrow> 'w Hierarchy \<Rightarrow> 'w Hierarchy run" where
  "getLoggers [] h = ret h"
| "getLoggers (n # ns) h = bind_run (getLogger n h) (\<lambda>(logger, h). getLoggers ns h)"

lemma getLoggers_tree:
  assumes "tree_ok h" "\<forall>n\<in>set names. valid_name n"
  shows "\<exists>h'. getLoggers names h = ret h' \<and> tree_ok h' \<and> dom (map_of (loggers h')) = dom (map_of (loggers h)) \<union> set names"
  using assms
proof (induction names arbitrary: h)
  case (Cons n names)
  obtain i h1 where h1: "getLogger n h = ret (i, h1)" "tree_ok h1" "map_of (loggers h1) = (map_of (loggers h))(n \<mapsto> i)"
    using getLogger_tree [OF Cons.prems(1), of n] Cons.prems(2) by auto
  obtain h' where h': "getLoggers names h1 = ret h'" "tree_ok h'" "dom (map_of (loggers h')) = dom (map_of (loggers h1)) \<union> set names"
    using Cons.IH [OF h1(2)] Cons.prems(2) by auto
  have "dom (map_of (loggers h')) = dom (map_of (loggers h)) \<union> set (n # names)" unfolding h'(3) h1(3) by simp
  with h' h1(1) show ?case by (intro exI [of _ h']) simp
qed simp

lemma tree_ok_ctor: "tree_ok (Hierarchy_ctor w)"
  unfolding tree_ok_def node_of_def Hierarchy_ctor_def RootLogger_ctor_def Logger_ctor_def by (simp del: LS_simps)

text \<open>
  C38. In whatever order loggers are requested from a new hierarchy, every request returns, and in the
  end the parent of every logger is the logger of its nearest dotted ancestor that exists, or the
  root. The names must not begin with a dot and must not be a prefix of \<open>root\<close>.
\<close>

theorem parent_is_nearest_ancestor:
  assumes "\<forall>n\<in>set names. valid_name n"
  shows "\<exists>h. getLoggers names (Hierarchy_ctor w) = ret h \<and>
    (\<forall>n. exists_logger n h = None \<longleftrightarrow> n \<notin> set names) \<and>
    (\<forall>n i. exists_logger n h = Some i \<longrightarrow> logger_name (logger_at i h) = n \<and>
       logger_parent (logger_at i h) = Some (nearest (\<lambda>p. exists_logger p h) (ancestors n)))"
proof -
  obtain h where h: "getLoggers names (Hierarchy_ctor w) = ret h" "tree_ok h"
    "dom (map_of (loggers h)) = dom (map_of (loggers (Hierarchy_ctor w))) \<union> set names"
    using getLoggers_tree [OF tree_ok_ctor [of w] assms] by (elim exE conjE) (rule that)
  have "map_of (loggers h) n = None \<longleftrightarrow> n \<notin> set names" for n
    using h(3) domIff [of n "map_of (loggers h)"] by (simp add: Hierarchy_ctor_def)
  moreover have "logger_name (heap h ! i) = n \<and> logger_parent (heap h ! i) = Some (nearest (map_of (loggers h)) (ancestors n))"
    if "map_of (loggers h) n = Some i" for n i
    using tree_okD(3,4) [OF h(2) that] by blast
  ultimately show ?thesis unfolding exists_logger_def logger_at_def by (intro exI [of _ h] conjI h(1)) simp_all
qed

theorem parent_is_nearest_ancestor_witness:
  "valid_name (LS ''a.b.c'') \<and> valid_name (LS ''a'') \<and> valid_name (LS ''a.b'') \<and>
   (\<exists>h i. getLoggers [LS ''a.b.c'', LS ''a'', LS ''a.b''] (Hierarchy_ctor ()) = ret h \<and>
     exists_logger (LS ''a.b.c'') h = Some i \<and>
     logger_parent (logger_at i h) = Some (nearest (\<lambda>p. exists_logger p h) (ancestors (LS ''a.b.c''))))"
proof -
  have v: "valid_name (LS ''a.b.c'') \<and> valid_name (LS ''a'') \<and> valid_name (LS ''a.b'')" by code_simp
  then have "\<forall>n\<in>set [LS ''a.b.c'', LS ''a'', LS ''a.b'']. valid_name n" by (simp del: LS_simps)
  from parent_is_nearest_ancestor [OF this, of "()"] obtain h where
    h: "getLoggers [LS ''a.b.c'', LS ''a'', LS ''a.b''] (Hierarchy_ctor ()) = ret h"
      "\<forall>n. exists_logger n h = None \<longleftrightarrow> n \<notin> set [LS ''a.b.c'', LS ''a'', LS ''a.b'']"
      "\<forall>n i. exists_logger n h = Some i \<longrightarrow> logger_name (logger_at i h) = n \<and>
         logger_parent (logger_at i h) = Some (nearest (\<lambda>p. exists_logger p h) (ancestors n))"
    by (elim exE conjE) (rule that)
  from h(2) obtain i where "exists_logger (LS ''a.b.c'') h = Some i"
    by (cases "exists_logger (LS ''a.b.c'') h") (simp_all del: LS_simps)
  with v h(1,3) show ?thesis by blast
qed

section \<open>Names that begin with a dot\<close>

lemma find_last_of_lead: "\<exists>j < length (0x2E # s). find_last_of [0x2E] (0x2E # s) pos = Some j" for s :: LogString
proof -
  let ?n = "case pos of None \<Rightarrow> length (0x2E # s) | Some i \<Rightarrow> min (Suc i) (length (0x2E # s))"
  have "List.find (\<lambda>j. (0x2E # s) ! j \<in> set [0x2E]) (rev [0..<?n]) \<noteq> None"
    unfolding find_None_iff by (auto split: option.split intro!: bexI [of _ 0])
  then obtain j where j: "find_last_of [0x2E] (0x2E # s) pos = Some j" unfolding find_last_of_def by auto
  then have "j < ?n" unfolding find_last_of_def find_Some_iff by (auto simp: rev_nth)
  with j show ?thesis by (auto split: option.splits)
qed

definition stuck :: "LogString \<Rightarrow> nat option \<Rightarrow> 'w Hierarchy \<Rightarrow> bool" where
  "stuck name pos h \<longleftrightarrow> name \<noteq> [] \<and> hd name = 0x2E \<and> (\<exists>i < length name. pos = Some i) \<and>
     (\<forall>j < length name. map_of (loggers h) (take j name) = None)"

lemma parents_loop_lead:
  assumes "stuck name pos h"
  shows "parents_loop logger name pos h = None"
proof (rule ccontr)
  assume "parents_loop logger name pos h \<noteq> None"
  then obtain r where r: "parents_loop logger name pos h = Some r" by auto
  have "\<not> stuck name pos h"
  proof (rule parents_loop.raw_induct [where P = "\<lambda>_ name pos h _. \<not> stuck name pos h", OF _ r])
    fix loop logger name pos r and h :: "'a Hierarchy"
    assume IH: "\<And>logger name pos h r. loop logger name pos h = Some r \<Longrightarrow> \<not> stuck name pos (h :: 'a Hierarchy)"
      and step: "(case pos of None \<Rightarrow> Some (False, h)
        | Some i \<Rightarrow> (case map_of (loggers h) (substr name 0 i) of
            None \<Rightarrow> loop logger name (find_last_of [0x2E] name (pos_before i)) (provision (substr name 0 i) logger h)
          | Some parent \<Rightarrow> Some (True, set_logger logger (logger_parent_update (\<lambda>_. Some parent)) h))) = Some r"
    show "\<not> stuck name pos h"
    proof
      assume st: "stuck name pos h"
      then obtain i s where i: "pos = Some i" "i < length name" "name = 0x2E # s"
        unfolding stuck_def by (cases name) auto
      from st i have "map_of (loggers h) (substr name 0 i) = None" by (simp add: stuck_def substr_def)
      with step i(1) have "loop logger name (find_last_of [0x2E] name (pos_before i)) (provision (substr name 0 i) logger h) = Some r"
        by simp
      from IH [OF this] show False using st find_last_of_lead [of s "pos_before i"] i(3) by (auto simp: stuck_def)
    qed
  qed
  with assms show False by simp
qed

text \<open>
  C40. In a hierarchy with the loggers of any valid names, \<open>getLogger\<close> returns for every other name
  that is not a prefix of \<open>root\<close>, unless the name begins with a dot; then it does not return, since
  the search for the next dot starts from the end again.
\<close>

theorem getLogger_returns_iff:
  assumes "\<forall>n\<in>set names. valid_name n" "getLoggers names (Hierarchy_ctor w) = ret h" "\<not> startsWith (LS ''root'') name"
  shows "returns (getLogger name h) \<longleftrightarrow> hd name \<noteq> 0x2E"
proof -
  from getLoggers_tree [OF tree_ok_ctor [of w] assms(1)] assms(2)
  have h: "tree_ok h" "dom (map_of (loggers h)) = dom (map_of (loggers (Hierarchy_ctor w))) \<union> set names"
    by (auto simp del: getLoggers.simps)
  show ?thesis
  proof (cases "hd name = 0x2E")
    case False
    then have "valid_name name" using assms(3) by (simp add: valid_name_def)
    then show ?thesis using getLogger_tree [OF h(1), of name] False by auto
  next
    case True
    have ne: "name \<noteq> []" using assms(3) by (auto simp: startsWith_def)
    then obtain s where s: "name = 0x2E # s" using True by (cases name) auto
    have no: "map_of (loggers h) p = None" if "p = [] \<or> hd p = 0x2E" for p
    proof -
      have "\<not> valid_name p" using that by (auto simp: valid_name_def startsWith_def)
      then have "p \<notin> dom (map_of (loggers h))" unfolding h(2) using assms(1) by (auto simp: Hierarchy_ctor_def)
      then show ?thesis by (simp add: domIff)
    qed
    define L where "L = length (heap h)"
    from no [of name] True have fresh: "map_of (loggers h) name = None" by simp
    obtain h1 where h1: "link_children name L (add_logger name h) = ret h1" "loggers h1 = map_put name L (loggers h)"
      "logger_name (heap h1 ! L) = name"
      using linked [OF h(1) fresh assms(3)] unfolding L_def by blast
    have "map_of (loggers h1) (take j name) = None" if "j < length name" for j
      using that no [of "take j name"] True h1(2) by (cases j) (auto simp: s)
    then have "stuck name (find_last_of [0x2E] name (pos_before (length name))) h1"
      using find_last_of_lead [of s "pos_before (length name)"] s by (auto simp: stuck_def)
    then have "updateParents L h1 = None"
      using parents_loop_lead h1(3) by (simp add: updateParents_def logger_at_def)
    then show ?thesis using True h1(1) by (simp add: getLogger_new [OF fresh] L_def)
  qed
qed

theorem getLogger_returns_iff_witness:
  "valid_name (LS ''a.b'') \<and> \<not> startsWith (LS ''root'') (LS ''.a'') \<and>
   (\<exists>h. getLoggers [LS ''a.b''] (Hierarchy_ctor ()) = ret h \<and> \<not> returns (getLogger (LS ''.a'') h))"
proof -
  have v: "\<forall>n\<in>set [LS ''a.b'']. valid_name n" by code_simp
  have p: "\<not> startsWith (LS ''root'') (LS ''.a'')" by code_simp
  have dot: "hd (LS ''.a'') = 0x2E" by code_simp
  obtain h where h: "getLoggers [LS ''a.b''] (Hierarchy_ctor ()) = ret h"
    using getLoggers_tree [OF tree_ok_ctor [of "()"] v] by (elim exE conjE) (rule that)
  show ?thesis using getLogger_returns_iff [OF v h p] v h p dot by (metis list.set_intros(1))
qed

end
