(* ===== verification/LoggerLevels.thy ===== *)
theory LoggerLevels
  imports LoggerTree
begin

text \<open>Which level a logger inherits (\<open>Logger::getEffectiveLevel\<close>) in the tree of loggers.\<close>

section \<open>Inheritance of levels\<close>

text \<open>The level of the first of the names that has a logger with a level, otherwise the level of the root.\<close>

fun inherited_level :: "'w Hierarchy \<Rightarrow> LogString list \<Rightarrow> Level option" where
  "inherited_level h [] = logger_level (logger_at 0 h)"
| "inherited_level h (p # ps) =
     (case Option.bind (exists_logger p h) (\<lambda>i. logger_level (logger_at i h)) of
        Some l \<Rightarrow> Some l
      | None \<Rightarrow> inherited_level h ps)"

lemma ancestors_tail: "ancestors n = xs @ p # ps \<Longrightarrow> ps = ancestors p"
proof -
  have "map (\<lambda>i. take i n) (dots n k) = xs @ p # ps \<Longrightarrow> k \<le> length n \<Longrightarrow> ps = ancestors p" for k
  proof (induction xs arbitrary: k)
    case Nil
    then obtain i "is" where i: "dots n k = i # is" "p = take i n" "ps = map (\<lambda>i. take i n) is"
      by (cases "dots n k") auto
    with dots_Cons Nil.prems(2) have k: "i < length n" "is = dots n i" by fastforce+
    have "dots p i = dots n i" unfolding dots_def i(2) by (rule arg_cong [of _ _ rev], rule filter_cong) auto
    then show ?case unfolding i(3) k(2) using i(2) k(1) by (simp add: ancestors_def dots_set)
  next
    case (Cons x xs)
    then obtain i "is" where i: "dots n k = i # is" "map (\<lambda>i. take i n) is = xs @ p # ps"
      by (cases "dots n k") auto
    with dots_Cons Cons.prems(2) have "i \<le> length n" "is = dots n i" by fastforce+
    with Cons.IH [of i] i(2) show ?case by simp
  qed
  then show "ancestors n = xs @ p # ps \<Longrightarrow> ps = ancestors p" unfolding ancestors_def by blast
qed

lemma level_loop_eq:
  assumes h: "tree_ok h" and root: "logger_level (heap h ! 0) \<noteq> None"
  shows "map_of (loggers h) n = Some i \<Longrightarrow>
    \<exists>l. inherited_level h (n # ancestors n) = Some l \<and> level_loop (Some i) h = ret l"
proof (induction "length n" arbitrary: n i rule: less_induct)
  case less
  let ?m = "map_of (loggers h)"
  have up: "\<exists>l. inherited_level h ps = Some l \<and> level_loop (Some (nearest ?m ps)) h = ret l"
    if "ancestors n = xs @ ps" for xs ps
    using that
  proof (induction ps arbitrary: xs)
    case Nil
    from root show ?case by (auto simp: level_loop.simps logger_at_def)
  next
    case (Cons p ps)
    show ?case
    proof (cases "?m p")
      case None
      then show ?thesis using Cons.IH [of "xs @ [p]"] Cons.prems by (simp add: exists_logger_def)
    next
      case (Some j)
      have "length p < length n" using ancestors_take [of p n] Cons.prems by simp
      from less.hyps [OF this Some] show ?thesis using Some ancestors_tail [OF Cons.prems] by simp
    qed
  qed
  from up [of "[]" "ancestors n"] obtain l where
    l: "inherited_level h (ancestors n) = Some l" "level_loop (Some (nearest ?m (ancestors n))) h = ret l" by auto
  show ?case
    using l tree_okD(4) [OF h less.prems] less.prems
    by (subst level_loop.simps) (auto simp: exists_logger_def logger_at_def split: option.split)
qed

text \<open>Setting levels keeps the tree, and the root always has a level.\<close>

lemma tree_ok_set_logger:
  assumes "tree_ok h" "\<And>l. logger_name (f l) = logger_name l" "\<And>l. logger_parent (f l) = logger_parent l"
  shows "tree_ok (set_logger i f h)"
proof -
  have "logger_name (heap (set_logger i f h) ! j) = logger_name (heap h ! j)"
    "logger_parent (heap (set_logger i f h) ! j) = logger_parent (heap h ! j)" for j
    using assms(2,3) by (cases "i < length (heap h)"; cases "i = j"; simp add: list_update_beyond)+
  then show ?thesis using assms(1) unfolding tree_ok_def node_of_set_logger by simp
qed

lemma setLevel_tree:
  assumes "tree_ok h" "logger_level (heap h ! 0) \<noteq> None"
  shows "tree_ok (setLevel ifc i l h) \<and> logger_level (heap (setLevel ifc i l h) ! 0) \<noteq> None \<and>
    loggers (setLevel ifc i l h) = loggers h"
proof (cases "i = 0")
  case True
  show ?thesis
  proof (cases l)
    case None
    then have "heap (setLevel ifc i l h) = heap h" "loggers (setLevel ifc i l h) = loggers h"
      "provisionNodes (setLevel ifc i l h) = provisionNodes h"
      using True by (simp_all add: setLevel_def Root_setLevel_def effect_def)
    with assms show ?thesis unfolding tree_ok_def node_of_def by simp
  next
    case (Some l')
    then show ?thesis using True assms tree_ok_set_logger [OF assms(1)] tree_ok_root [OF assms(1)]
      by (simp add: setLevel_def Root_setLevel_def)
  qed
next
  case False
  then show ?thesis using assms tree_ok_set_logger [OF assms(1)] by (simp add: setLevel_def)
qed

lemma set_logger_level: "(\<And>l. logger_level (f l) = logger_level l) \<Longrightarrow>
    logger_level (heap (set_logger i f h) ! j) = logger_level (heap h ! j)"
  by (cases "i < length (heap h)"; cases "i = j") (simp_all add: list_update_beyond)

lemma getLogger_levels:
  assumes "tree_ok h" "valid_name name" "getLogger name h = ret (i, h')"
  shows "logger_level (heap h' ! 0) = logger_level (heap h ! 0)"
proof (cases "map_of (loggers h) name")
  case None
  have ne: "heap h \<noteq> []" using tree_ok_root [OF assms(1)] by blast
  have children: "updateChildren pn L g = ret g' \<Longrightarrow> logger_level (heap g' ! 0) = logger_level (heap g ! 0)"
    for pn L and g g' :: "'a Hierarchy"
    by (induction pn L g arbitrary: g' rule: updateChildren.induct)
      (auto simp: set_logger_level simp del: set_logger_simps split: option.splits if_splits)
  obtain h1 where h1: "link_children name (length (heap h)) (add_logger name h) = ret h1"
    "(case updateParents (length (heap h)) h1 of None \<Rightarrow> None | Some h' \<Rightarrow> ret (length (heap h), h')) = ret (i, h')"
    using assms(3) unfolding getLogger_new [OF None] by (rule bind_run_retE)
  have "logger_level (heap h1 ! 0) = logger_level (heap (add_logger name h) ! 0)"
    using h1(1) by (auto simp: link_children_def bind_run_ret_iff children split: option.splits)
  also have "\<dots> = logger_level (heap h ! 0)" using ne by (simp add: add_logger_def nth_append)
  finally have *: "logger_level (heap h1 ! 0) = logger_level (heap h ! 0)" .
  have name: "logger_name (logger_at (length (heap h)) h1) = name" "hd name \<noteq> 0x2E" "name \<noteq> []"
    using linked [OF assms(1) None] h1(1) assms(2) by (auto simp: valid_name_def startsWith_def logger_at_def)
  have "h' = attach (length (heap h)) (ancestors name) h1"
    using h1(2) updateParents_eq [OF name(1) [symmetric] name(2,3)] by auto
  then show ?thesis using * ne attach_simps [of "length (heap h)" "ancestors name" h1]
    by (simp add: nth_list_update)
qed (use assms in \<open>simp add: getLogger_def\<close>)

text \<open>Requests for loggers and settings of levels, in any order.\<close>

datatype logger_use = Get_Logger LogString | Set_Level nat "Level option"

fun use_loggers :: "'w interfaces \<Rightarrow> logger_use list \<Rightarrow> 'w Hierarchy \<Rightarrow> 'w Hierarchy run" where
  "use_loggers ifc [] h = ret h"
| "use_loggers ifc (Get_Logger n # us) h = bind_run (getLogger n h) (\<lambda>(logger, h). use_loggers ifc us h)"
| "use_loggers ifc (Set_Level i l # us) h = use_loggers ifc us (setLevel ifc i l h)"

lemma use_loggers_tree:
  "tree_ok h \<Longrightarrow> logger_level (heap h ! 0) \<noteq> None \<Longrightarrow> \<forall>n. Get_Logger n \<in> set us \<longrightarrow> valid_name n \<Longrightarrow>
   \<exists>h'. use_loggers ifc us h = ret h' \<and> tree_ok h' \<and> logger_level (heap h' ! 0) \<noteq> None \<and>
     dom (map_of (loggers h')) = dom (map_of (loggers h)) \<union> {n. Get_Logger n \<in> set us}"
proof (induction ifc us h rule: use_loggers.induct)
  case (2 ifc n us h)
  have v: "valid_name n" using 2(4) by simp
  obtain i h1 where h1: "getLogger n h = ret (i, h1)" "tree_ok h1" "map_of (loggers h1) = (map_of (loggers h))(n \<mapsto> i)"
    using getLogger_tree [OF 2(2) v] by (elim exE conjE) (rule that)
  have l: "logger_level (heap h1 ! 0) \<noteq> None" using getLogger_levels [OF 2(2) v h1(1)] 2(3) by simp
  have "\<exists>h'. use_loggers ifc us h1 = ret h' \<and> tree_ok h' \<and> logger_level (heap h' ! 0) \<noteq> None \<and>
      dom (map_of (loggers h')) = dom (map_of (loggers h1)) \<union> {n. Get_Logger n \<in> set us}"
    using 2(1) [OF h1(1) refl h1(2) l] 2(4) by simp
  then show ?case unfolding h1(3) by (auto simp: h1(1))
next
  case (3 ifc i l us h)
  note st = setLevel_tree [OF 3(2,3), of ifc i l]
  have "\<exists>h'. use_loggers ifc us (setLevel ifc i l h) = ret h' \<and> tree_ok h' \<and> logger_level (heap h' ! 0) \<noteq> None \<and>
      dom (map_of (loggers h')) = dom (map_of (loggers (setLevel ifc i l h))) \<union> {n. Get_Logger n \<in> set us}"
    using 3(1) 3(4) st by simp
  then show ?case using st by simp
qed simp

lemma root_level_ctor: "logger_level (heap (Hierarchy_ctor w) ! 0) \<noteq> None"
  by (simp add: Hierarchy_ctor_def RootLogger_ctor_def del: LS_simps)

text \<open>
  C39. Requests for loggers whose names neither begin with a dot nor are a prefix of \<open>root\<close>, in any order
  with calls of \<open>setLevel\<close> between them, all return from a new hierarchy. At the end every requested
  logger exists, and its effective level is its own level if it has one, otherwise the level of the nearest
  dotted ancestor that exists and has one, otherwise the level of the root; it is never a null pointer.
\<close>

theorem effective_level_inherited:
  assumes "\<forall>n. Get_Logger n \<in> set us \<longrightarrow> valid_name n"
  shows "\<exists>h. use_loggers ifc us (Hierarchy_ctor w) = ret h \<and>
    (\<forall>n. Get_Logger n \<in> set us \<longrightarrow> (\<exists>i l. exists_logger n h = Some i \<and>
       inherited_level h (n # ancestors n) = Some l \<and> getEffectiveLevel i h = ret l))"
proof -
  obtain h where h: "use_loggers ifc us (Hierarchy_ctor w) = ret h" "tree_ok h" "logger_level (heap h ! 0) \<noteq> None"
    "dom (map_of (loggers h)) = dom (map_of (loggers (Hierarchy_ctor w))) \<union> {n. Get_Logger n \<in> set us}"
    using use_loggers_tree [OF tree_ok_ctor [of w] root_level_ctor assms, of ifc] by (elim exE conjE) (rule that)
  have "\<exists>i l. exists_logger n h = Some i \<and> inherited_level h (n # ancestors n) = Some l \<and> getEffectiveLevel i h = ret l"
    if "Get_Logger n \<in> set us" for n
  proof -
    have "n \<in> dom (map_of (loggers h))" unfolding h(4) using that by simp
    then obtain i where i: "map_of (loggers h) n = Some i" by auto
    show ?thesis
      using level_loop_eq [OF h(2,3) i] tree_okD(1) [OF h(2) i] i by (simp add: getEffectiveLevel_def exists_logger_def)
  qed
  with h(1) show ?thesis by blast
qed

definition quiet :: "unit interfaces" where
  "quiet = \<lparr>doAppend = \<lambda>_ _ w. w, close_appender = \<lambda>_ w. w, appender_name = \<lambda>_ _. [],
     addAppenderEvent = \<lambda>_ _ _ w. w, removeAppenderEvent = \<lambda>_ _ _ w. w, warning = \<lambda>_ w. w,
     error_report = \<lambda>_ w. w\<rparr>"

text \<open>A level for \<open>a\<close>, which is requested after \<open>a.b\<close>; a level of the root that changes afterwards does not matter.\<close>

definition example_uses :: "logger_use list" where
  "example_uses = [Get_Logger (LS ''a.b''), Get_Logger (LS ''a''), Set_Level 2 (Some getWarn), Set_Level 0 (Some getFatal)]"

theorem effective_level_inherited_witness:
  "\<exists>h i l. use_loggers quiet example_uses (Hierarchy_ctor ()) = ret h \<and> exists_logger (LS ''a.b'') h = Some i \<and>
     inherited_level h (LS ''a.b'' # ancestors (LS ''a.b'')) = Some l \<and> getEffectiveLevel i h = ret l"
proof -
  have names: "valid_name (LS ''a.b'')" "valid_name (LS ''a'')" by code_simp+
  have "\<forall>n. Get_Logger n \<in> set example_uses \<longrightarrow> valid_name n"
    using names by (auto simp: example_uses_def simp del: LS_simps)
  moreover have "Get_Logger (LS ''a.b'') \<in> set example_uses" by (simp add: example_uses_def)
  ultimately show ?thesis using effective_level_inherited [of example_uses quiet "()"] by blast
qed

text \<open>
  The condition on names is needed: the children of a logger whose name is a prefix of \<open>root\<close> keep the
  root as their parent, since the test compares the name with the name of the root.
\<close>

lemma prefix_of_root_not_parent:
  "(case getLoggers [LS ''r.x'', LS ''r''] (Hierarchy_ctor ()) of
      Some (Inr h) \<Rightarrow> exists_logger (LS ''r.x'') h = Some 1 \<and> exists_logger (LS ''r'') h = Some 2 \<and>
        logger_parent (logger_at 1 h) = Some 0
    | _ \<Rightarrow> False)"
  by code_simp

text \<open>The tests for the standard levels are the general one.\<close>

lemma enabled_for_standard_level:
  "enabled_for configure (level_int l) logger = isEnabledFor configure logger l"
  unfolding enabled_for_def isEnabledFor_def isGreaterOrEqual_def by (rule refl)

end
