(* ===== verification/Spec2Isabelle.thy ===== *)
theory Spec2Isabelle
  imports MainProgram Cache LoggerLevels
begin

text \<open>
  ODBCDNS is a DNS server for Windows. The main thread receives datagrams and puts them into a queue;
  worker threads take them out, answer address questions from a table of records in an ODBC data
  source, forward the questions that are not in the table to a recursive server, relay its response and
  store the records of the response in the table. It logs through a copy of log4cxx, which is part
  of the repository, and log4cxx uses copies of APR and APR-util.

  \<^bold>\<open>Results.\<close> A piece of code yields \<open>'a run = (error + 'a) option\<close> (\<open>Prelude\<close>): \<open>Some (Inr x)\<close> is a
  normal return, \<open>Some (Inl e)\<close> an exception or a crash (an access outside an array, a null
  pointer, an abort), \<open>None\<close> that it does not return. Code with a state yields \<open>('s, 'a) io\<close>
  (\<open>Effects\<close>), with handlers for exceptions and loops. Loops that may not end are partial functions
  into \<open>option\<close>, without fuel, and that they end is a theorem where they do.

  \<^bold>\<open>Integers and memory.\<close> Machine integers are words of their width, or numbers where the width
  cannot matter. A memory region is a list of bytes, and every read or write outside it is a crash.

  \<^bold>\<open>The server's own code.\<close>

  \<^item> \<open>Prelude\<close>: results, memory regions, the C library functions that the sources use, byte order, and
    the contract of a fixed layout of fields (locale \<open>fixed_layout\<close>).
  \<^item> \<open>Message\<close>: \<open>src/DNS/DNSMessage.h\<close>. Codes with their values, the header with its bit fields; the layout
    of the header on the wire.
  \<^item> \<open>DNSUtil\<close>: \<open>src/DNS/DNSUtil.cpp\<close>. \<open>decodeName\<close> and \<open>encodeName\<close>; they are inverse to each other,
    \<open>decodeName\<close> is equivalent to a relation between bytes and names, and it returns when the
    compression pointers go backwards.
  \<^item> \<open>RData\<close>, \<open>ResourceRecord\<close>, \<open>Query\<close>: \<open>src/DNS/DNSRData*.cpp\<close>, \<open>DNSResourceRecord.cpp\<close>, \<open>DNSQuery.cpp\<close>.
    Round trips of address data and of records with and without compression, what happens without space
    and with a record of a type that is not supported,
    and the parsing of a question. The virtual calls on record data are the locale \<open>rdata_class\<close>.
  \<^item> \<open>Odbc\<close>: \<open>src/ODBC\<close>. Environment, connection, statement, result set and the texts of errors, on a
    driver whose functions are parameters (locale \<open>checked_calls\<close>).
  \<^item> \<open>Resolver\<close> and \<open>Answers\<close>: \<open>src/DNS/DNSResolver.cpp\<close>. Extraction of the questions, lookup, recursion and
    caching; the bytes of an answer from the table, the recursion on a miss, truncation.
  \<^item> \<open>Cache\<close>: what the three SQL statements of the resolver do to the table. The data source executes the
    statements of all workers one after the other, in any interleaving, and each reads the clock for
    itself. Which statements caching a response executes, that unexpired records have no duplicates, and that
    a cached record is found by a query exactly until it expires.
  \<^item> \<open>Worker\<close>: \<open>serviceRequests\<close> of \<open>src/ODBCDNS/DNSServer.cpp\<close>, phase by phase with its handlers; a request from
    the datagram to the bytes that are sent.
  \<^item> \<open>Server\<close>: constructor, destructor, receiving and shutdown, and the interleaving of the threads as step
    relations: the queue is never popped when it is empty, requests are taken in order (locale
    \<open>request_fifo\<close>), every request has a taker, after a shutdown all threads come to an end within a bounded
    number of steps unless one is blocked or undefined, and the race at shutdown.
  \<^item> \<open>MainProgram\<close>: \<open>src/ODBCDNS/main.cpp\<close>. Arguments and the life of the process.

  \<^bold>\<open>The logging library\<close> (\<open>src/log4cxx/src/main/cpp\<close>). A \<open>LogString\<close> is a list of 16-bit characters.

  \<^item> \<open>LogText\<close>: \<open>stringhelper.cpp\<close>, \<open>stringtokenizer.cpp\<close>, \<open>level.cpp\<close>, and \<open>std::map\<close> with the contract of a
    dictionary (locales \<open>dictionary\<close>, \<open>token_source\<close>).
  \<^item> \<open>Transcoder\<close>: \<open>transcoder.cpp\<close>. Text survives the encoding to UTF-8 and back, with the exceptions
    the theorem names.
  \<^item> \<open>LogProperties\<close>: \<open>properties.cpp\<close>. The parser as a state machine: escaped properties are read back,
    and the inputs on which it hangs are characterised.
  \<^item> \<open>LogOptions\<close>: \<open>optionconverter.cpp\<close>. Substitution of variables is equivalent to an inductive relation, and
    it returns when the properties do not refer to each other in a cycle.
  \<^item> \<open>LogHierarchy\<close>: \<open>logger.cpp\<close>, \<open>rootlogger.cpp\<close>, \<open>hierarchy.cpp\<close>, \<open>appenderattachableimpl.cpp\<close>,
    \<open>basicconfigurator.cpp\<close>. Loggers are objects in a heap of the hierarchy.
  \<^item> \<open>LoggerTree\<close>, \<open>LoggerLevels\<close>: the parent of every logger is its nearest dotted ancestor whatever the order of
    the requests, a logger inherits the level of the nearest ancestor that has one, whatever the order of
    requests and changes of levels, and a request for a name with a leading dot does not return.

  \<^bold>\<open>Parameters.\<close> The ODBC driver, the sockets, the operating system's threads and events, the clock and
  the collation of the data source, appenders and listeners, resource bundles, system properties and
  the charset of the system are arguments of the definitions. What a theorem needs of them is a named
  hypothesis, which its witness discharges for a concrete instance.

  \<^bold>\<open>Not modelled.\<close> Log output and printed text of the server; destructors that only free memory; locks,
  whose sections are atomic steps. Of log4cxx: appenders, layouts, filters and configurators, which write
  to files, consoles and sockets through APR or create objects by the name of a class, the overloads for
  other character types, and accessors. APR, APR-util and Expat, which are bundled libraries around the
  operating system, except for \<open>apr_itoa\<close>, which the formatting of numbers uses. The test programs
  \<open>src/DNSTest\<close> and \<open>src/ODBCTest\<close>.
\<close>

end
